(* ===== verification/Kryos_Prelude.thy ===== *)
theory Kryos_Prelude
  imports Main "HOL-Library.Word"
begin

text \<open>
  Shared vocabulary of the development: the machine integer types of the C
  sources, the ways an operation can fail to return (a kernel panic, an access
  outside an object, a loop that never ends), byte-array bitmaps as the physical
  memory manager and the file system keep them, and the word and list lemmas the
  component theories use.
\<close>

unbundle bit_operations_syntax

section \<open>Machine integers and outcomes\<close>

type_synonym u8 = "8 word"
type_synonym u16 = "16 word"
type_synonym u32 = "32 word"
type_synonym u64 = "64 word"

text \<open>
  \<open>Panic\<close> is a call of \<open>panic\<close> or a failed \<open>KASSERT\<close>, \<open>OutOfBounds\<close> a read or
  write outside the object the code indexes, \<open>Diverges\<close> a loop that never leaves,
  \<open>Halted\<close> the idle loop around \<open>hlt\<close>.
\<close>

datatype fault = Panic string | OutOfBounds | Diverges | Halted

type_synonym 'a outcome = "fault + 'a"

text \<open>Sequencing of operations that may not return.\<close>

definition bindF :: "'a outcome \<Rightarrow> ('a \<Rightarrow> 'b outcome) \<Rightarrow> 'b outcome" where
  "bindF r k = (case r of Inl e \<Rightarrow> Inl e | Inr x \<Rightarrow> k x)"

text \<open>
  Proof collections: \<open>kryos_unat\<close> moves word arithmetic to natural numbers,
  \<open>bitmap_simps\<close> evaluates bitmap operations.
\<close>

named_theorems kryos_unat
named_theorems bitmap_simps

section \<open>Bitmaps stored as byte arrays\<close>

text \<open>
  \<open>bitmap[i / 8] & (1 << (i % 8))\<close>, \<open>bitmap[i / 8] |= 1 << (i % 8)\<close> and
  \<open>bitmap[i / 8] &= ~(1 << (i % 8))\<close>.
\<close>

definition bm_test :: "u8 list \<Rightarrow> nat \<Rightarrow> bool" where
  "bm_test bm i = (bm ! (i div 8) AND push_bit (i mod 8) 1 \<noteq> 0)"

definition bm_set :: "u8 list \<Rightarrow> nat \<Rightarrow> u8 list" where
  "bm_set bm i = bm[i div 8 := bm ! (i div 8) OR push_bit (i mod 8) 1]"

definition bm_clear :: "u8 list \<Rightarrow> nat \<Rightarrow> u8 list" where
  "bm_clear bm i = bm[i div 8 := bm ! (i div 8) AND NOT (push_bit (i mod 8) 1)]"

text \<open>The set of indices below \<open>n\<close> whose bit is set.\<close>

definition bm_used :: "u8 list \<Rightarrow> nat \<Rightarrow> nat set" where
  "bm_used bm n = {i. i < n \<and> bm_test bm i}"

section \<open>Outcomes\<close>

lemma bindF_simps [simp]:
  "bindF (Inl e) k = Inl e"
  "bindF (Inr x) k = k x"
  by (simp_all add: bindF_def)

lemma bindF_Inr_iff: "bindF r k = Inr y \<longleftrightarrow> (\<exists>x. r = Inr x \<and> k x = Inr y)"
  by (cases r) simp_all

lemma bindF_InrE [elim!]:
  assumes "bindF r k = Inr y"
  obtains x where "r = Inr x" and "k x = Inr y"
  using assms by (cases r) simp_all

section \<open>Bits of words\<close>

lemma and_bit_eq_0_iff: "(b :: 'a::len word) AND push_bit n 1 = 0 \<longleftrightarrow> \<not> bit b n"
proof
  assume "b AND push_bit n 1 = 0"
  then have "\<not> bit (b AND push_bit n 1) n" by simp
  then show "\<not> bit b n" by (auto simp: bit_simps dest: bit_imp_le_length)
next
  assume "\<not> bit b n"
  then have "\<not> bit (b AND push_bit n 1) m" for m
    by (cases "m = n") (auto simp: bit_and_iff bit_exp_iff)
  then show "b AND push_bit n 1 = 0" by (intro bit_eqI) simp
qed

lemma bit_push_1_iff: "bit (push_bit n 1 :: 'a::len word) m \<longleftrightarrow> m = n \<and> n < LENGTH('a)"
  by (auto simp: bit_exp_iff)

lemma and_not_mask_eq: "(a :: 'a::len word) AND NOT (mask n) = push_bit n (drop_bit n a)"
  by (rule bit_eqI) (auto simp: bit_simps)

lemma unat_push_drop_bit:
  "unat (push_bit n (drop_bit n (a :: 'a::len word))) = unat a div 2 ^ n * 2 ^ n"
proof -
  have "push_bit n (drop_bit n a) + take_bit n a = a" by (rule bits_ident)
  then have eq: "push_bit n (drop_bit n a) = a - take_bit n a" by (simp add: eq_diff_eq)
  have u: "unat (take_bit n a) = unat a mod 2 ^ n"
    by (simp only: unsigned_take_bit_eq) (simp only: take_bit_eq_mod)
  then have "take_bit n a \<le> a" by (simp add: word_le_nat_alt)
  then have "unat (a - take_bit n a) = unat a - unat a mod 2 ^ n"
    by (simp add: unat_sub u)
  then show ?thesis by (simp add: eq minus_mod_eq_div_mult)
qed

lemma unat_and_not_mask [kryos_unat]:
  "unat ((a :: 'a::len word) AND NOT (mask n)) = unat a div 2 ^ n * 2 ^ n"
  by (simp add: and_not_mask_eq unat_push_drop_bit)

lemma u64_bound: "unat (x :: u64) < 2 ^ 64"
  using unsigned_less [of x] by simp

lemma u32_bound: "unat (x :: u32) < 2 ^ 32"
  using unsigned_less [of x] by simp

lemma unat_plus_1: "unat p + 1 < 2 ^ 64 \<Longrightarrow> unat ((p :: u64) + 1) = unat p + 1"
  by (simp add: unat_word_ariths)

lemma unat_plus_of_nat: "unat p + n < 2 ^ 64 \<Longrightarrow> unat ((p :: u64) + of_nat n) = unat p + n"
  by (simp add: unat_word_ariths unat_of_nat)

lemma unat_plus_u64: "unat a + unat b < 2 ^ 64 \<Longrightarrow> unat ((a :: u64) + b) = unat a + unat b"
  by (simp add: unat_word_ariths)

text \<open>An increment that does not wrap round makes progress.\<close>

lemma no_wrap_less:
  assumes "\<not> (a :: 'a::len word) + k < a" and "k \<noteq> 0"
  shows "unat a < unat (a + k)"
proof -
  from assms have "a \<le> a + k" and "a \<noteq> a + k" by auto
  then have "a < a + k" unfolding less_le by blast
  then show ?thesis by (simp only: word_less_nat_alt)
qed

section \<open>Bitmap operations\<close>

lemma bm_test_iff: "bm_test bm i \<longleftrightarrow> bit (bm ! (i div 8)) (i mod 8)"
  by (simp only: bm_test_def and_bit_eq_0_iff not_not)

lemma length_bm_set [simp]: "length (bm_set bm i) = length bm"
  by (simp add: bm_set_def)

lemma length_bm_clear [simp]: "length (bm_clear bm i) = length bm"
  by (simp add: bm_clear_def)

lemma div_mod_8_eq: "(i :: nat) div 8 = j div 8 \<Longrightarrow> i mod 8 = j mod 8 \<Longrightarrow> i = j"
  by (metis div_mult_mod_eq)

lemma bm_test_set [bitmap_simps]:
  assumes "i < 8 * length bm"
  shows "bm_test (bm_set bm i) j \<longleftrightarrow> j = i \<or> bm_test bm j"
proof (cases "j div 8 = i div 8")
  case True
  with assms show ?thesis
    by (auto simp: bm_test_iff bm_set_def bit_or_iff bit_exp_iff less_mult_imp_div_less mult.commute
        dest: div_mod_8_eq)
next
  case False
  then show ?thesis by (auto simp: bm_test_iff bm_set_def)
qed

lemma bm_test_clear [bitmap_simps]:
  assumes "i < 8 * length bm" and "j < 8 * length bm"
  shows "bm_test (bm_clear bm i) j \<longleftrightarrow> j \<noteq> i \<and> bm_test bm j"
proof (cases "j div 8 = i div 8")
  case True
  with assms show ?thesis
    by (auto simp: bm_test_iff bm_clear_def bit_and_iff bit_not_iff bit_exp_iff
        less_mult_imp_div_less mult.commute dest: div_mod_8_eq)
next
  case False
  then show ?thesis by (auto simp: bm_test_iff bm_clear_def)
qed

lemma finite_bm_used [simp]: "finite (bm_used bm n)"
  by (simp add: bm_used_def)

lemma bm_used_set [bitmap_simps]:
  "i < n \<Longrightarrow> n \<le> 8 * length bm \<Longrightarrow> bm_used (bm_set bm i) n = insert i (bm_used bm n)"
  by (auto simp: bm_used_def bitmap_simps)

lemma bm_used_clear [bitmap_simps]:
  "i < n \<Longrightarrow> n \<le> 8 * length bm \<Longrightarrow> bm_used (bm_clear bm i) n = bm_used bm n - {i}"
  by (auto simp: bm_used_def bitmap_simps)

lemma card_bm_used_le: "card (bm_used bm n) \<le> n"
proof -
  have "bm_used bm n \<subseteq> {..<n}" by (auto simp: bm_used_def)
  then show ?thesis using card_mono [of "{..<n}"] by fastforce
qed

text \<open>A byte whose eight bits are all set is \<open>0xFF\<close>, and conversely.\<close>

lemma byte_full_iff: "(b :: u8) = 0xFF \<longleftrightarrow> (\<forall>k < 8. bit b k)"
proof -
  have "(0xFF :: u8) = mask 8" by (simp add: mask_eq_exp_minus_1)
  then show ?thesis by (auto simp: bit_eq_iff bit_mask_iff)
qed

end
