(* ===== verification/KString.thy ===== *)
theory KString
  imports Kryos_Prelude
begin

text \<open>
  The freestanding string library, \<open>kernel/lib/string.c\<close>. Memory is a function
  from 64-bit addresses to bytes, so overlapping buffers apart as they do in C. A
  counter that the code decrements to zero is a natural number; the two loops that
  stop only at a byte found in memory (\<open>strlen\<close>, \<open>strcmp\<close>) are partial functions,
  whose value \<open>None\<close> means that the loop does not end.
\<close>

section \<open>Definitions\<close>

type_synonym mem = "u64 \<Rightarrow> u8"

fun memset :: "mem \<Rightarrow> u64 \<Rightarrow> u32 \<Rightarrow> nat \<Rightarrow> mem" where
  "memset m p c 0 = m"
| "memset m p c (Suc n) = memset (m(p := ucast c)) (p + 1) c n"

fun memcpy :: "mem \<Rightarrow> u64 \<Rightarrow> u64 \<Rightarrow> nat \<Rightarrow> mem" where
  "memcpy m d s 0 = m"
| "memcpy m d s (Suc n) = memcpy (m(d := m s)) (d + 1) (s + 1) n"

text \<open>The descending loop of \<open>memmove\<close>, entered with both pointers past the end.\<close>

fun memmove_down :: "mem \<Rightarrow> u64 \<Rightarrow> u64 \<Rightarrow> nat \<Rightarrow> mem" where
  "memmove_down m d s 0 = m"
| "memmove_down m d s (Suc n) = memmove_down (m(d - 1 := m (s - 1))) (d - 1) (s - 1) n"

definition memmove :: "mem \<Rightarrow> u64 \<Rightarrow> u64 \<Rightarrow> nat \<Rightarrow> mem" where
  "memmove m d s n =
     (if d < s then memcpy m d s n
      else memmove_down m (d + of_nat n) (s + of_nat n) n)"

partial_function (option) strlen_loop :: "mem \<Rightarrow> u64 \<Rightarrow> nat \<Rightarrow> nat option" where
  "strlen_loop m s len = (if m s \<noteq> 0 then strlen_loop m (s + 1) (Suc len) else Some len)"

definition strlen :: "mem \<Rightarrow> u64 \<Rightarrow> nat option" where
  "strlen m s = strlen_loop m s 0"

partial_function (option) strcmp :: "mem \<Rightarrow> u64 \<Rightarrow> u64 \<Rightarrow> int option" where
  "strcmp m s1 s2 =
     (if m s1 \<noteq> 0 \<and> m s1 = m s2 then strcmp m (s1 + 1) (s2 + 1)
      else Some (uint (m s1) - uint (m s2)))"

fun strncmp :: "mem \<Rightarrow> u64 \<Rightarrow> u64 \<Rightarrow> nat \<Rightarrow> int" where
  "strncmp m s1 s2 0 = 0"
| "strncmp m s1 s2 (Suc n) =
     (if m s1 \<noteq> 0 \<and> m s1 = m s2 then strncmp m (s1 + 1) (s2 + 1) n
      else uint (m s1) - uint (m s2))"

fun memcmp :: "mem \<Rightarrow> u64 \<Rightarrow> u64 \<Rightarrow> nat \<Rightarrow> int" where
  "memcmp m s1 s2 0 = 0"
| "memcmp m s1 s2 (Suc n) =
     (if m s1 \<noteq> m s2 then uint (m s1) - uint (m s2)
      else memcmp m (s1 + 1) (s2 + 1) n)"

text \<open>The padding loop of \<open>strncpy\<close> and its copying loop; \<open>n\<close> counts the bytes left.\<close>

fun strncpy_pad :: "mem \<Rightarrow> u64 \<Rightarrow> nat \<Rightarrow> mem" where
  "strncpy_pad m d 0 = m"
| "strncpy_pad m d (Suc n) = strncpy_pad (m(d := 0)) (d + 1) n"

fun strncpy :: "mem \<Rightarrow> u64 \<Rightarrow> u64 \<Rightarrow> nat \<Rightarrow> mem" where
  "strncpy m d s 0 = m"
| "strncpy m d s (Suc n) =
     (if m s \<noteq> 0 then strncpy (m(d := m s)) (d + 1) (s + 1) n
      else strncpy_pad m d (Suc n))"

text \<open>\<open>cstr_at m p xs\<close>: the NUL-terminated string at \<open>p\<close> is \<open>xs\<close>.\<close>

fun cstr_at :: "mem \<Rightarrow> u64 \<Rightarrow> u8 list \<Rightarrow> bool" where
  "cstr_at m p [] \<longleftrightarrow> m p = 0"
| "cstr_at m p (x # xs) \<longleftrightarrow> x \<noteq> 0 \<and> m p = x \<and> cstr_at m (p + 1) xs"

text \<open>Address \<open>a\<close> lies in the \<open>n\<close> bytes that start at \<open>p\<close>.\<close>

definition in_range :: "u64 \<Rightarrow> nat \<Rightarrow> u64 \<Rightarrow> bool" where
  "in_range p n a \<longleftrightarrow> unat p \<le> unat a \<and> unat a < unat p + n"

section \<open>Address arithmetic\<close>

lemma in_range_0 [simp]: "\<not> in_range p 0 a"
  by (simp add: in_range_def)

lemma in_range_Suc:
  assumes "unat p + Suc n \<le> 2 ^ 64"
  shows "in_range p (Suc n) a \<longleftrightarrow> a = p \<or> 0 < n \<and> in_range (p + 1) n a"
proof (cases n)
  case 0
  then show ?thesis by (auto simp: in_range_def word_unat_eq_iff)
next
  case (Suc k)
  with assms have "unat (p + 1) = unat p + 1" by (intro unat_plus_1) simp
  with Suc show ?thesis by (auto simp: in_range_def word_unat_eq_iff)
qed

lemma in_range_decomp:
  assumes "in_range p n a"
  obtains k where "k < n" and "a = p + of_nat k"
proof
  show "unat a - unat p < n" using assms by (auto simp: in_range_def)
  have "unat p \<le> unat a" using assms by (simp add: in_range_def)
  then show "a = p + of_nat (unat a - unat p)"
    by (simp add: word_unat_eq_iff unat_word_ariths unat_of_nat)
qed

section \<open>Copying\<close>

lemma memcpy_apply:
  assumes "unat d + n \<le> 2 ^ 64" and "unat s + n \<le> 2 ^ 64"
    and "unat d \<le> unat s \<or> unat s + n \<le> unat d"
  shows "memcpy m d s n a = (if in_range d n a then m (s + (a - d)) else m a)"
  using assms
proof (induction n arbitrary: m d s)
  case 0
  then show ?case by simp
next
  case (Suc n)
  show ?case
  proof (cases "n = 0")
    case True
    with Suc.prems show ?thesis by (simp add: in_range_Suc)
  next
    case False
    with Suc.prems have d: "unat (d + 1) = unat d + 1" and s: "unat (s + 1) = unat s + 1"
      by (intro unat_plus_1; linarith)+
    have apart: "s + (a - d) \<noteq> d" if "in_range (d + 1) n a"
    proof -
      from that obtain k where k: "k < n" "a = d + 1 + of_nat k" by (rule in_range_decomp)
      then have "unat (s + (a - d)) = unat s + Suc k"
        using Suc.prems unat_plus_of_nat [of s "Suc k"] by (simp add: algebra_simps)
      with k Suc.prems show ?thesis by (auto simp: word_unat_eq_iff)
    qed
    have "memcpy m d s (Suc n) a
        = (if in_range (d + 1) n a then (m(d := m s)) (s + 1 + (a - (d + 1)))
           else (m(d := m s)) a)"
      unfolding memcpy.simps by (rule Suc.IH) (use Suc.prems d s in auto)
    moreover have "in_range d (Suc n) a \<longleftrightarrow> a = d \<or> in_range (d + 1) n a"
      using Suc.prems False by (simp add: in_range_Suc)
    moreover have "\<not> in_range (d + 1) n d" by (simp add: in_range_def d)
    moreover have "s + 1 + (a - (d + 1)) = s + (a - d)" by simp
    ultimately show ?thesis using apart by (auto simp del: memcpy.simps)
  qed
qed

lemma memmove_down_apply:
  assumes "unat d + n \<le> 2 ^ 64" and "unat s \<le> unat d"
  shows "memmove_down m (d + of_nat n) (s + of_nat n) n a
       = (if in_range d n a then m (s + (a - d)) else m a)"
  using assms
proof (induction n arbitrary: m)
  case 0
  then show ?case by simp
next
  case (Suc n)
  have dn: "unat (d + of_nat n) = unat d + n" and sn: "unat (s + of_nat n) = unat s + n"
    using Suc.prems by (auto intro!: unat_plus_of_nat)
  have apart: "s + (a - d) \<noteq> d + of_nat n" if "in_range d n a"
  proof -
    from that obtain k where k: "k < n" "a = d + of_nat k" by (rule in_range_decomp)
    then have "unat (s + (a - d)) = unat s + k"
      using Suc.prems unat_plus_of_nat [of s k] by simp
    with k Suc.prems show ?thesis by (auto simp: word_unat_eq_iff dn)
  qed
  have "memmove_down m (d + of_nat (Suc n)) (s + of_nat (Suc n)) (Suc n) a
      = memmove_down (m(d + of_nat n := m (s + of_nat n))) (d + of_nat n) (s + of_nat n) n a"
    by (simp add: algebra_simps)
  also have "\<dots> = (if in_range d n a then (m(d + of_nat n := m (s + of_nat n))) (s + (a - d))
      else (m(d + of_nat n := m (s + of_nat n))) a)"
    using Suc.prems by (intro Suc.IH) auto
  finally have eq: "memmove_down m (d + of_nat (Suc n)) (s + of_nat (Suc n)) (Suc n) a
      = (if in_range d n a then (m(d + of_nat n := m (s + of_nat n))) (s + (a - d))
         else (m(d + of_nat n := m (s + of_nat n))) a)" .
  have rng: "in_range d (Suc n) a \<longleftrightarrow> a = d + of_nat n \<or> in_range d n a"
    by (auto simp: in_range_def word_unat_eq_iff dn)
  have "\<not> in_range d n (d + of_nat n)" by (simp add: in_range_def dn)
  then show ?case unfolding eq rng using apart by auto
qed

section \<open>Strings\<close>

lemma strlen_loop_cstr: "cstr_at m p xs \<Longrightarrow> strlen_loop m p k = Some (k + length xs)"
proof (induction xs arbitrary: p k)
  case Nil
  then show ?case by (subst strlen_loop.simps) simp
next
  case (Cons x xs)
  then show ?case by (subst strlen_loop.simps) simp
qed

lemma strcmp_cstr:
  "cstr_at m p xs \<Longrightarrow> cstr_at m q ys \<Longrightarrow> \<exists>d. strcmp m p q = Some d \<and> (d = 0 \<longleftrightarrow> xs = ys)"
proof (induction xs arbitrary: p q ys)
  case Nil
  then show ?case by (cases ys) (subst strcmp.simps, auto simp: uint_0_iff)+
next
  case (Cons x xs)
  then show ?case
  proof (cases ys)
    case Nil
    with Cons.prems show ?thesis by (subst strcmp.simps) (auto simp: uint_0_iff)
  next
    case (Cons y ys')
    with Cons.prems Cons.IH [of "p + 1" "q + 1" ys'] show ?thesis
      by (subst strcmp.simps) (auto simp: word_uint_eq_iff)
  qed
qed

section \<open>Properties\<close>

text \<open>
  C1. \<open>memmove\<close> copies \<open>n\<close> bytes correctly whether or not the two buffers overlap:
  each destination byte receives the byte its source held before the call, and no
  byte outside the destination changes.
\<close>

theorem memmove_correct:
  assumes "unat d + n \<le> 2 ^ 64" and "unat s + n \<le> 2 ^ 64"
  shows "memmove m d s n a = (if in_range d n a then m (s + (a - d)) else m a)"
proof (cases "d < s")
  case True
  with assms show ?thesis by (simp add: memmove_def memcpy_apply word_less_nat_alt)
next
  case False
  then have "unat s \<le> unat d" by (simp add: word_less_nat_alt)
  with assms show ?thesis using False by (simp add: memmove_def memmove_down_apply)
qed

theorem memmove_correct_witness:
  "memmove ((\<lambda>_. 0)(0x1000 := 7, 0x1001 := 8, 0x1002 := 9)) 0x1001 0x1000 3 0x1003 = 9"
  by (subst memmove_correct) (simp_all add: in_range_def)

text \<open>
  C2. \<open>strcmp\<close> ends on NUL-terminated strings and answers 0 exactly for equal strings,
  and \<open>strlen\<close> ends and counts the bytes before the terminator.
\<close>

theorem strcmp_strlen_cstring:
  assumes "cstr_at m p xs" and "cstr_at m q ys"
  shows "(\<exists>d. strcmp m p q = Some d \<and> (d = 0 \<longleftrightarrow> xs = ys)) \<and> strlen m p = Some (length xs)"
  using strcmp_cstr [OF assms] strlen_loop_cstr [OF assms(1), of 0] by (simp add: strlen_def)

theorem strcmp_strlen_cstring_witness:
  "(\<exists>d. strcmp ((\<lambda>_. 0)(0x10 := 97, 0x20 := 97)) 0x10 0x20 = Some d \<and> d = 0)"
  using strcmp_strlen_cstring [of "(\<lambda>_. 0)(0x10 := 97, 0x20 := 97)" "0x10" "[97]" "0x20" "[97]"]
  by simp

end
