(* ===== verification/Frame_Allocator.thy ===== *)
theory Frame_Allocator
  imports Kryos_Prelude
begin

text \<open>
  The interface between the physical memory manager and its clients (the page
  tables, the kernel heap, the program loader): \<open>alloc\<close> hands out a page frame that
  nobody holds, or 0 and nothing changes; \<open>free\<close> gives one back. \<open>used\<close> is the set
  of frames in use and \<open>invar\<close> the provider's invariant.
\<close>

locale frame_allocator =
  fixes alloc :: "'s \<Rightarrow> u64 \<times> 's"
    and free :: "u64 \<Rightarrow> 's \<Rightarrow> 's outcome"
    and invar :: "'s \<Rightarrow> bool"
    and used :: "'s \<Rightarrow> u64 set"
  assumes alloc_oom: "invar s \<Longrightarrow> alloc s = (0, s') \<Longrightarrow> s' = s"
    and alloc_fresh: "invar s \<Longrightarrow> alloc s = (pa, s') \<Longrightarrow> pa \<noteq> 0 \<Longrightarrow> pa \<notin> used s"
    and alloc_used: "invar s \<Longrightarrow> alloc s = (pa, s') \<Longrightarrow> pa \<noteq> 0 \<Longrightarrow> used s' = insert pa (used s)"
    and alloc_aligned: "invar s \<Longrightarrow> alloc s = (pa, s') \<Longrightarrow> pa mod 4096 = 0"
    and alloc_invar: "invar s \<Longrightarrow> alloc s = (pa, s') \<Longrightarrow> invar s'"
    and free_used: "invar s \<Longrightarrow> pa \<in> used s \<Longrightarrow> free pa s = Inr s' \<Longrightarrow> used s' = used s - {pa}"
    and free_invar: "invar s \<Longrightarrow> pa \<in> used s \<Longrightarrow> free pa s = Inr s' \<Longrightarrow> invar s'"
begin

lemma alloc_used_mono: "invar s \<Longrightarrow> alloc s = (pa, s') \<Longrightarrow> used s \<subseteq> used s'"
  by (cases "pa = 0") (auto dest: alloc_oom alloc_used)

lemma alloc_two_distinct:
  assumes "invar s" and "alloc s = (a, s1)" and "alloc s1 = (b, s2)" and "a \<noteq> 0" and "b \<noteq> 0"
  shows "a \<noteq> b"
proof -
  have "a \<in> used s1" using alloc_used [OF assms(1,2,4)] by simp
  moreover have "b \<notin> used s1"
    using alloc_fresh [OF alloc_invar [OF assms(1,2)] assms(3,5)] .
  ultimately show ?thesis by blast
qed

text \<open>Any number of allocations in a row, stopping at the first failure.\<close>

fun alloc_many :: "nat \<Rightarrow> 's \<Rightarrow> u64 list \<times> 's" where
  "alloc_many 0 s = ([], s)"
| "alloc_many (Suc n) s =
     (case alloc s of (pa, s1) \<Rightarrow>
        if pa = 0 then ([], s1)
        else (case alloc_many n s1 of (pas, s2) \<Rightarrow> (pa # pas, s2)))"

lemma alloc_many_spec:
  assumes "invar s" and "alloc_many n s = (pas, s')"
  shows "invar s' \<and> distinct pas \<and> set pas \<inter> used s = {} \<and> used s' = set pas \<union> used s"
  using assms
proof (induction n arbitrary: s pas)
  case 0
  then show ?case by simp
next
  case (Suc n)
  obtain pa s1 where a: "alloc s = (pa, s1)" by (cases "alloc s")
  show ?case
  proof (cases "pa = 0")
    case True
    with Suc.prems a show ?thesis by (auto dest: alloc_oom)
  next
    case False
    then obtain qs where q: "alloc_many n s1 = (qs, s')" "pas = pa # qs"
      using Suc.prems(2) a by (auto split: prod.splits)
    have "invar s1" using Suc.prems(1) a by (rule alloc_invar)
    from Suc.IH [OF this q(1)] show ?thesis
      using alloc_fresh [OF Suc.prems(1) a False] alloc_used [OF Suc.prems(1) a False] q(2) by auto
  qed
qed

end

end
