(* ===== verification/PMM.thy ===== *)
theory PMM
  imports Frame_Allocator
begin

text \<open>
  The physical memory manager, \<open>kernel/memory/pmm.c\<close>: a bitmap with one bit per
  4 KiB frame (1 is used or reserved, 0 is free) and a counter of used frames. The
  static variables of the file are the fields of the record; the bitmap that the
  code places at \<open>bitmap_phys_addr\<close> is the list of its \<open>bitmap_size\<close> bytes.
\<close>

section \<open>Definitions\<close>

abbreviation PMM_PAGE_SIZE :: u64 where
  "PMM_PAGE_SIZE \<equiv> 4096"

record pmm =
  bitmap :: "u8 list"
  total_frames :: u64
  used_frames :: u64
  max_physical_address :: u64
  bitmap_phys_addr :: u64
  bitmap_size :: u64

definition align_up :: "u64 \<Rightarrow> u64 \<Rightarrow> u64" where
  "align_up val alignment = (val + alignment - 1) AND NOT (alignment - 1)"

definition align_down :: "u64 \<Rightarrow> u64 \<Rightarrow> u64" where
  "align_down val alignment = val AND NOT (alignment - 1)"

definition pmm_init :: "u64 \<Rightarrow> u64 \<Rightarrow> pmm" where
  "pmm_init bitmap_start_phys max_phys_addr =
     (let frames = max_phys_addr div PMM_PAGE_SIZE;
          size = (if frames mod 8 \<noteq> 0 then frames div 8 + 1 else frames div 8)
      in \<lparr>bitmap = replicate (unat size) 0xFF,
          total_frames = frames,
          used_frames = frames,
          max_physical_address = max_phys_addr,
          bitmap_phys_addr = align_up bitmap_start_phys PMM_PAGE_SIZE,
          bitmap_size = size\<rparr>)"

text \<open>
  The loop of \<open>pmm_mark_region\<close> over the page addresses below \<open>end_addr\<close>. The
  address is a 64-bit word: when the increment wraps round, every page address is
  below \<open>end_addr\<close> again and the loop never ends.
\<close>

function pmm_mark_loop :: "u64 \<Rightarrow> u64 \<Rightarrow> bool \<Rightarrow> pmm \<Rightarrow> pmm outcome" where
  "pmm_mark_loop addr end_addr free p =
     (if addr < end_addr then
        let frame = drop_bit 12 addr; byte = drop_bit 3 frame; i = unat frame in
        if length (bitmap p) \<le> unat byte then Inl OutOfBounds
        else
          let is_currently_free = \<not> bm_test (bitmap p) i;
              p' = (if free then
                      (if \<not> is_currently_free
                       then p\<lparr>bitmap := bm_clear (bitmap p) i, used_frames := used_frames p - 1\<rparr>
                       else p)
                    else
                      (if is_currently_free
                       then p\<lparr>bitmap := bm_set (bitmap p) i, used_frames := used_frames p + 1\<rparr>
                       else p))
          in if addr + PMM_PAGE_SIZE < addr then Inl Diverges
             else pmm_mark_loop (addr + PMM_PAGE_SIZE) end_addr free p'
      else Inr p)"
  by pat_completeness auto
termination
proof (relation "measure (\<lambda>(addr, end_addr, free, p). unat end_addr - unat addr)", goal_cases)
  case 1
  then show ?case by simp
next
  case (2 addr end_addr free p)
  then have "unat addr < unat end_addr" by (simp add: word_less_nat_alt)
  moreover from 2 have "unat addr < unat (addr + PMM_PAGE_SIZE)"
    by (intro no_wrap_less) simp_all
  ultimately show ?case by simp
qed

declare pmm_mark_loop.simps [simp del]

definition pmm_mark_region :: "u64 \<Rightarrow> u64 \<Rightarrow> bool \<Rightarrow> pmm \<Rightarrow> pmm outcome" where
  "pmm_mark_region phys_addr len free p =
     (let start_addr = align_down phys_addr PMM_PAGE_SIZE;
          end_addr = align_up (phys_addr + len) PMM_PAGE_SIZE;
          end_addr' = (if max_physical_address p < end_addr then max_physical_address p else end_addr)
      in pmm_mark_loop start_addr end_addr' free p)"

definition pmm_reserve_boot_regions :: "pmm \<Rightarrow> pmm outcome" where
  "pmm_reserve_boot_regions p = pmm_mark_region 0 (bitmap_phys_addr p + bitmap_size p) False p"

text \<open>
  The two nested loops of \<open>pmm_alloc_page\<close>: the inner one looks for a clear bit in
  the byte \<open>b\<close> from position \<open>bit_\<close> on.
\<close>

fun pmm_find_bit :: "u8 \<Rightarrow> nat list \<Rightarrow> nat option" where
  "pmm_find_bit b [] = None"
| "pmm_find_bit b (k # ks) = (if b AND push_bit k 1 = 0 then Some k else pmm_find_bit b ks)"

fun pmm_find_byte :: "u8 list \<Rightarrow> nat \<Rightarrow> (nat \<times> nat) option" where
  "pmm_find_byte [] byte = None"
| "pmm_find_byte (b # bs) byte =
     (if b \<noteq> 0xFF then
        (case pmm_find_bit b [0..<8] of
           Some k \<Rightarrow> Some (byte, k)
         | None \<Rightarrow> pmm_find_byte bs (Suc byte))
      else pmm_find_byte bs (Suc byte))"

definition pmm_alloc_page :: "pmm \<Rightarrow> u64 \<times> pmm" where
  "pmm_alloc_page p =
     (case pmm_find_byte (take (unat (bitmap_size p)) (bitmap p)) 0 of
        None \<Rightarrow> (0, p)
      | Some (byte, k) \<Rightarrow>
          let frame = of_nat byte * 8 + of_nat k in
          if total_frames p \<le> frame then (0, p)
          else (frame * PMM_PAGE_SIZE,
                p\<lparr>bitmap := bm_set (bitmap p) (8 * byte + k), used_frames := used_frames p + 1\<rparr>))"

definition pmm_free_page :: "u64 \<Rightarrow> pmm \<Rightarrow> pmm outcome" where
  "pmm_free_page phys_addr p =
     (if phys_addr mod PMM_PAGE_SIZE \<noteq> 0 then Inl (Panic ''PMM: unaligned free'')
      else if max_physical_address p \<le> phys_addr then Inl (Panic ''PMM: out-of-range free'')
      else
        let frame = phys_addr div PMM_PAGE_SIZE; i = unat frame in
        if length (bitmap p) \<le> unat (frame div 8) then Inl OutOfBounds
        else if \<not> bm_test (bitmap p) i then Inl (Panic ''PMM: double free'')
        else if phys_addr < bitmap_phys_addr p + bitmap_size p
          then Inl (Panic ''PMM: attempted to free reserved frame'')
        else Inr (p\<lparr>bitmap := bm_clear (bitmap p) i, used_frames := used_frames p - 1\<rparr>))"

definition pmm_total_frames :: "pmm \<Rightarrow> u64" where
  "pmm_total_frames p = total_frames p"

definition pmm_free_frames :: "pmm \<Rightarrow> u64" where
  "pmm_free_frames p = total_frames p - used_frames p"

definition pmm_used_frames :: "pmm \<Rightarrow> u64" where
  "pmm_used_frames p = used_frames p"

text \<open>
  The invariant: the bitmap has one bit per frame, the number of frames is the
  number of whole pages below the highest address, and the counter is the number of
  set bits, which is the exact accounting the code promises.
\<close>

definition pmm_inv :: "pmm \<Rightarrow> bool" where
  "pmm_inv p \<longleftrightarrow>
     length (bitmap p) = unat (bitmap_size p)
   \<and> unat (bitmap_size p) = (unat (total_frames p) + 7) div 8
   \<and> total_frames p = max_physical_address p div PMM_PAGE_SIZE
   \<and> unat (used_frames p) = card (bm_used (bitmap p) (unat (total_frames p)))"

text \<open>The frames in use, as the addresses that clients see.\<close>

definition pmm_used :: "pmm \<Rightarrow> u64 set" where
  "pmm_used p = (\<lambda>i. of_nat i * PMM_PAGE_SIZE) ` bm_used (bitmap p) (unat (total_frames p))"

section \<open>The search loops\<close>

lemma pmm_find_bit_find: "pmm_find_bit b ks = find (\<lambda>k. \<not> bit b k) ks"
  by (induction ks) (simp_all only: pmm_find_bit.simps find.simps and_bit_eq_0_iff)

lemma pmm_find_bit_Some:
  "pmm_find_bit b [0..<8] = Some k \<longleftrightarrow> k < 8 \<and> \<not> bit b k \<and> (\<forall>j < k. bit b j)"
  by (auto simp: pmm_find_bit_find find_Some_iff)

lemma pmm_find_bit_None: "pmm_find_bit b [0..<8] = None \<longleftrightarrow> b = 0xFF"
  by (auto simp: pmm_find_bit_find find_None_iff byte_full_iff)

lemma bm_test_Cons: "bm_test (b # bs) i = (if i < 8 then bit b i else bm_test bs (i - 8))"
proof (cases "i < 8")
  case False
  then have "i div 8 = Suc ((i - 8) div 8)" and "i mod 8 = (i - 8) mod 8"
    by (simp_all add: le_div_geq le_mod_geq)
  with False show ?thesis by (simp add: bm_test_iff)
qed (simp add: bm_test_iff)

lemma pmm_find_byte_Some:
  assumes "pmm_find_byte bs n = Some (byte, k)"
  obtains i where "byte = n + i div 8" and "k = i mod 8" and "i < 8 * length bs"
    and "\<not> bm_test bs i" and "\<forall>j < i. bm_test bs j"
  using assms
proof (induction bs arbitrary: n thesis)
  case Nil
  then show ?case by simp
next
  case (Cons b bs)
  show ?case
  proof (cases "b = 0xFF")
    case True
    with Cons.prems(2) have "pmm_find_byte bs (Suc n) = Some (byte, k)" by simp
    then obtain i where i: "byte = Suc n + i div 8" "k = i mod 8" "i < 8 * length bs"
      "\<not> bm_test bs i" "\<forall>j < i. bm_test bs j"
      using Cons.IH by blast
    from True have full: "bit b j" if "j < 8" for j using that by (simp add: byte_full_iff)
    show ?thesis
    proof (rule Cons.prems(1))
      show "byte = n + (i + 8) div 8" "k = (i + 8) mod 8" "i + 8 < 8 * length (b # bs)"
        using i by simp_all
      show "\<not> bm_test (b # bs) (i + 8)" using i by (simp add: bm_test_Cons)
      show "\<forall>j < i + 8. bm_test (b # bs) j" using i full by (auto simp: bm_test_Cons)
    qed
  next
    case False
    with Cons.prems(2) have k: "byte = n" "k < 8" "\<not> bit b k" "\<forall>j < k. bit b j"
      by (auto simp: pmm_find_bit_Some pmm_find_bit_None split: option.splits)
    show ?thesis
      by (rule Cons.prems(1) [of k]) (use k in \<open>auto simp: bm_test_Cons\<close>)
  qed
qed

lemma pmm_find_byte_None: "pmm_find_byte bs n = None \<Longrightarrow> i < 8 * length bs \<Longrightarrow> bm_test bs i"
proof (induction bs arbitrary: n i)
  case (Cons b bs)
  then have "b = 0xFF" and "pmm_find_byte bs (Suc n) = None"
    by (auto simp: pmm_find_bit_None split: if_splits option.splits)
  with Cons show ?case by (auto simp: bm_test_Cons byte_full_iff)
qed simp

section \<open>The invariant\<close>

lemma pmm_inv_sizes:
  assumes "pmm_inv p"
  shows "unat (total_frames p) \<le> 8 * length (bitmap p)"
    and "unat (total_frames p) * 4096 \<le> unat (max_physical_address p)"
    and "unat (total_frames p) < 2 ^ 52"
proof -
  show "unat (total_frames p) \<le> 8 * length (bitmap p)"
    using assms by (simp add: pmm_inv_def)
  have eq: "unat (total_frames p) = unat (max_physical_address p) div 4096"
    using assms by (simp add: pmm_inv_def unat_div)
  then show "unat (total_frames p) * 4096 \<le> unat (max_physical_address p)" by simp
  have "unat (max_physical_address p) < 2 ^ 64" by (rule u64_bound)
  with eq show "unat (total_frames p) < 2 ^ 52" by simp
qed

text \<open>Page addresses of frame numbers: no wrap-around below the number of frames.\<close>

lemma frame_addr [kryos_unat]: "i < 2 ^ 52 \<Longrightarrow> unat (of_nat i * (4096 :: u64)) = i * 4096"
  by (simp add: unat_word_ariths unat_of_nat)

lemma frame_addr_inj:
  "i < 2 ^ 52 \<Longrightarrow> j < 2 ^ 52 \<Longrightarrow> of_nat i * (4096 :: u64) = of_nat j * 4096 \<longleftrightarrow> i = j"
  by (auto simp: word_unat_eq_iff frame_addr)

lemma pmm_used_iff:
  assumes "pmm_inv p" and "i < unat (total_frames p)"
  shows "of_nat i * PMM_PAGE_SIZE \<in> pmm_used p \<longleftrightarrow> bm_test (bitmap p) i"
proof -
  note lt = pmm_inv_sizes(3) [OF assms(1)]
  show ?thesis
    using assms(2) lt by (auto simp: pmm_used_def bm_used_def frame_addr_inj)
qed

text \<open>Setting a clear bit and clearing a set bit keep the accounting exact.\<close>

lemma pmm_inv_set:
  assumes "pmm_inv p" and "i < unat (total_frames p)" and "\<not> bm_test (bitmap p) i"
  shows "pmm_inv (p\<lparr>bitmap := bm_set (bitmap p) i, used_frames := used_frames p + 1\<rparr>)"
proof -
  let ?n = "unat (total_frames p)"
  have "bm_used (bm_set (bitmap p) i) ?n = insert i (bm_used (bitmap p) ?n)"
    using assms pmm_inv_sizes(1) by (simp add: bitmap_simps)
  moreover have "i \<notin> bm_used (bitmap p) ?n" using assms by (simp add: bm_used_def)
  ultimately have card: "card (bm_used (bm_set (bitmap p) i) ?n) = Suc (unat (used_frames p))"
    using assms(1) by (simp add: pmm_inv_def)
  then have "unat (used_frames p) < ?n" using card_bm_used_le [of "bm_set (bitmap p) i" ?n] by simp
  then have "unat (used_frames p + 1) = Suc (unat (used_frames p))"
    using pmm_inv_sizes(3) [OF assms(1)] by (simp add: unat_word_ariths)
  with card assms(1) show ?thesis by (simp add: pmm_inv_def)
qed

lemma pmm_inv_clear:
  assumes "pmm_inv p" and "i < unat (total_frames p)" and "bm_test (bitmap p) i"
  shows "pmm_inv (p\<lparr>bitmap := bm_clear (bitmap p) i, used_frames := used_frames p - 1\<rparr>)"
proof -
  let ?n = "unat (total_frames p)"
  have "bm_used (bm_clear (bitmap p) i) ?n = bm_used (bitmap p) ?n - {i}"
    using assms pmm_inv_sizes(1) by (simp add: bitmap_simps)
  moreover have "i \<in> bm_used (bitmap p) ?n" using assms by (simp add: bm_used_def)
  ultimately have card: "card (bm_used (bm_clear (bitmap p) i) ?n) = unat (used_frames p) - 1"
    and pos: "0 < unat (used_frames p)"
    using assms(1) by (auto simp: pmm_inv_def card_gt_0_iff)
  from pos have "unat (used_frames p - 1) = unat (used_frames p) - 1"
    by (simp add: unat_sub word_le_nat_alt)
  with card assms(1) show ?thesis by (simp add: pmm_inv_def)
qed

section \<open>Allocation\<close>

text \<open>The first clear bit among the frames is the one that is taken.\<close>

lemma pmm_alloc_page_cases:
  assumes "pmm_inv p"
  obtains (oom) "pmm_alloc_page p = (0, p)" "\<forall>i < unat (total_frames p). bm_test (bitmap p) i"
  | (frame) i where "i < unat (total_frames p)" "\<not> bm_test (bitmap p) i"
      "\<forall>j < i. bm_test (bitmap p) j"
      "pmm_alloc_page p = (of_nat i * PMM_PAGE_SIZE,
         p\<lparr>bitmap := bm_set (bitmap p) i, used_frames := used_frames p + 1\<rparr>)"
proof -
  have len: "take (unat (bitmap_size p)) (bitmap p) = bitmap p"
    using assms by (simp add: pmm_inv_def)
  note le = pmm_inv_sizes(1) [OF assms]
  show thesis
  proof (cases "pmm_find_byte (bitmap p) 0")
    case None
    then have "\<forall>i < unat (total_frames p). bm_test (bitmap p) i"
      using le by (auto intro: pmm_find_byte_None)
    with None len show thesis by (intro oom) (simp_all add: pmm_alloc_page_def)
  next
    case (Some r)
    then obtain byte k where r: "pmm_find_byte (bitmap p) 0 = Some (byte, k)" by (cases r) auto
    then obtain i where i: "byte = i div 8" "k = i mod 8" "i < 8 * length (bitmap p)"
      "\<not> bm_test (bitmap p) i" "\<forall>j < i. bm_test (bitmap p) j"
      by (rule pmm_find_byte_Some) simp
    have idx: "8 * byte + k = i" using i by simp
    have num: "of_nat byte * 8 + of_nat k = (of_nat i :: u64)"
      unfolding idx [symmetric] by simp
    have "length (bitmap p) < 2 ^ 60"
      using assms pmm_inv_sizes(3) [OF assms] by (simp add: pmm_inv_def)
    with i(3) have "unat (of_nat i :: u64) = i" by (simp add: unat_of_nat)
    then have bound: "total_frames p \<le> of_nat i \<longleftrightarrow> unat (total_frames p) \<le> i"
      by (simp add: word_le_nat_alt)
    show thesis
    proof (cases "unat (total_frames p) \<le> i")
      case True
      with r len i num bound show thesis
        by (intro oom) (auto simp: pmm_alloc_page_def Let_def)
    next
      case False
      with r len i num bound idx show thesis
        by (intro frame [of i]) (auto simp: pmm_alloc_page_def Let_def)
    qed
  qed
qed

lemma pmm_alloc_page_inv:
  assumes "pmm_inv p"
  shows "pmm_inv (snd (pmm_alloc_page p))"
  using assms by (cases rule: pmm_alloc_page_cases [OF assms]) (simp_all add: pmm_inv_set)

lemma pmm_used_set:
  assumes "pmm_inv p" and "i < unat (total_frames p)"
  shows "pmm_used (p\<lparr>bitmap := bm_set (bitmap p) i, used_frames := u\<rparr>)
       = insert (of_nat i * PMM_PAGE_SIZE) (pmm_used p)"
  using assms pmm_inv_sizes(1) [OF assms(1)] by (simp add: pmm_used_def bitmap_simps)

lemma pmm_used_clear:
  assumes "pmm_inv p" and "i < unat (total_frames p)"
  shows "pmm_used (p\<lparr>bitmap := bm_clear (bitmap p) i, used_frames := u\<rparr>)
       = pmm_used p - {of_nat i * PMM_PAGE_SIZE}"
proof -
  have "bm_used (bitmap p) (unat (total_frames p)) \<subseteq> {..<2 ^ 52}"
    using pmm_inv_sizes(3) [OF assms(1)] by (auto simp: bm_used_def)
  then show ?thesis
    using assms pmm_inv_sizes(1,3) [OF assms(1)]
    by (auto simp: pmm_used_def bitmap_simps frame_addr_inj)
qed

section \<open>Freeing\<close>

lemma pmm_free_page_Inr:
  assumes "pmm_inv p" and "pmm_free_page pa p = Inr p'" and "pa \<in> pmm_used p"
  obtains i where "i < unat (total_frames p)" and "pa = of_nat i * PMM_PAGE_SIZE"
    and "bm_test (bitmap p) i"
    and "p' = p\<lparr>bitmap := bm_clear (bitmap p) i, used_frames := used_frames p - 1\<rparr>"
proof -
  from assms(3) obtain i where i: "i < unat (total_frames p)" "bm_test (bitmap p) i"
    "pa = of_nat i * PMM_PAGE_SIZE"
    by (auto simp: pmm_used_def bm_used_def)
  then have "i < 2 ^ 52" using pmm_inv_sizes(3) [OF assms(1)] by simp
  then have "unat (pa div PMM_PAGE_SIZE) = i" by (simp add: unat_div i frame_addr)
  with assms(2) have "p' = p\<lparr>bitmap := bm_clear (bitmap p) i, used_frames := used_frames p - 1\<rparr>"
    by (auto simp: pmm_free_page_def Let_def split: if_splits)
  with i that show thesis by blast
qed

lemma bm_clear_set: "i < 8 * length bm \<Longrightarrow> \<not> bm_test bm i \<Longrightarrow> bm_clear (bm_set bm i) i = bm"
proof -
  assume i: "i < 8 * length bm" and clear: "\<not> bm_test bm i"
  let ?b = "bm ! (i div 8)" and ?k = "i mod 8"
  have "(?b OR push_bit ?k 1) AND NOT (push_bit ?k 1) = ?b"
    using clear by (intro bit_eqI) (auto simp: bm_test_iff bit_simps bit_exp_iff)
  with i show ?thesis
    by (simp add: bm_clear_def bm_set_def less_mult_imp_div_less mult.commute)
qed

section \<open>Marking regions\<close>

text \<open>
  The frames that the page addresses from \<open>addr\<close> below \<open>end_addr\<close> name, where
  \<open>addr\<close> is the address of frame \<open>a\<close> and \<open>end_addr\<close> that of frame \<open>e\<close>.
\<close>

lemma pmm_mark_loop_spec:
  assumes "pmm_inv p" and "e \<le> unat (total_frames p)" and "a \<le> e"
  obtains p' where "pmm_mark_loop (of_nat a * PMM_PAGE_SIZE) (of_nat e * PMM_PAGE_SIZE) fr p = Inr p'"
    and "pmm_inv p'"
    and "\<And>i. i < unat (total_frames p) \<Longrightarrow>
           bm_test (bitmap p') i \<longleftrightarrow> (if a \<le> i \<and> i < e then \<not> fr else bm_test (bitmap p) i)"
    and "total_frames p' = total_frames p" and "max_physical_address p' = max_physical_address p"
    and "bitmap_phys_addr p' = bitmap_phys_addr p" and "bitmap_size p' = bitmap_size p"
  using assms
proof (induction "e - a" arbitrary: a p thesis)
  case 0
  then show ?case by (intro 0(2) [of p]) (subst pmm_mark_loop.simps, auto)
next
  case (Suc n)
  let ?addr = "of_nat a * PMM_PAGE_SIZE"
  let ?q = "if fr then if bm_test (bitmap p) a
      then p\<lparr>bitmap := bm_clear (bitmap p) a, used_frames := used_frames p - 1\<rparr> else p
    else if \<not> bm_test (bitmap p) a
      then p\<lparr>bitmap := bm_set (bitmap p) a, used_frames := used_frames p + 1\<rparr> else p"
  note inv = Suc.prems(2)
  note sz = pmm_inv_sizes [OF inv]
  from Suc.hyps(2) have lt: "a < e" by simp
  with Suc.prems(3) sz have a: "a < unat (total_frames p)" "a < 2 ^ 52" "e < 2 ^ 52" by auto
  have q: "pmm_inv ?q" using inv a by (simp add: pmm_inv_set pmm_inv_clear)
  have qt: "bm_test (bitmap ?q) i \<longleftrightarrow> (if i = a then \<not> fr else bm_test (bitmap p) i)"
    if "i < unat (total_frames p)" for i
    using that sz a by (auto simp: bitmap_simps)
  have qf: "total_frames ?q = total_frames p" "max_physical_address ?q = max_physical_address p"
    "bitmap_phys_addr ?q = bitmap_phys_addr p" "bitmap_size ?q = bitmap_size p"
    by simp_all
  have nxt: "?addr + PMM_PAGE_SIZE = of_nat (Suc a) * PMM_PAGE_SIZE" by (simp add: algebra_simps)
  have "?addr < of_nat e * PMM_PAGE_SIZE"
    using a lt by (simp add: word_less_nat_alt frame_addr)
  moreover have "unat (drop_bit 12 ?addr) = a"
    using a by (simp only: unat_drop_bit_eq frame_addr) (simp add: drop_bit_eq_div)
  moreover have "a div 8 < length (bitmap p)"
    using a sz by (simp add: less_mult_imp_div_less mult.commute)
  moreover have "unat (drop_bit 3 (drop_bit 12 ?addr)) = a div 8"
    using a by (simp only: unat_drop_bit_eq frame_addr) (simp add: drop_bit_eq_div)
  moreover have "\<not> ?addr + PMM_PAGE_SIZE < ?addr"
    unfolding nxt using a lt by (simp add: word_less_nat_alt frame_addr del: of_nat_Suc)
  ultimately have step: "pmm_mark_loop ?addr (of_nat e * PMM_PAGE_SIZE) fr p
      = pmm_mark_loop (of_nat (Suc a) * PMM_PAGE_SIZE) (of_nat e * PMM_PAGE_SIZE) fr ?q"
    by (subst pmm_mark_loop.simps) (simp only: nxt Let_def if_True not_le if_False not_not, simp)
  have "e \<le> unat (total_frames ?q)" and "Suc a \<le> e" and "n = e - Suc a"
    using Suc.prems(3) lt Suc.hyps(2) qf by simp_all
  from Suc.hyps(1) [OF this(3) _ q this(1,2)] obtain p' where p':
    "pmm_mark_loop (of_nat (Suc a) * PMM_PAGE_SIZE) (of_nat e * PMM_PAGE_SIZE) fr ?q = Inr p'"
    "pmm_inv p'" "\<And>i. i < unat (total_frames ?q) \<Longrightarrow>
       bm_test (bitmap p') i \<longleftrightarrow> (if Suc a \<le> i \<and> i < e then \<not> fr else bm_test (bitmap ?q) i)"
    "total_frames p' = total_frames ?q" "max_physical_address p' = max_physical_address ?q"
    "bitmap_phys_addr p' = bitmap_phys_addr ?q" "bitmap_size p' = bitmap_size ?q"
    by blast
  show ?case
  proof (rule Suc.prems(1) [of p'])
    show "bm_test (bitmap p') i \<longleftrightarrow> (if a \<le> i \<and> i < e then \<not> fr else bm_test (bitmap p) i)"
      if "i < unat (total_frames p)" for i
      using p'(3) [of i] qt [OF that] that qf lt by auto
  qed (use p' qf step in simp_all)
qed

lemma align_down_page: "align_down x PMM_PAGE_SIZE = of_nat (unat x div 4096) * PMM_PAGE_SIZE"
proof -
  have "(PMM_PAGE_SIZE - 1 :: u64) = mask 12" by (simp add: mask_eq_exp_minus_1)
  then have "unat (align_down x PMM_PAGE_SIZE) = unat x div 4096 * 4096"
    by (simp only: align_down_def unat_and_not_mask) simp
  moreover have "unat x div 4096 < 2 ^ 52" using u64_bound [of x] by simp
  ultimately show ?thesis by (simp only: word_unat_eq_iff frame_addr)
qed

lemma align_up_page:
  assumes "unat x + 4095 < 2 ^ 64"
  shows "align_up x PMM_PAGE_SIZE = of_nat ((unat x + 4095) div 4096) * PMM_PAGE_SIZE"
proof -
  have "align_up x PMM_PAGE_SIZE = align_down (x + 4095) PMM_PAGE_SIZE"
    by (simp add: align_up_def align_down_def add_diff_eq [symmetric])
  moreover have "unat (x + 4095) = unat x + 4095" using assms by (simp add: unat_word_ariths)
  ultimately show ?thesis by (simp only: align_down_page)
qed

text \<open>
  The effect of \<open>pmm_mark_region\<close> on a page-aligned memory size: exactly the frames
  that the region touches change.
\<close>

lemma pmm_mark_region_frames:
  assumes "pmm_inv p" and "max_physical_address p mod PMM_PAGE_SIZE = 0"
    and "unat phys_addr + unat len + 4095 < 2 ^ 64"
  obtains p' where "pmm_mark_region phys_addr len fr p = Inr p'" and "pmm_inv p'"
    and "\<And>i. i < unat (total_frames p) \<Longrightarrow> bm_test (bitmap p') i \<longleftrightarrow>
          (if unat phys_addr div 4096 \<le> i \<and> i * 4096 < unat phys_addr + unat len
           then \<not> fr else bm_test (bitmap p) i)"
proof -
  let ?s = "unat phys_addr div 4096" and ?e = "(unat phys_addr + unat len + 4095) div 4096"
  let ?m = "unat (max_physical_address p) div 4096"
  have m: "unat (total_frames p) = ?m" using assms(1) by (simp add: pmm_inv_def unat_div)
  have "?m < 2 ^ 52" using u64_bound [of "max_physical_address p"] by simp
  moreover have "unat (max_physical_address p) mod 4096 = 0"
    using assms(2) by (simp add: word_unat_eq_iff unat_mod)
  ultimately have mx: "max_physical_address p = of_nat ?m * PMM_PAGE_SIZE"
    by (simp add: word_unat_eq_iff frame_addr mod_eq_0_iff_dvd)
  have "unat (phys_addr + len) = unat phys_addr + unat len"
    using assms(3) by (simp add: unat_word_ariths)
  then have up: "align_up (phys_addr + len) PMM_PAGE_SIZE = of_nat ?e * PMM_PAGE_SIZE"
    using align_up_page [of "phys_addr + len"] assms(3) by simp
  have "?e < 2 ^ 52" using assms(3) by simp
  with \<open>?m < 2 ^ 52\<close> have "max_physical_address p < of_nat ?e * PMM_PAGE_SIZE \<longleftrightarrow> ?m < ?e"
    by (subst mx) (simp add: word_less_nat_alt frame_addr)
  then have e: "(if max_physical_address p < of_nat ?e * PMM_PAGE_SIZE then max_physical_address p
       else of_nat ?e * PMM_PAGE_SIZE) = of_nat (min ?m ?e) * PMM_PAGE_SIZE"
    using mx by (simp add: min_def)
  have eq: "pmm_mark_region phys_addr len fr p
      = pmm_mark_loop (of_nat ?s * PMM_PAGE_SIZE) (of_nat (min ?m ?e) * PMM_PAGE_SIZE) fr p"
    by (simp only: pmm_mark_region_def Let_def align_down_page up e)
  have rng: "i * 4096 < unat phys_addr + unat len \<longleftrightarrow> i < ?e" for i by linarith
  show thesis
  proof (cases "?s \<le> min ?m ?e")
    case True
    have "min ?m ?e \<le> unat (total_frames p)" by (simp add: m)
    from pmm_mark_loop_spec [OF assms(1) this True, where fr = fr] obtain p' where
      "pmm_mark_region phys_addr len fr p = Inr p'" "pmm_inv p'"
      "\<And>i. i < unat (total_frames p) \<Longrightarrow>
         bm_test (bitmap p') i \<longleftrightarrow> (if ?s \<le> i \<and> i < min ?m ?e then \<not> fr else bm_test (bitmap p) i)"
      unfolding eq by blast
    then show thesis by (intro that [of p']) (auto simp: rng m)
  next
    case False
    then have "\<not> of_nat ?s * PMM_PAGE_SIZE < of_nat (min ?m ?e) * PMM_PAGE_SIZE"
      using \<open>?m < 2 ^ 52\<close> u64_bound [of phys_addr] by (auto simp: word_less_nat_alt frame_addr)
    then have "pmm_mark_region phys_addr len fr p = Inr p"
      unfolding eq by (subst pmm_mark_loop.simps) simp
    then show thesis using False assms(1) m by (intro that [of p]) (auto simp: rng)
  qed
qed

lemma bm_test_replicate_full: "i < 8 * n \<Longrightarrow> bm_test (replicate n 0xFF) i"
  using byte_full_iff [of "0xFF"] by (simp add: bm_test_iff less_mult_imp_div_less mult.commute)

lemma pmm_inv_init: "pmm_inv (pmm_init start max_addr)"
proof -
  let ?f = "max_addr div PMM_PAGE_SIZE"
  let ?z = "if ?f mod 8 \<noteq> 0 then ?f div 8 + 1 else ?f div 8"
  have "unat ?f < 2 ^ 52" using u64_bound [of max_addr] by (simp add: unat_div)
  then have "unat (?f div 8 + 1) = unat ?f div 8 + 1"
    by (subst unat_plus_1) (simp_all add: unat_div)
  moreover have "?f mod 8 = 0 \<longleftrightarrow> unat ?f mod 8 = 0" by (simp add: word_unat_eq_iff unat_mod)
  moreover have "unat (?f div 8) = unat ?f div 8" by (simp add: unat_div)
  moreover have "(if n mod 8 \<noteq> 0 then n div 8 + 1 else n div 8) = (n + 7) div 8" for n :: nat
    by presburger
  ultimately have z: "unat ?z = (unat ?f + 7) div 8"
    by (simp only: if_distrib [of unat])
  have "bm_used (replicate (unat ?z) 0xFF) (unat ?f) = {..<unat ?f}"
    by (auto simp: bm_used_def z intro!: bm_test_replicate_full)
  then show ?thesis by (simp only: pmm_inv_def pmm_init_def Let_def z pmm.simps length_replicate card_lessThan simp_thms)
qed

section \<open>The interface to clients\<close>

text \<open>
  After boot, the frames below the end of the bitmap, frame 0 among them (the code
  answers 0 for "no frame"), are reserved: they are in use and cannot be freed.
\<close>

definition pmm_ready :: "pmm \<Rightarrow> bool" where
  "pmm_ready p \<longleftrightarrow> pmm_inv p \<and> 0 < bitmap_phys_addr p + bitmap_size p
     \<and> (\<forall>i < unat (total_frames p). of_nat i * PMM_PAGE_SIZE < bitmap_phys_addr p + bitmap_size p \<longrightarrow>
           bm_test (bitmap p) i)"

lemma pmm_ready_0: "pmm_ready p \<Longrightarrow> 0 < unat (total_frames p) \<Longrightarrow> bm_test (bitmap p) 0"
  by (auto simp: pmm_ready_def)

lemma pmm_alloc_page_ready:
  assumes "pmm_ready p" and "pmm_alloc_page p = (pa, p')"
  shows "pmm_ready p'" and "pa = 0 \<longleftrightarrow> (\<forall>i < unat (total_frames p). bm_test (bitmap p) i)"
    and "pa = 0 \<Longrightarrow> p' = p" and "pa \<noteq> 0 \<Longrightarrow> pa \<notin> pmm_used p"
    and "pa \<noteq> 0 \<Longrightarrow> pmm_used p' = insert pa (pmm_used p)" and "pa mod PMM_PAGE_SIZE = 0"
proof -
  from assms(1) have inv: "pmm_inv p" by (simp add: pmm_ready_def)
  note sz = pmm_inv_sizes [OF inv]
  have "pmm_ready p' \<and> (pa = 0 \<longleftrightarrow> (\<forall>i < unat (total_frames p). bm_test (bitmap p) i))
      \<and> (pa = 0 \<longrightarrow> p' = p) \<and> (pa \<noteq> 0 \<longrightarrow> pa \<notin> pmm_used p \<and> pmm_used p' = insert pa (pmm_used p))
      \<and> pa mod PMM_PAGE_SIZE = 0"
    using inv
  proof (cases rule: pmm_alloc_page_cases)
    case oom
    with assms show ?thesis by simp
  next
    case (frame i)
    with assms have pa: "pa = of_nat i * PMM_PAGE_SIZE"
      and p': "p' = p\<lparr>bitmap := bm_set (bitmap p) i, used_frames := used_frames p + 1\<rparr>"
      by simp_all
    have "i \<noteq> 0" using frame pmm_ready_0 [OF assms(1)] by (cases "i = 0") auto
    moreover have u: "unat pa = i * 4096" using frame sz by (simp add: pa frame_addr)
    ultimately have "pa \<noteq> 0" by auto
    moreover have "pmm_ready p'"
      using assms(1) frame sz(1) inv by (auto simp: pmm_ready_def p' pmm_inv_set bitmap_simps)
    moreover have "pa \<notin> pmm_used p" using frame inv by (simp add: pa pmm_used_iff)
    moreover have "pa mod PMM_PAGE_SIZE = 0" by (simp add: word_unat_eq_iff unat_mod u)
    ultimately show ?thesis using frame inv by (auto simp: p' pa pmm_used_set)
  qed
  then show "pmm_ready p'" and "pa = 0 \<longleftrightarrow> (\<forall>i < unat (total_frames p). bm_test (bitmap p) i)"
    and "pa = 0 \<Longrightarrow> p' = p" and "pa \<noteq> 0 \<Longrightarrow> pa \<notin> pmm_used p"
    and "pa \<noteq> 0 \<Longrightarrow> pmm_used p' = insert pa (pmm_used p)" and "pa mod PMM_PAGE_SIZE = 0"
    by blast+
qed

lemma pmm_free_page_ready:
  assumes "pmm_ready p" and "pa \<in> pmm_used p" and "pmm_free_page pa p = Inr p'"
  shows "pmm_ready p'" and "pmm_used p' = pmm_used p - {pa}"
proof -
  from assms(1) have inv: "pmm_inv p" by (simp add: pmm_ready_def)
  from pmm_free_page_Inr [OF inv assms(3,2)] obtain i where i: "i < unat (total_frames p)"
    "pa = of_nat i * PMM_PAGE_SIZE" "bm_test (bitmap p) i"
    "p' = p\<lparr>bitmap := bm_clear (bitmap p) i, used_frames := used_frames p - 1\<rparr>" .
  have "\<not> pa < bitmap_phys_addr p + bitmap_size p" using assms(3)
    by (auto simp: pmm_free_page_def Let_def split: if_splits)
  moreover have "i < 8 * length (bitmap p)" using i pmm_inv_sizes(1) [OF inv] by linarith
  then have "bm_test (bm_clear (bitmap p) i) j \<longleftrightarrow> j \<noteq> i \<and> bm_test (bitmap p) j"
    if "j < unat (total_frames p)" for j
    using that pmm_inv_sizes(1) [OF inv] by (simp add: bm_test_clear)
  ultimately show "pmm_ready p'"
    using assms(1) i inv by (auto simp: pmm_ready_def pmm_inv_clear)
  show "pmm_used p' = pmm_used p - {pa}" using i inv by (simp add: pmm_used_clear)
qed

text \<open>A frame that was handed out is above the reserved ones, so giving it back never panics.\<close>

lemma pmm_alloc_page_above:
  assumes "pmm_ready p" and "pmm_alloc_page p = (pa, p')" and "pa \<noteq> 0"
  shows "bitmap_phys_addr p + bitmap_size p \<le> pa"
proof -
  have "pmm_inv p" using assms(1) by (simp add: pmm_ready_def)
  then show ?thesis
  proof (cases rule: pmm_alloc_page_cases)
    case (frame i)
    then show ?thesis using assms by (auto simp: pmm_ready_def not_less [symmetric])
  qed (use assms in simp)
qed

lemma pmm_free_page_ok:
  assumes "pmm_inv p" and "pa \<in> pmm_used p" and "bitmap_phys_addr p + bitmap_size p \<le> pa"
  obtains p' where "pmm_free_page pa p = Inr p'"
proof -
  note sz = pmm_inv_sizes [OF assms(1)]
  obtain i where i: "i < unat (total_frames p)" "bm_test (bitmap p) i" "pa = of_nat i * PMM_PAGE_SIZE"
    using assms(2) by (auto simp: pmm_used_def bm_used_def)
  then have u: "unat pa = i * 4096" using sz by (simp add: frame_addr)
  then have "pa mod PMM_PAGE_SIZE = 0" by (simp add: word_unat_eq_iff unat_mod)
  moreover have "\<not> max_physical_address p \<le> pa"
    by (simp only: word_le_nat_alt u) (use i(1) sz(2) in linarith)
  moreover have "unat (pa div PMM_PAGE_SIZE) = i" by (simp add: unat_div u)
  moreover have "i < 8 * length (bitmap p)" using i sz by linarith
  then have "unat (pa div PMM_PAGE_SIZE div 8) < length (bitmap p)"
    by (simp add: unat_div u less_mult_imp_div_less mult.commute)
  ultimately show thesis
    using that assms(3) i(2) by (simp add: pmm_free_page_def Let_def not_le not_less)
qed

interpretation pmm_fa: frame_allocator pmm_alloc_page pmm_free_page pmm_ready pmm_used
proof (unfold_locales, goal_cases)
  case 1
  then show ?case by (rule pmm_alloc_page_ready(3)) simp
next
  case 2
  then show ?case by (rule pmm_alloc_page_ready(4))
next
  case 3
  then show ?case by (rule pmm_alloc_page_ready(5))
next
  case 4
  then show ?case by (rule pmm_alloc_page_ready(6))
next
  case 5
  then show ?case by (rule pmm_alloc_page_ready(1))
next
  case 6
  then show ?case by (rule pmm_free_page_ready(2))
next
  case 7
  then show ?case by (rule pmm_free_page_ready(1))
qed

section \<open>Properties\<close>

lemma find_upt_Some: "find P [0..<n] = Some i \<longleftrightarrow> i < n \<and> P i \<and> (\<forall>j < i. \<not> P j)"
  by (auto simp: find_Some_iff)

text \<open>
  C3. \<open>pmm_alloc_page\<close> is first-fit: the nested byte and bit loops take the lowest
  free frame, mark it used and count it, and report 0 without any change exactly
  when every frame is in use. The accounting invariant is kept.
\<close>

theorem pmm_alloc_page_first_fit:
  assumes "pmm_inv p"
  shows "pmm_alloc_page p =
      (case find (\<lambda>i. \<not> bm_test (bitmap p) i) [0..<unat (total_frames p)] of
         None \<Rightarrow> (0, p)
       | Some i \<Rightarrow> (of_nat i * PMM_PAGE_SIZE,
           p\<lparr>bitmap := bm_set (bitmap p) i, used_frames := used_frames p + 1\<rparr>))
    \<and> pmm_inv (snd (pmm_alloc_page p))"
  using assms
proof (cases rule: pmm_alloc_page_cases)
  case oom
  then have "find (\<lambda>i. \<not> bm_test (bitmap p) i) [0..<unat (total_frames p)] = None"
    by (auto simp: find_None_iff)
  with oom assms show ?thesis by simp
next
  case (frame i)
  then have "find (\<lambda>i. \<not> bm_test (bitmap p) i) [0..<unat (total_frames p)] = Some i"
    by (simp only: find_upt_Some) simp
  with frame assms show ?thesis by (simp add: pmm_inv_set)
qed

text \<open>An eight-frame memory whose frame 5 alone is free, for the concrete instances.\<close>

definition pmm_example :: pmm where
  "pmm_example = (pmm_init 0x1000 0x8000)
     \<lparr>bitmap := bm_clear (bitmap (pmm_init 0x1000 0x8000)) 5,
      used_frames := used_frames (pmm_init 0x1000 0x8000) - 1\<rparr>"

lemma pmm_example_eq:
  "pmm_example = \<lparr>bitmap = [0xDF], total_frames = 8, used_frames = 7,
     max_physical_address = 0x8000, bitmap_phys_addr = 0x1000, bitmap_size = 1\<rparr>"
  by (simp add: pmm_example_def pmm_init_def Let_def bm_clear_def align_up_def)

lemma pmm_example_inv: "pmm_inv pmm_example"
  unfolding pmm_example_def
  by (rule pmm_inv_clear [OF pmm_inv_init]) (simp_all add: pmm_init_def bm_test_def)

theorem pmm_alloc_page_first_fit_witness:
  "pmm_inv pmm_example \<and> fst (pmm_alloc_page pmm_example) = 0x5000"
proof -
  have "[0..<unat (8 :: u64)] = [0, 1, 2, 3, 4, 5, 6, 7]" by (simp add: upt_rec)
  then have "find (\<lambda>i. \<not> bm_test (bitmap pmm_example) i) [0..<unat (total_frames pmm_example)] = Some 5"
    by (simp add: pmm_example_eq bm_test_def)
  with pmm_alloc_page_first_fit [OF pmm_example_inv] pmm_example_inv show ?thesis by simp
qed

text \<open>
  C4. Freeing the frame just allocated restores the allocator state exactly: bitmap,
  counter and layout fields.
\<close>

theorem pmm_alloc_free_roundtrip:
  assumes "pmm_inv p" and "pmm_alloc_page p = (pa, p')" and "pa \<noteq> 0"
    and "bitmap_phys_addr p + bitmap_size p \<le> pa"
  shows "pmm_free_page pa p' = Inr p"
  using assms(1)
proof (cases rule: pmm_alloc_page_cases)
  case oom
  with assms show ?thesis by simp
next
  case (frame i)
  note sz = pmm_inv_sizes [OF assms(1)]
  from frame assms have pa: "pa = of_nat i * PMM_PAGE_SIZE"
    and p': "p' = p\<lparr>bitmap := bm_set (bitmap p) i, used_frames := used_frames p + 1\<rparr>"
    by simp_all
  have i: "i < 8 * length (bitmap p)" using frame sz by linarith
  have u: "unat pa = i * 4096" using frame sz by (simp add: pa frame_addr)
  then have "pa mod PMM_PAGE_SIZE = 0" by (simp add: word_unat_eq_iff unat_mod)
  moreover have "\<not> max_physical_address p \<le> pa"
    using frame sz by (simp add: word_le_nat_alt u)
  moreover have fr: "unat (pa div PMM_PAGE_SIZE) = i" by (simp add: unat_div u)
  moreover have "unat (pa div PMM_PAGE_SIZE div 8) < length (bitmap p)"
    using i by (simp add: unat_div u less_mult_imp_div_less mult.commute)
  moreover have "bm_clear (bm_set (bitmap p) i) i = bitmap p"
    using i frame by (intro bm_clear_set)
  ultimately show ?thesis
    using assms(4) i by (simp add: pmm_free_page_def Let_def p' bitmap_simps not_le not_less)
qed

theorem pmm_alloc_free_roundtrip_witness:
  "pmm_free_page 0x5000 (snd (pmm_alloc_page pmm_example)) = Inr pmm_example"
proof -
  have "pmm_alloc_page pmm_example = (0x5000, snd (pmm_alloc_page pmm_example))"
    by (simp add: pmm_example_eq pmm_alloc_page_def upt_rec Let_def)
  then show ?thesis
    by (rule pmm_alloc_free_roundtrip [OF pmm_example_inv]) (simp_all add: pmm_example_eq)
qed

text \<open>
  C5. On a memory whose size is a whole number of pages, \<open>pmm_free_page\<close> returns
  exactly for frames that are in use and lie above the bitmap storage; every other
  call (unaligned, out of range, double free, reserved) panics.
\<close>

theorem pmm_free_page_guards:
  assumes "pmm_inv p" and "max_physical_address p mod PMM_PAGE_SIZE = 0"
  shows "((\<exists>p'. pmm_free_page pa p = Inr p') \<longleftrightarrow>
           pa \<in> pmm_used p \<and> bitmap_phys_addr p + bitmap_size p \<le> pa)
       \<and> pmm_free_page pa p \<noteq> Inl OutOfBounds \<and> pmm_free_page pa p \<noteq> Inl Diverges"
proof -
  note sz = pmm_inv_sizes [OF assms(1)]
  let ?i = "unat (pa div PMM_PAGE_SIZE)"
  have m: "unat (max_physical_address p) = unat (total_frames p) * 4096"
    using assms by (simp add: pmm_inv_def unat_div word_unat_eq_iff unat_mod mod_eq_0_iff_dvd)
  have idx: "pa = of_nat ?i * PMM_PAGE_SIZE \<and> ?i < unat (total_frames p)
      \<and> \<not> length (bitmap p) \<le> unat (pa div PMM_PAGE_SIZE div 8)"
    if "pa mod PMM_PAGE_SIZE = 0" and "pa < max_physical_address p"
  proof -
    have "unat pa mod 4096 = 0" using that(1) by (simp add: word_unat_eq_iff unat_mod)
    moreover have lt: "unat pa < unat (total_frames p) * 4096"
      using that(2) m by (simp add: word_less_nat_alt)
    moreover have i: "?i = unat pa div 4096" by (simp add: unat_div)
    ultimately have "pa = of_nat ?i * PMM_PAGE_SIZE"
      using u64_bound [of pa] by (simp add: word_unat_eq_iff frame_addr mod_eq_0_iff_dvd)
    moreover from lt i have "?i < unat (total_frames p)" by (simp add: less_mult_imp_div_less)
    ultimately show ?thesis using sz(1)
      by (simp add: unat_div not_le less_mult_imp_div_less mult.commute)
  qed
  have used: "pa mod PMM_PAGE_SIZE = 0 \<and> pa < max_physical_address p \<and> bm_test (bitmap p) ?i"
    if mem: "pa \<in> pmm_used p"
  proof -
    from mem obtain i where i: "i < unat (total_frames p)" "bm_test (bitmap p) i"
      "pa = of_nat i * PMM_PAGE_SIZE"
      by (auto simp: pmm_used_def bm_used_def)
    then have "unat pa = i * 4096" using sz by (simp add: frame_addr)
    with i(1,2) m show ?thesis by (simp add: word_unat_eq_iff unat_mod unat_div word_less_nat_alt)
  qed
  show ?thesis
  proof (cases "pa mod PMM_PAGE_SIZE = 0 \<and> pa < max_physical_address p")
    case True
    with idx have i: "pa = of_nat ?i * PMM_PAGE_SIZE" "?i < unat (total_frames p)"
      "\<not> length (bitmap p) \<le> unat (pa div PMM_PAGE_SIZE div 8)"
      by blast+
    then have "pa \<in> pmm_used p \<longleftrightarrow> bm_test (bitmap p) ?i" using pmm_used_iff [OF assms(1)] by metis
    with True i(3) show ?thesis by (auto simp: pmm_free_page_def Let_def)
  next
    case False
    with used have "pa \<notin> pmm_used p" by (intro notI) simp
    with False show ?thesis by (auto simp: pmm_free_page_def not_le)
  qed
qed

theorem pmm_free_page_guards_witness:
  "(\<exists>p'. pmm_free_page 0x6000 pmm_example = Inr p') \<and> pmm_free_page 0x6000 pmm_example \<noteq> Inl OutOfBounds"
proof -
  have al: "max_physical_address pmm_example mod PMM_PAGE_SIZE = 0" by (simp add: pmm_example_eq)
  have "(0x6000 :: u64) = of_nat 6 * PMM_PAGE_SIZE" by simp
  moreover have "of_nat 6 * PMM_PAGE_SIZE \<in> pmm_used pmm_example"
    by (subst pmm_used_iff [OF pmm_example_inv]) (simp_all add: pmm_example_eq bm_test_def)
  ultimately have "0x6000 \<in> pmm_used pmm_example" by simp
  then show ?thesis
    using pmm_free_page_guards [OF pmm_example_inv al, of "0x6000"] by (simp add: pmm_example_eq)
qed

text \<open>
  C6. \<open>pmm_mark_region\<close> changes exactly the frames that the region
  \<open>[phys_addr, phys_addr + len)\<close> touches, never writes outside the bitmap, terminates,
  and keeps the accounting exact, on a memory whose size is a whole number of pages.
\<close>

theorem pmm_mark_region_exact:
  assumes "pmm_inv p" and "max_physical_address p mod PMM_PAGE_SIZE = 0"
    and "unat phys_addr + unat len + 4095 < 2 ^ 64"
  shows "\<exists>p'. pmm_mark_region phys_addr len fr p = Inr p' \<and> pmm_inv p' \<and>
    (\<forall>i < unat (total_frames p). bm_test (bitmap p') i \<longleftrightarrow>
       (if unat phys_addr div 4096 \<le> i \<and> i * 4096 < unat phys_addr + unat len
        then \<not> fr else bm_test (bitmap p) i))"
  using pmm_mark_region_frames [OF assms, of fr] by metis

theorem pmm_mark_region_exact_witness:
  "\<exists>p'. pmm_mark_region 0x2800 0x1000 True (pmm_init 0x1000 0x8000) = Inr p' \<and>
     \<not> bm_test (bitmap p') 2 \<and> \<not> bm_test (bitmap p') 3 \<and> bm_test (bitmap p') 4"
proof -
  have "max_physical_address (pmm_init 0x1000 0x8000) mod PMM_PAGE_SIZE = 0"
    and t: "unat (total_frames (pmm_init 0x1000 0x8000)) = 8"
    and b: "bm_test (bitmap (pmm_init 0x1000 0x8000)) 4"
    by (simp_all add: pmm_init_def bm_test_def)
  from pmm_mark_region_exact [OF pmm_inv_init this(1), of "0x2800" "0x1000" True]
  obtain p' where "pmm_mark_region 0x2800 0x1000 True (pmm_init 0x1000 0x8000) = Inr p'"
    and "\<forall>i < 8. bm_test (bitmap p') i \<longleftrightarrow>
      (if 2 \<le> i \<and> i * 4096 < 0x3800 then False else bm_test (bitmap (pmm_init 0x1000 0x8000)) i)"
    by (auto simp: t)
  then show ?thesis using b by auto
qed

text \<open>
  Without the alignment hypothesis the last, partial page of an odd memory size has a
  frame number outside the bitmap, and the region loop reaches it.
\<close>

lemma pmm_mark_region_unaligned_top:
  "pmm_mark_region 0x7000 0x1001 True (pmm_init 0x1000 0x8001) = Inl OutOfBounds"
  by (simp add: pmm_mark_region_def pmm_init_def Let_def align_up_def align_down_def
      pmm_mark_loop.simps bm_test_def)

end
