(* ===== verification/KMemory.thy ===== *)
theory KMemory
  imports KString
begin

text \<open>
  Physical memory as the kernel sees it: bytes at kernel virtual addresses, with the
  direct-map translations of \<open>kernel/memory/virt.h\<close> and little-endian 64-bit accesses,
  which is how C code reads and writes an element of a \<open>uint64_t\<close> array.
\<close>

section \<open>Definitions\<close>

abbreviation HIGHER_HALF_BASE :: u64 where
  "HIGHER_HALF_BASE \<equiv> 0xFFFFFFFF80000000"

definition phys_to_virt :: "u64 \<Rightarrow> u64" where
  "phys_to_virt phys = phys + HIGHER_HALF_BASE"

definition virt_to_phys :: "u64 \<Rightarrow> u64" where
  "virt_to_phys virt = virt - HIGHER_HALF_BASE"

definition rd64 :: "mem \<Rightarrow> u64 \<Rightarrow> u64" where
  "rd64 m a = ucast (m a) OR push_bit 8 (ucast (m (a + 1))) OR push_bit 16 (ucast (m (a + 2)))
     OR push_bit 24 (ucast (m (a + 3))) OR push_bit 32 (ucast (m (a + 4)))
     OR push_bit 40 (ucast (m (a + 5))) OR push_bit 48 (ucast (m (a + 6)))
     OR push_bit 56 (ucast (m (a + 7)))"

definition wr64 :: "mem \<Rightarrow> u64 \<Rightarrow> u64 \<Rightarrow> mem" where
  "wr64 m a v = m(a := ucast v, a + 1 := ucast (drop_bit 8 v), a + 2 := ucast (drop_bit 16 v),
     a + 3 := ucast (drop_bit 24 v), a + 4 := ucast (drop_bit 32 v),
     a + 5 := ucast (drop_bit 40 v), a + 6 := ucast (drop_bit 48 v),
     a + 7 := ucast (drop_bit 56 v))"

section \<open>Reading back\<close>

lemma virt_to_phys_to_virt [simp]: "virt_to_phys (phys_to_virt p) = p"
  by (simp add: virt_to_phys_def phys_to_virt_def)

lemma phys_to_virt_inj [simp]: "phys_to_virt p = phys_to_virt q \<longleftrightarrow> p = q"
  by (simp add: phys_to_virt_def)

lemma or_bytes_eq:
  "(ucast (ucast v :: u8) :: u64) OR push_bit 8 (ucast (ucast (drop_bit 8 v) :: u8))
     OR push_bit 16 (ucast (ucast (drop_bit 16 v) :: u8)) OR push_bit 24 (ucast (ucast (drop_bit 24 v) :: u8))
     OR push_bit 32 (ucast (ucast (drop_bit 32 v) :: u8)) OR push_bit 40 (ucast (ucast (drop_bit 40 v) :: u8))
     OR push_bit 48 (ucast (ucast (drop_bit 48 v) :: u8)) OR push_bit 56 (ucast (ucast (drop_bit 56 v) :: u8))
   = v" (is "?l = v")
proof (rule bit_eqI)
  fix n assume "possible_bit TYPE(u64) n"
  then have "n < 64" by simp
  then consider "n < 8" | "8 \<le> n" "n < 16" | "16 \<le> n" "n < 24" | "24 \<le> n" "n < 32" | "32 \<le> n" "n < 40"
    | "40 \<le> n" "n < 48" | "48 \<le> n" "n < 56" | "56 \<le> n" "n < 64"
    by linarith
  then show "bit ?l n \<longleftrightarrow> bit v n"
    by cases (auto simp: bit_or_iff bit_push_bit_iff bit_ucast_iff bit_drop_bit_eq)
qed

lemma rd64_wr64_same: "rd64 (wr64 m a v) a = v"
  using or_bytes_eq [of v] by (simp add: rd64_def wr64_def)


lemma wr64_outside: assumes "\<And>k. k < 8 \<Longrightarrow> b \<noteq> a + of_nat k" shows "wr64 m a v b = m b"
  using assms[of 0] assms[of 1] assms[of 2] assms[of 3] assms[of 4] assms[of 5] assms[of 6] assms[of 7]
  by (simp add: wr64_def)
lemma unat_plus_mod8: "unat (a + of_nat k :: u64) mod 8 = (unat a + k) mod 8"
  by (simp add: unat_word_ariths unsigned_of_nat take_bit_eq_mod mod_mod_cancel mod_add_right_eq)
lemma aligned8_eq:
  assumes "unat (a::u64) mod 8 = 0" "unat b mod 8 = 0" "k < 8" "l < 8" "a + of_nat k = b + of_nat l"
  shows "a = b"
proof -
  have "k = l" using arg_cong [OF assms(5), of "\<lambda>x. unat x mod 8"] assms
    unfolding unat_plus_mod8 by (metis add.commute mod_add_self2 mod_less mod_add_right_eq add_0_right)
  then show ?thesis using assms by simp
qed
lemma rd64_eqI: "(\<And>k. k < 8 \<Longrightarrow> m (a + of_nat k) = m' (a + of_nat k)) \<Longrightarrow> rd64 m a = rd64 m' a"
  proof -
  assume H: "\<And>k. k < 8 \<Longrightarrow> m (a + of_nat k) = m' (a + of_nat k)"
  show ?thesis 
  using H[of 0] H[of 1] H[of 2] H[of 3] H[of 4] H[of 5] H[of 6] H[of 7]
  by (simp add: rd64_def)
qed
lemma rd64_wr64_other:
  assumes "unat a mod 8 = 0" "unat b mod 8 = 0" "a \<noteq> b"
  shows "rd64 (wr64 m a v) b = rd64 m b"
  by (rule rd64_eqI, rule wr64_outside) (metis aligned8_eq assms)

end
