(* ===== verification/VMM.thy ===== *)
theory VMM
  imports KMemory PMM
begin

unbundle bit_operations_syntax

text \<open>
  The virtual memory manager, \<open>kernel/memory/vmm.c\<close>: four-level page tables that live
  in physical frames and are read and written, entry by entry, through the direct map.
  A page-table pointer is the 64-bit address it is in C, NULL being 0. The state holds
  the memory, the physical memory manager and \<open>CR3\<close>; an \<open>address_space_t\<close> is its only
  field \<open>pml4_phys\<close>. TLB invalidation and the trace on the serial port leave no mark in
  this state.
\<close>

section \<open>Definitions\<close>

abbreviation PTE_PRESENT :: u64 where "PTE_PRESENT \<equiv> 0x1"
abbreviation PTE_WRITABLE :: u64 where "PTE_WRITABLE \<equiv> 0x2"
abbreviation PTE_USER :: u64 where "PTE_USER \<equiv> 0x4"
abbreviation PDE_PS :: u64 where "PDE_PS \<equiv> 0x80"
abbreviation PTE_NO_EXECUTE :: u64 where "PTE_NO_EXECUTE \<equiv> 0x8000000000000000"
abbreviation PTE_FRAME_MASK :: u64 where "PTE_FRAME_MASK \<equiv> 0x000FFFFFFFFFF000"

abbreviation VMM_FLAG_WRITABLE :: u32 where "VMM_FLAG_WRITABLE \<equiv> 1"
abbreviation VMM_FLAG_USER :: u32 where "VMM_FLAG_USER \<equiv> 2"
abbreviation VMM_FLAG_NO_EXECUTE :: u32 where "VMM_FLAG_NO_EXECUTE \<equiv> 4"

record kmem =
  ram :: mem
  frames :: pmm
  cr3 :: u64

definition pml4_index :: "u64 \<Rightarrow> u64" where
  "pml4_index addr = drop_bit 39 addr AND 0x1FF"

definition pdpt_index :: "u64 \<Rightarrow> u64" where
  "pdpt_index addr = drop_bit 30 addr AND 0x1FF"

definition pd_index :: "u64 \<Rightarrow> u64" where
  "pd_index addr = drop_bit 21 addr AND 0x1FF"

definition pt_index :: "u64 \<Rightarrow> u64" where
  "pt_index addr = drop_bit 12 addr AND 0x1FF"

definition is_canonical :: "u64 \<Rightarrow> bool" where
  "is_canonical virt_addr =
     (let upper_17 = drop_bit 47 virt_addr in upper_17 = 0 \<or> upper_17 = 0x1FFFF)"

definition flags_to_pte :: "u32 \<Rightarrow> u64" where
  "flags_to_pte flags =
     (let p0 = 0;
          p1 = (if flags AND VMM_FLAG_WRITABLE \<noteq> 0 then p0 OR PTE_WRITABLE else p0);
          p2 = (if flags AND VMM_FLAG_USER \<noteq> 0 then p1 OR PTE_USER else p1)
      in if flags AND VMM_FLAG_NO_EXECUTE \<noteq> 0 then p2 OR PTE_NO_EXECUTE else p2)"

definition vmm_get_current_pml4 :: "kmem \<Rightarrow> u64" where
  "vmm_get_current_pml4 k = cr3 k AND PTE_FRAME_MASK"

text \<open>An element of a table: \<open>table[index]\<close> read and assigned.\<close>

definition tbl_get :: "kmem \<Rightarrow> u64 \<Rightarrow> u64 \<Rightarrow> u64" where
  "tbl_get k table index = rd64 (ram k) (table + 8 * index)"

definition tbl_set :: "u64 \<Rightarrow> u64 \<Rightarrow> u64 \<Rightarrow> kmem \<Rightarrow> kmem" where
  "tbl_set table index v k = k\<lparr>ram := wr64 (ram k) (table + 8 * index) v\<rparr>"

definition zero_table :: "u64 \<Rightarrow> nat list \<Rightarrow> kmem \<Rightarrow> kmem" where
  "zero_table table is k = fold (\<lambda>i. tbl_set table (of_nat i) 0) is k"

definition get_next_level :: "u64 \<Rightarrow> u64 \<Rightarrow> bool \<Rightarrow> u64 \<Rightarrow> kmem \<Rightarrow> u64 \<times> kmem" where
  "get_next_level current_table index allocate pte_flags k =
     (let entry = tbl_get k current_table index in
      if entry AND PTE_PRESENT \<noteq> 0 then
        if entry AND PDE_PS \<noteq> 0 then (0, k)
        else
          let k1 = (if pte_flags AND PTE_WRITABLE \<noteq> 0 \<and> entry AND PTE_WRITABLE = 0
                    then tbl_set current_table index (tbl_get k current_table index OR PTE_WRITABLE) k
                    else k);
              k2 = (if pte_flags AND PTE_USER \<noteq> 0 \<and> entry AND PTE_USER = 0
                    then tbl_set current_table index (tbl_get k1 current_table index OR PTE_USER) k1
                    else k1)
          in (phys_to_virt (entry AND PTE_FRAME_MASK), k2)
      else if \<not> allocate then (0, k)
      else
        let (next_table_phys, p') = pmm_alloc_page (frames k); k1 = k\<lparr>frames := p'\<rparr> in
        if next_table_phys = 0 then (0, k1)
        else
          let next_table_virt = phys_to_virt next_table_phys;
              k2 = zero_table next_table_virt [0..<512] k1;
              f0 = PTE_PRESENT;
              f1 = (if pte_flags AND PTE_WRITABLE \<noteq> 0 then f0 OR PTE_WRITABLE else f0);
              f2 = (if pte_flags AND PTE_USER \<noteq> 0 then f1 OR PTE_USER else f1)
          in (next_table_virt, tbl_set current_table index (next_table_phys OR f2) k2))"

definition vmm_map_page :: "u64 \<Rightarrow> u64 \<Rightarrow> u64 \<Rightarrow> u32 \<Rightarrow> kmem \<Rightarrow> bool \<times> kmem" where
  "vmm_map_page pml4_phys virt_addr phys_addr flags k =
     (let root = phys_to_virt pml4_phys in
      if \<not> is_canonical virt_addr then (False, k)
      else if virt_addr mod PMM_PAGE_SIZE \<noteq> 0 \<or> phys_addr mod PMM_PAGE_SIZE \<noteq> 0 then (False, k)
      else
        let arch_flags = flags_to_pte flags;
            (pdpt, k1) = get_next_level root (pml4_index virt_addr) True arch_flags k in
        if pdpt = 0 then (False, k1)
        else let (pd, k2) = get_next_level pdpt (pdpt_index virt_addr) True arch_flags k1 in
        if pd = 0 then (False, k2)
        else let (pt, k3) = get_next_level pd (pd_index virt_addr) True arch_flags k2 in
        if pt = 0 then (False, k3)
        else
          let pt_idx = pt_index virt_addr in
          if tbl_get k3 pt pt_idx AND PTE_PRESENT \<noteq> 0 then (False, k3)
          else (True, tbl_set pt pt_idx (phys_addr OR arch_flags OR PTE_PRESENT) k3))"

definition vmm_unmap_page :: "u64 \<Rightarrow> u64 \<Rightarrow> kmem \<Rightarrow> bool \<times> kmem" where
  "vmm_unmap_page pml4_phys virt_addr k =
     (let root = phys_to_virt pml4_phys in
      if \<not> is_canonical virt_addr then (False, k)
      else if virt_addr mod PMM_PAGE_SIZE \<noteq> 0 then (False, k)
      else
        let (pdpt, k1) = get_next_level root (pml4_index virt_addr) False 0 k in
        if pdpt = 0 then (False, k1)
        else let (pd, k2) = get_next_level pdpt (pdpt_index virt_addr) False 0 k1 in
        if pd = 0 then (False, k2)
        else let (pt, k3) = get_next_level pd (pd_index virt_addr) False 0 k2 in
        if pt = 0 then (False, k3)
        else
          let pt_idx = pt_index virt_addr in
          if tbl_get k3 pt pt_idx AND PTE_PRESENT = 0 then (False, k3)
          else (True, tbl_set pt pt_idx 0 k3))"

text \<open>\<open>vmm_get_phys\<close> returns \<open>None\<close> for false and \<open>Some\<close> of \<open>*out_phys\<close> for true.\<close>

definition vmm_get_phys :: "u64 \<Rightarrow> u64 \<Rightarrow> kmem \<Rightarrow> u64 option" where
  "vmm_get_phys pml4_phys virt_addr k =
     (if \<not> is_canonical virt_addr then None
      else let pml4e = tbl_get k (phys_to_virt pml4_phys) (pml4_index virt_addr) in
      if pml4e AND PTE_PRESENT = 0 then None
      else let pdpte = tbl_get k (phys_to_virt (pml4e AND PTE_FRAME_MASK)) (pdpt_index virt_addr) in
      if pdpte AND PTE_PRESENT = 0 then None
      else if pdpte AND PDE_PS \<noteq> 0 then None
      else let pde = tbl_get k (phys_to_virt (pdpte AND PTE_FRAME_MASK)) (pd_index virt_addr) in
      if pde AND PTE_PRESENT = 0 then None
      else if pde AND PDE_PS \<noteq> 0
      then Some ((pde AND PTE_FRAME_MASK) + (virt_addr AND 0x1FFFFF))
      else let pte = tbl_get k (phys_to_virt (pde AND PTE_FRAME_MASK)) (pt_index virt_addr) in
      if pte AND PTE_PRESENT = 0 then None
      else Some ((pte AND PTE_FRAME_MASK) + (virt_addr AND 0xFFF)))"

definition copy_entries :: "u64 \<Rightarrow> u64 \<Rightarrow> nat list \<Rightarrow> kmem \<Rightarrow> kmem" where
  "copy_entries dest src is k =
     fold (\<lambda>i s. tbl_set dest (of_nat i) (tbl_get s src (of_nat i)) s) is k"

definition vmm_create_address_space :: "kmem \<Rightarrow> u64 option \<times> kmem" where
  "vmm_create_address_space k =
     (let (pml4_phys, p') = pmm_alloc_page (frames k); k1 = k\<lparr>frames := p'\<rparr> in
      if pml4_phys = 0 then (None, k1)
      else
        let new_pml4 = phys_to_virt pml4_phys;
            kernel_pml4 = phys_to_virt (vmm_get_current_pml4 k1);
            k2 = zero_table new_pml4 [0..<256] k1;
            k3 = copy_entries new_pml4 kernel_pml4 [256..<512] k2
        in (Some pml4_phys, k3))"

text \<open>
  \<open>free_page_table\<close> recurses on the level, and \<open>free_entries\<close> is its loop over the
  entries of a table. The code only stops at level 1 and is called at level 3; below 1
  it would recurse for ever.
\<close>

fun free_entries :: "(u64 \<Rightarrow> kmem \<Rightarrow> kmem outcome) \<Rightarrow> u64 \<Rightarrow> nat list \<Rightarrow> kmem \<Rightarrow> kmem outcome" where
  "free_entries free_next table [] k = Inr k"
| "free_entries free_next table (i # is) k =
     (if tbl_get k table (of_nat i) AND PTE_PRESENT \<noteq> 0 \<and> tbl_get k table (of_nat i) AND PDE_PS = 0
      then bindF (free_next (tbl_get k table (of_nat i) AND PTE_FRAME_MASK) k)
             (free_entries free_next table is)
      else free_entries free_next table is k)"

definition free_frame :: "u64 \<Rightarrow> kmem \<Rightarrow> kmem outcome" where
  "free_frame pa k = bindF (pmm_free_page pa (frames k)) (\<lambda>p. Inr (k\<lparr>frames := p\<rparr>))"

fun free_page_table :: "nat \<Rightarrow> u64 \<Rightarrow> kmem \<Rightarrow> kmem outcome" where
  "free_page_table 0 table_phys k = Inl Diverges"
| "free_page_table (Suc 0) table_phys k = free_frame table_phys k"
| "free_page_table (Suc (Suc level)) table_phys k =
     bindF (free_entries (free_page_table (Suc level)) (phys_to_virt table_phys) [0..<512] k)
       (free_frame table_phys)"

fun free_user_half :: "u64 \<Rightarrow> nat list \<Rightarrow> kmem \<Rightarrow> kmem outcome" where
  "free_user_half pml4 [] k = Inr k"
| "free_user_half pml4 (i # is) k =
     (if tbl_get k pml4 (of_nat i) AND PTE_PRESENT \<noteq> 0
      then bindF (free_page_table 3 (tbl_get k pml4 (of_nat i) AND PTE_FRAME_MASK) k)
             (free_user_half pml4 is)
      else free_user_half pml4 is k)"

text \<open>The result is \<open>as->pml4_phys\<close> afterwards and the state.\<close>

definition vmm_destroy_address_space :: "u64 \<Rightarrow> kmem \<Rightarrow> (u64 \<times> kmem) outcome" where
  "vmm_destroy_address_space pml4_phys k =
     (if pml4_phys = 0 then Inr (pml4_phys, k)
      else bindF (free_user_half (phys_to_virt pml4_phys) [0..<256] k) (\<lambda>k1.
           bindF (free_frame pml4_phys k1) (\<lambda>k2. Inr (0, k2))))"

definition vmm_is_user_readable :: "u64 \<Rightarrow> u64 \<Rightarrow> kmem \<Rightarrow> bool" where
  "vmm_is_user_readable pml4_phys va k =
     (if \<not> is_canonical va then False
      else let pml4e = tbl_get k (phys_to_virt pml4_phys) (pml4_index va) in
      if pml4e AND PTE_PRESENT = 0 \<or> pml4e AND PTE_USER = 0 then False
      else let pdpte = tbl_get k (phys_to_virt (pml4e AND PTE_FRAME_MASK)) (pdpt_index va) in
      if pdpte AND PTE_PRESENT = 0 \<or> pdpte AND PTE_USER = 0 then False
      else if pdpte AND PDE_PS \<noteq> 0 then True
      else let pde = tbl_get k (phys_to_virt (pdpte AND PTE_FRAME_MASK)) (pd_index va) in
      if pde AND PTE_PRESENT = 0 \<or> pde AND PTE_USER = 0 then False
      else if pde AND PDE_PS \<noteq> 0 then True
      else let pte = tbl_get k (phys_to_virt (pde AND PTE_FRAME_MASK)) (pt_index va) in
      if pte AND PTE_PRESENT = 0 \<or> pte AND PTE_USER = 0 then False
      else True)"

text \<open>
  The addresses the loops of \<open>user_range_readable\<close> and \<open>user_range_writable\<close> visit: from
  the first page on, in steps of a page, while below \<open>end_addr\<close>, which is at most \<open>2 ^ 47\<close>
  there.
\<close>

definition page_addrs :: "u64 \<Rightarrow> u64 \<Rightarrow> u64 list" where
  "page_addrs page_start end_addr =
     map (\<lambda>j. page_start + of_nat j * PMM_PAGE_SIZE)
       [0..<(unat end_addr - unat page_start + 4095) div 4096]"

definition user_range_readable :: "u64 \<Rightarrow> u64 \<Rightarrow> u64 \<Rightarrow> kmem \<Rightarrow> bool" where
  "user_range_readable pml4_phys addr len k =
     (if len = 0 then True
      else let start = addr; end_addr = start + len in
      if end_addr < start then False
      else if 0x0000800000000000 < end_addr then False
      else let page_start = start AND NOT 0xFFF in
        list_all (\<lambda>va. vmm_is_user_readable pml4_phys va k) (page_addrs page_start end_addr))"

definition vmm_is_user_writable :: "u64 \<Rightarrow> u64 \<Rightarrow> kmem \<Rightarrow> bool" where
  "vmm_is_user_writable pml4_phys va k =
     (if \<not> is_canonical va then False
      else let pml4e = tbl_get k (phys_to_virt pml4_phys) (pml4_index va) in
      if pml4e AND PTE_PRESENT = 0 \<or> pml4e AND PTE_USER = 0 \<or> pml4e AND PTE_WRITABLE = 0 then False
      else let pdpte = tbl_get k (phys_to_virt (pml4e AND PTE_FRAME_MASK)) (pdpt_index va) in
      if pdpte AND PTE_PRESENT = 0 \<or> pdpte AND PTE_USER = 0 \<or> pdpte AND PTE_WRITABLE = 0 then False
      else if pdpte AND PDE_PS \<noteq> 0 then True
      else let pde = tbl_get k (phys_to_virt (pdpte AND PTE_FRAME_MASK)) (pd_index va) in
      if pde AND PTE_PRESENT = 0 \<or> pde AND PTE_USER = 0 \<or> pde AND PTE_WRITABLE = 0 then False
      else if pde AND PDE_PS \<noteq> 0 then True
      else let pte = tbl_get k (phys_to_virt (pde AND PTE_FRAME_MASK)) (pt_index va) in
      if pte AND PTE_PRESENT = 0 \<or> pte AND PTE_USER = 0 \<or> pte AND PTE_WRITABLE = 0 then False
      else True)"

definition user_range_writable :: "u64 \<Rightarrow> u64 \<Rightarrow> u64 \<Rightarrow> kmem \<Rightarrow> bool" where
  "user_range_writable pml4_phys addr len k =
     (if len = 0 then True
      else let start = addr; end_addr = start + len in
      if end_addr < start then False
      else if 0x0000800000000000 < end_addr then False
      else let page_start = start AND NOT 0xFFF in
        list_all (\<lambda>va. vmm_is_user_writable pml4_phys va k) (page_addrs page_start end_addr))"

end
