(* ===== verification/Page_Tree.thy ===== *)
theory Page_Tree
  imports VMM
begin

text \<open>
  Page tables as a tree: what the bits and frames of an entry are, how a write to one entry
  changes the others (not at all), and how the tree and the translation it gives change when an
  entry gets new permissions, a new empty table or a new leaf.
\<close>

section \<open>Bits and frames of an entry\<close>

lemma pte_bits:
  fixes e :: u64
  shows "e AND 1 = 0 \<longleftrightarrow> \<not> bit e 0" "e AND 2 = 0 \<longleftrightarrow> \<not> bit e 1"
    "e AND 4 = 0 \<longleftrightarrow> \<not> bit e 2" "e AND 0x80 = 0 \<longleftrightarrow> \<not> bit e 7"
  using and_bit_eq_0_iff [of e 0] and_bit_eq_0_iff [of e 1] and_bit_eq_0_iff [of e 2] and_bit_eq_0_iff [of e 7]
  by (simp_all add: push_bit_eq_mult)

definition pte_frame :: "u64 \<Rightarrow> u64" where
  "pte_frame e = e AND PTE_FRAME_MASK"

definition frame_ok :: "u64 \<Rightarrow> bool" where
  "frame_ok f \<longleftrightarrow> pte_frame f = f"

lemma bit_frame_mask: "bit PTE_FRAME_MASK n \<longleftrightarrow> 12 \<le> n \<and> n < 52"
proof -
  have "PTE_FRAME_MASK = push_bit 12 (mask 40)" by (simp add: mask_eq_exp_minus_1 push_bit_eq_mult)
  then show ?thesis by (simp only: bit_push_bit_iff bit_mask_iff) auto
qed

lemma bit_pte_frame [simp]: "bit (pte_frame e) n \<longleftrightarrow> bit e n \<and> 12 \<le> n \<and> n < 52"
  by (simp only: pte_frame_def bit_and_iff bit_frame_mask)

lemma frame_ok_pte_frame [simp]: "frame_ok (pte_frame e)"
  by (auto simp: frame_ok_def intro: bit_eqI)

lemma frame_ok_bits: "frame_ok f \<Longrightarrow> n < 12 \<Longrightarrow> \<not> bit f n"
  unfolding frame_ok_def by (metis bit_pte_frame not_le)

lemma frame_ok_unat: "frame_ok f \<Longrightarrow> unat f mod 4096 = 0"
proof -
  assume "frame_ok f"
  then have "take_bit 12 f = 0" by (intro bit_eqI) (simp add: bit_take_bit_iff frame_ok_bits)
  then have "unat (take_bit 12 f) = 0" by simp
  then show ?thesis by (simp only: unsigned_take_bit_eq) (simp add: take_bit_eq_mod)
qed

lemma frame_okI: "unat f mod 4096 = 0 \<Longrightarrow> unat f < 2 ^ 52 \<Longrightarrow> frame_ok f"
proof -
  assume 1: "unat f mod 4096 = 0" and 2: "unat f < 2 ^ 52"
  have z: "take_bit 12 (unat f) = 0" using 1 by (simp add: take_bit_eq_mod)
  have a: "\<not> bit f n" if "n < 12" for n
    using that arg_cong [OF z, of "\<lambda>x. bit x n"]
    by (simp only: bit_take_bit_iff bit_unsigned_iff) auto
  have "take_bit 52 (unat f) = unat f" using 2 by (simp add: take_bit_eq_mod)
  have b: "\<not> bit f n" if "52 \<le> n" for n
    using that arg_cong [OF \<open>take_bit 52 (unat f) = unat f\<close>, of "\<lambda>x. bit x n"]
    by (simp add: bit_take_bit_iff bit_unsigned_iff bit_imp_le_length)
  show ?thesis unfolding frame_ok_def
    by (rule bit_eqI) (metis a b bit_pte_frame not_le)
qed

lemma pte_frame_or:
  assumes "frame_ok f" and "pte_frame fl = 0"
  shows "pte_frame (f OR fl) = f"
proof (rule bit_eqI)
  fix n
  have "\<not> (bit fl n \<and> 12 \<le> n \<and> n < 52)" using arg_cong [OF assms(2), of "\<lambda>x. bit x n"] by simp
  moreover have "bit f n \<Longrightarrow> 12 \<le> n \<and> n < 52" using assms(1) unfolding frame_ok_def by (metis bit_pte_frame)
  ultimately show "bit (pte_frame (f OR fl)) n = bit f n" by (auto simp: bit_or_iff)
qed

section \<open>Entries of tables\<close>

definition ent :: "kmem \<Rightarrow> u64 \<Rightarrow> u64 \<Rightarrow> u64" where
  "ent k T i = tbl_get k (phys_to_virt T) i"

lemma unat_slot:
  assumes "frame_ok T" "i < 512"
  shows "unat (T + 8 * i) = unat T + 8 * unat i"
proof -
  have "unat i < 512" using assms(2) by (simp add: word_less_nat_alt)
  moreover obtain q where "unat T = 4096 * q" using frame_ok_unat [OF assms(1)] by (auto simp: mod_eq_0_iff_dvd)
  moreover have "q < 2 ^ 52" using u64_bound [of T] calculation by simp
  ultimately have "unat T + 8 * unat i < 2 ^ 64" by simp
  then show ?thesis using \<open>unat i < 512\<close> by (simp add: unat_word_ariths)
qed

lemma slot_eq:
  assumes "frame_ok T" "frame_ok U" "i < 512" "j < 512"
  shows "phys_to_virt T + 8 * i = phys_to_virt U + 8 * j \<longleftrightarrow> T = U \<and> i = j"
proof
  assume "phys_to_virt T + 8 * i = phys_to_virt U + 8 * j"
  then have "T + 8 * i = U + 8 * j" by (simp add: phys_to_virt_def algebra_simps)
  then have "unat T + 8 * unat i = unat U + 8 * unat j"
    using unat_slot [OF assms(1,3)] unat_slot [OF assms(2,4)] by simp
  moreover have "unat i < 512" "unat j < 512" using assms by (simp_all add: word_less_nat_alt)
  moreover obtain q where "unat T = 4096 * q" using frame_ok_unat [OF assms(1)] by (auto simp: mod_eq_0_iff_dvd)
  moreover obtain q' where "unat U = 4096 * q'" using frame_ok_unat [OF assms(2)] by (auto simp: mod_eq_0_iff_dvd)
  moreover from calculation have "q = q'" by (cases rule: linorder_cases [of q q']) linarith+
  ultimately have "unat T = unat U" "unat i = unat j" by linarith+
  then show "T = U \<and> i = j" by (simp add: word_unat_eq_iff)
qed simp

lemma slot_aligned:
  assumes "frame_ok T" "i < 512"
  shows "unat (phys_to_virt T + 8 * i) mod 8 = 0"
proof -
  have eq: "phys_to_virt T + 8 * i = (T + 8 * i) + of_nat 0xFFFFFFFF80000000" by (simp add: phys_to_virt_def)
  have "unat (T + 8 * i) mod 8 = 0"
    using unat_slot [OF assms] frame_ok_unat [OF assms(1)] by (auto simp: mod_eq_0_iff_dvd)
  then have "(unat (T + 8 * i) + 0xFFFFFFFF80000000) mod 8 = 0" by (auto simp: mod_eq_0_iff_dvd intro: dvd_add)
  then show ?thesis by (simp only: eq unat_plus_mod8)
qed

lemma ent_tbl_set:
  assumes "frame_ok T" "i < 512" "frame_ok U" "j < 512"
  shows "ent (tbl_set (phys_to_virt T) i v k) U j = (if U = T \<and> j = i then v else ent k U j)"
proof (cases "U = T \<and> j = i")
  case True
  then show ?thesis by (simp add: ent_def tbl_get_def tbl_set_def rd64_wr64_same)
next
  case False
  then have "phys_to_virt T + 8 * i \<noteq> phys_to_virt U + 8 * j" using slot_eq assms by blast
  then show ?thesis
    using False by (auto simp: ent_def tbl_get_def tbl_set_def rd64_wr64_other slot_aligned assms)
qed

lemma frames_tbl_set [simp]: "frames (tbl_set t i v k) = frames k" "cr3 (tbl_set t i v k) = cr3 k"
  by (simp_all add: tbl_set_def)

lemma ent_frames [simp]: "ent (k\<lparr>frames := p\<rparr>) = ent k"
  by (intro ext) (simp add: ent_def tbl_get_def)

lemma zero_table_fields [simp]: "frames (zero_table t is k) = frames k" "cr3 (zero_table t is k) = cr3 k"
  unfolding zero_table_def by (induction "is" arbitrary: k) simp_all

lemma of_nat_less_512: "n < 512 \<Longrightarrow> (of_nat n :: u64) < 512"
  by (simp add: word_less_nat_alt unat_of_nat)

lemma ent_zero_table:
  assumes "frame_ok T" "frame_ok U" "j < 512" "\<forall>n\<in>set is. n < 512"
  shows "ent (zero_table (phys_to_virt T) is k) U j = (if U = T \<and> unat j \<in> set is then 0 else ent k U j)"
  using assms(4)
proof (induction "is" arbitrary: k)
  case (Cons n ns)
  then have "zero_table (phys_to_virt T) (n # ns) k
      = zero_table (phys_to_virt T) ns (tbl_set (phys_to_virt T) (of_nat n) 0 k)"
    by (simp add: zero_table_def)
  moreover have "j = of_nat n \<longleftrightarrow> unat j = n"
    using Cons.prems by (auto simp: word_unat_eq_iff unat_of_nat)
  ultimately show ?case
    using Cons assms by (auto simp: ent_tbl_set of_nat_less_512)
qed (simp add: zero_table_def)

section \<open>The tree of tables\<close>

text \<open>
  The tables of an address space form a tree: \<open>tab E r p\<close> is the frame of the table that
  the path of indices \<open>p\<close> leads to from the root \<open>r\<close>, \<open>E\<close> giving the entries. A path of
  length 1 names a PDPT, of length 2 a page directory, of length 3 a page table.
\<close>

definition nxt :: "u64 \<Rightarrow> u64 option" where
  "nxt e = (if bit e 0 \<and> \<not> bit e 7 then Some (pte_frame e) else None)"

fun tab :: "(u64 \<Rightarrow> u64 \<Rightarrow> u64) \<Rightarrow> u64 \<Rightarrow> u64 list \<Rightarrow> u64 option" where
  "tab E r [] = Some r"
| "tab E r (i # is) = (case nxt (E r i) of None \<Rightarrow> None | Some T \<Rightarrow> tab E T is)"

definition valid_path :: "u64 list \<Rightarrow> bool" where
  "valid_path p \<longleftrightarrow> length p \<le> 3 \<and> (\<forall>i \<in> set p. i < 512)"

text \<open>
  Well-formed: every table is a frame in use, no entry of the two upper levels is a huge page,
  and a table is reached by one path only. The boot tables make one exception: their page directory of
  huge pages is reached from the identity map and from the higher half; such a directory
  has only huge pages.
\<close>

definition as_wf :: "(u64 \<Rightarrow> u64 \<Rightarrow> u64) \<Rightarrow> u64 \<Rightarrow> u64 set \<Rightarrow> bool" where
  "as_wf E r U \<longleftrightarrow>
     (\<forall>p T. valid_path p \<longrightarrow> tab E r p = Some T \<longrightarrow> frame_ok T \<and> T \<in> U)
   \<and> (\<forall>p T i. valid_path p \<longrightarrow> length p \<le> 1 \<longrightarrow> tab E r p = Some T \<longrightarrow> i < 512 \<longrightarrow>
        bit (E T i) 0 \<longrightarrow> \<not> bit (E T i) 7)
   \<and> (\<forall>p q T. valid_path p \<longrightarrow> valid_path q \<longrightarrow> tab E r p = Some T \<longrightarrow> tab E r q = Some T \<longrightarrow> p \<noteq> q \<longrightarrow>
        length p = 2 \<and> length q = 2 \<and> (\<forall>i < 512. bit (E T i) 0 \<and> bit (E T i) 7))"

text \<open>The translation, in terms of the tree.\<close>

definition gp :: "(u64 \<Rightarrow> u64 \<Rightarrow> u64) \<Rightarrow> u64 \<Rightarrow> u64 \<Rightarrow> u64 option" where
  "gp E r va =
     (case tab E r [pml4_index va, pdpt_index va] of
        None \<Rightarrow> None
      | Some D \<Rightarrow>
          (let pde = E D (pd_index va) in
           if bit pde 0 \<and> bit pde 7 then Some (pte_frame pde + (va AND 0x1FFFFF))
           else (case tab E r [pml4_index va, pdpt_index va, pd_index va] of
                   None \<Rightarrow> None
                 | Some P \<Rightarrow>
                     (let pte = E P (pt_index va) in
                      if bit pte 0 then Some (pte_frame pte + (va AND 0xFFF)) else None))))"

lemma index_less: "pml4_index va < 512" "pdpt_index va < 512" "pd_index va < 512" "pt_index va < 512"
proof -
  have "x AND 0x1FF < (512 :: u64)" for x
    using word_and_le1 [of x "0x1FF"] by (simp add: le_less_trans)
  then show "pml4_index va < 512" "pdpt_index va < 512" "pd_index va < 512" "pt_index va < 512"
    by (simp_all add: pml4_index_def pdpt_index_def pd_index_def pt_index_def)
qed

lemma vmm_get_phys_gp:
  assumes "\<forall>i < 512. bit (ent k r i) 0 \<longrightarrow> \<not> bit (ent k r i) 7"
  shows "vmm_get_phys r va k = (if is_canonical va then gp (ent k) r va else None)"
  using assms index_less [of va]
  by (simp add: vmm_get_phys_def gp_def nxt_def Let_def pte_bits ent_def [symmetric] pte_frame_def [symmetric])

lemma tab_snoc: "tab E r (p @ [i]) = Option.bind (tab E r p) (\<lambda>T. nxt (E T i))"
  by (induction p arbitrary: r) (simp_all split: option.splits)

declare tab.simps(2) [simp del]

lemma nxt_frame_ok: "nxt e = Some T \<Longrightarrow> frame_ok T"
  by (auto simp: nxt_def split: if_splits)

lemma nxt_0 [simp]: "nxt 0 = None"
  by (simp add: nxt_def)

lemma valid_path_snoc [simp]: "valid_path (p @ [i]) \<longleftrightarrow> length p \<le> 2 \<and> i < 512 \<and> valid_path p"
  by (auto simp: valid_path_def)

lemma valid_path_Nil [simp]: "valid_path []"
  by (simp add: valid_path_def)

lemma as_wfD:
  assumes "as_wf E r U" "valid_path p" "tab E r p = Some T"
  shows "frame_ok T" "T \<in> U"
  using assms unfolding as_wf_def by blast+

lemma as_wf_upper:
  assumes "as_wf E r U" "valid_path p" "length p \<le> 1" "tab E r p = Some T" "i < 512"
  shows "bit (E T i) 0 \<longrightarrow> \<not> bit (E T i) 7"
  using assms unfolding as_wf_def by blast

lemma as_wf_unique:
  assumes "as_wf E r U" "valid_path p" "valid_path q" "tab E r p = Some T" "tab E r q = Some T"
    and "length p \<noteq> 2 \<or> (\<exists>i < 512. \<not> (bit (E T i) 0 \<and> bit (E T i) 7))"
  shows "q = p"
  using assms unfolding as_wf_def by blast

subsection \<open>Entries that keep their frame\<close>

text \<open>Raising permission bits of an entry moves no table.\<close>

definition same_link :: "u64 \<Rightarrow> u64 \<Rightarrow> bool" where
  "same_link e e' \<longleftrightarrow> bit e 0 = bit e' 0 \<and> bit e 7 = bit e' 7 \<and> pte_frame e = pte_frame e'"

lemma same_link_refl [simp]: "same_link e e"
  by (simp add: same_link_def)

lemma nxt_same_link: "same_link e e' \<Longrightarrow> nxt e' = nxt e"
  by (auto simp: same_link_def nxt_def)

lemma tab_same_link:
  assumes "\<And>T i. frame_ok T \<Longrightarrow> T \<in> U \<Longrightarrow> i < 512 \<Longrightarrow> same_link (E T i) (E' T i)"
    and "\<And>p T. valid_path p \<Longrightarrow> tab E r p = Some T \<Longrightarrow> frame_ok T \<and> T \<in> U" and "valid_path p"
  shows "tab E' r p = tab E r p"
  using assms(3)
proof (induction p rule: rev_induct)
  case (snoc i p)
  then have IH: "tab E' r p = tab E r p" by simp
  show ?case
  proof (cases "tab E r p")
    case (Some T)
    then have "nxt (E' T i) = nxt (E T i)" using assms(1,2) snoc.prems by (intro nxt_same_link) auto
    then show ?thesis using IH Some by (simp add: tab_snoc)
  qed (simp add: tab_snoc IH)
qed simp

lemma valid_indices [simp]:
  "valid_path [pml4_index va, pdpt_index va]"
  "valid_path [pml4_index va, pdpt_index va, pd_index va]"
  by (simp_all add: valid_path_def index_less)

lemma gp_same_link:
  assumes "\<And>T i. frame_ok T \<Longrightarrow> T \<in> U \<Longrightarrow> i < 512 \<Longrightarrow> same_link (E T i) (E' T i)"
    and "\<And>p T. valid_path p \<Longrightarrow> tab E r p = Some T \<Longrightarrow> frame_ok T \<and> T \<in> U"
  shows "gp E' r va = gp E r va"
proof -
  have tabs: "tab E' r p = tab E r p" if "valid_path p" for p
    using tab_same_link [of U E E' r p] assms that by blast
  have *: "same_link (E T i) (E' T i)" if "valid_path p" "tab E r p = Some T" "i < 512" for p T i
    using assms that by blast
  show ?thesis
    using * [OF valid_indices(1) _ index_less(3) [of va]] * [OF valid_indices(2) _ index_less(4) [of va]]
      tabs [OF valid_indices(1)] tabs [OF valid_indices(2)]
    by (fastforce simp: gp_def same_link_def Let_def split: option.splits)
qed

lemma as_wf_same_link:
  assumes "\<And>T i. frame_ok T \<Longrightarrow> T \<in> U \<Longrightarrow> i < 512 \<Longrightarrow> same_link (E T i) (E' T i)" and "as_wf E r U"
  shows "as_wf E' r U"
proof -
  have *: "frame_ok T \<and> T \<in> U" if "valid_path p" "tab E r p = Some T" for p T
    using as_wfD [OF assms(2)] that by blast
  have tabs: "tab E' r p = tab E r p" if "valid_path p" for p
    using tab_same_link [of U E E' r p] assms(1) * that by blast
  have bits: "bit (E' T i) 0 = bit (E T i) 0 \<and> bit (E' T i) 7 = bit (E T i) 7"
    if "valid_path p" "tab E r p = Some T" "i < 512" for p T i
    using assms(1) * that unfolding same_link_def by blast
  have "bit (E' T i) 0 \<longrightarrow> \<not> bit (E' T i) 7"
    if "valid_path p" "length p \<le> 1" "tab E r p = Some T" "i < 512" for p T i
    using bits [OF that(1,3,4)] that assms(2) unfolding as_wf_def by blast
  moreover have "length p = 2 \<and> length q = 2 \<and> (\<forall>i < 512. bit (E' T i) 0 \<and> bit (E' T i) 7)"
    if "valid_path p" "valid_path q" "tab E r p = Some T" "tab E r q = Some T" "p \<noteq> q" for p q T
    using assms(2) that bits [of p T] unfolding as_wf_def by blast
  ultimately show ?thesis using * by (simp add: as_wf_def tabs)
qed


subsection \<open>A new, empty table\<close>

definition one_write :: "(u64 \<Rightarrow> u64 \<Rightarrow> u64) \<Rightarrow> (u64 \<Rightarrow> u64 \<Rightarrow> u64) \<Rightarrow> u64 set \<Rightarrow> u64 \<Rightarrow> u64 \<Rightarrow> u64 \<Rightarrow> bool" where
  "one_write E E' U T i e \<longleftrightarrow>
     (\<forall>V j. frame_ok V \<longrightarrow> V \<in> U \<longrightarrow> j < 512 \<longrightarrow> E' V j = (if V = T \<and> j = i then e else E V j))"

definition empty_table :: "(u64 \<Rightarrow> u64 \<Rightarrow> u64) \<Rightarrow> u64 \<Rightarrow> bool" where
  "empty_table E F \<longleftrightarrow> (\<forall>j < 512. E F j = 0)"

lemma one_writeD:
  "one_write E E' U T i e \<Longrightarrow> frame_ok V \<Longrightarrow> V \<in> U \<Longrightarrow> j < 512 \<Longrightarrow>
    E' V j = (if V = T \<and> j = i then e else E V j)"
  by (simp add: one_write_def)

lemma empty_tableD: "empty_table E F \<Longrightarrow> j < 512 \<Longrightarrow> E F j = 0"
  by (simp add: empty_table_def)

lemma tab_new_table:
  assumes wf: "as_wf E r U" and p: "valid_path (p @ [i])" "tab E r p = Some T"
    and old: "\<not> bit (E T i) 0" and new: "nxt e = Some F" "F \<notin> U"
    and upd: "one_write E E' U T i e"
    and zero: "empty_table E' F" and q: "valid_path q"
  shows "tab E' r q = (if q = p @ [i] then Some F else tab E r q)"
  using q
proof (induction q rule: rev_induct)
  case (snoc j q)
  note E' = one_writeD [OF upd] and F = empty_tableD [OF zero]
  from snoc have IH: "tab E' r q = (if q = p @ [i] then Some F else tab E r q)" and j: "j < 512" "valid_path q"
    by simp_all
  have T: "tab E r (p @ [i]) = None" using p(2) old by (simp add: tab_snoc nxt_def)
  show ?case
  proof (cases "tab E r q")
    case None
    then have "q \<noteq> p" using p(2) by auto
    then show ?thesis using IH None F [OF j(1)] by (simp add: tab_snoc)
  next
    case (Some V)
    then have "q \<noteq> p @ [i]" using T by auto
    moreover have "frame_ok V" "V \<in> U" using as_wfD [OF wf j(2) Some] .
    moreover have "V = T \<longleftrightarrow> q = p" if "j = i"
      using as_wf_unique [OF wf _ j(2) p(2)] p Some old that by (auto simp: valid_path_snoc)
    ultimately show ?thesis using IH Some E' [of V j] j new by (auto simp: tab_snoc)
  qed
qed simp

lemma gp_new_table:
  assumes wf: "as_wf E r U" and p: "valid_path (p @ [i])" "tab E r p = Some T"
    and old: "\<not> bit (E T i) 0" and new: "nxt e = Some F" "F \<notin> U"
    and upd: "one_write E E' U T i e"
    and zero: "empty_table E' F"
  shows "gp E' r va = gp E r va"
proof -
  note E' = one_writeD [OF upd] and F = empty_tableD [OF zero]
  let ?a = "pml4_index va" and ?b = "pdpt_index va" and ?c = "pd_index va" and ?d = "pt_index va"
  note tabs = tab_new_table [OF assms]
  note t2 = tabs [OF valid_indices(1) [of va]] and t3 = tabs [OF valid_indices(2) [of va]]
  have None: "tab E r (p @ [i]) = None" using p(2) old by (simp add: tab_snoc nxt_def)
  have vp: "valid_path p" "i < 512" "length p \<le> 2" using p(1) by simp_all
  have *: "E' V j = E V j" if "valid_path q" "tab E r q = Some V" "j < 512" "q @ [j] \<noteq> p @ [i]" for q V j
  proof -
    have "q = p" if "V = T"
      by (rule as_wf_unique [OF wf vp(1) \<open>valid_path q\<close> p(2)])
        (use that \<open>tab E r q = Some V\<close> old vp(2) in auto)
    then have "\<not> (V = T \<and> j = i)" using that(4) by auto
    then show ?thesis using E' [of V j] as_wfD [OF wf that(1,2)] that(3) by auto
  qed
  have c3: "tab E r [?a, ?b, ?c] = Option.bind (tab E r [?a, ?b]) (\<lambda>D. nxt (E D ?c))"
    using tab_snoc [of E r "[?a, ?b]" ?c] by simp
  consider "p = [?a]" "i = ?b" | "p = [?a, ?b]" "i = ?c" | "[?a, ?b] \<noteq> p @ [i]" "[?a, ?b, ?c] \<noteq> p @ [i]"
    by (metis append.simps(1,2) append1_eq_conv)
  then show ?thesis
  proof cases
    case 1
    then have "gp E' r va = None" using t2 t3 None c3 F [OF index_less(3) [of va]] by (simp add: gp_def)
    moreover have "gp E r va = None" using 1 None by (simp add: gp_def)
    ultimately show ?thesis by simp
  next
    case 2
    have "E' T ?c = e" using E' [of T ?c] as_wfD [OF wf vp(1) p(2)] vp(2) 2(2) by simp
    moreover have "\<not> bit e 7" using new(1) by (simp add: nxt_def split: if_splits)
    ultimately have "gp E' r va = None"
      using 2 t2 t3 p(2) F [OF index_less(4) [of va]] by (simp add: gp_def)
    moreover have "gp E r va = None" using 2 None p(2) old by (simp add: gp_def)
    ultimately show ?thesis by simp
  next
    case 3
    have "[?a, ?b, ?c] @ [?d] \<noteq> p @ [i]" using vp(3) by auto
    then have P: "E' P ?d = E P ?d" if "tab E r [?a, ?b, ?c] = Some P" for P
      using * [OF valid_indices(2) that index_less(4)] by simp
    have D: "E' D ?c = E D ?c" if "tab E r [?a, ?b] = Some D" for D
      using * [OF valid_indices(1) that index_less(3)] 3 by simp
    show ?thesis
      by (simp add: gp_def Let_def D P trans [OF t2 if_not_P [OF 3(1)]] trans [OF t3 if_not_P [OF 3(2)]] split: option.split)
  qed
qed

lemma as_wf_new_table:
  assumes wf: "as_wf E r U" and p: "valid_path (p @ [i])" "tab E r p = Some T"
    and old: "\<not> bit (E T i) 0" and new: "nxt e = Some F" "F \<notin> U"
    and upd: "one_write E E' U T i e"
    and zero: "empty_table E' F"
  shows "as_wf E' r (insert F U)"
proof -
  note E' = one_writeD [OF upd] and F = empty_tableD [OF zero]
  note tabs = tab_new_table [OF assms]
  have inU: "frame_ok V \<and> V \<in> U" if "valid_path q" "tab E r q = Some V" for q V
    using as_wfD [OF wf that] by blast
  have upper: "bit (E' V j) 0 \<longrightarrow> \<not> bit (E' V j) 7"
    if q: "valid_path q" "length q \<le> 1" "tab E' r q = Some V" "j < 512" for q V j
  proof (cases "q = p @ [i]")
    case True
    then have "V = F" using q(3) tabs [OF q(1)] by simp
    then show ?thesis using F [OF q(4)] by simp
  next
    case False
    then have V: "tab E r q = Some V" using q by (simp add: tabs)
    then have "bit (E V j) 0 \<longrightarrow> \<not> bit (E V j) 7" using wf q unfolding as_wf_def by blast
    then show ?thesis using E' [of V j] inU [OF q(1) V] q(4) new(1) by (auto simp: nxt_def split: if_splits)
  qed
  have sealed: "(\<forall>j < 512. bit (E' V j) 0 \<and> bit (E' V j) 7)"
    if "valid_path q" "tab E r q = Some V" "\<forall>j < 512. bit (E V j) 0 \<and> bit (E V j) 7" for q V
    using E' [of V] inU [OF that(1,2)] that(3) old p(1) by auto
  have uniq: "length q = 2 \<and> length q' = 2 \<and> (\<forall>j < 512. bit (E' V j) 0 \<and> bit (E' V j) 7)"
    if q: "valid_path q" "valid_path q'" "tab E' r q = Some V" "tab E' r q' = Some V" "q \<noteq> q'" for q q' V
  proof -
    have "q \<noteq> p @ [i] \<and> q' \<noteq> p @ [i]"
      using q inU new(2) by (auto simp: tabs split: if_splits)
    then have "tab E r q = Some V" "tab E r q' = Some V" using q by (simp_all add: tabs)
    then show ?thesis using wf q sealed [of q V] unfolding as_wf_def by blast
  qed
  have "frame_ok V \<and> V \<in> insert F U" if "valid_path q" "tab E' r q = Some V" for q V
    using that inU nxt_frame_ok [OF new(1)] by (auto simp: tabs split: if_splits)
  then show ?thesis unfolding as_wf_def using upper uniq by blast
qed

subsection \<open>A leaf entry\<close>

lemma tab_leaf:
  assumes wf: "as_wf E r U" and p: "valid_path p" "length p = 3" "tab E r p = Some T"
    and upd: "one_write E E' U T i e"
    and q: "valid_path q"
  shows "tab E' r q = tab E r q"
  using q
proof (induction q rule: rev_induct)
  case (snoc j q)
  note E' = one_writeD [OF upd]
  show ?case
  proof (cases "tab E r q")
    case (Some V)
    then have "V \<noteq> T" using as_wf_unique [OF wf p(1) _ p(3), of q] p(2) snoc.prems by auto
    then show ?thesis using snoc Some E' [of V j] as_wfD [OF wf _ Some] by (simp add: tab_snoc)
  qed (use snoc in \<open>simp add: tab_snoc\<close>)
qed simp

lemma gp_leaf:
  assumes wf: "as_wf E r U" and p: "valid_path p" "length p = 3" "tab E r p = Some T" and i: "i < 512"
    and upd: "one_write E E' U T i e"
  shows "gp E' r va = (if [pml4_index va, pdpt_index va, pd_index va, pt_index va] = p @ [i]
           then if bit e 0 then Some (pte_frame e + (va AND 0xFFF)) else None
           else gp E r va)"
proof -
  note E' = one_writeD [OF upd]
  let ?a = "pml4_index va" and ?b = "pdpt_index va" and ?c = "pd_index va" and ?d = "pt_index va"
  note tabs = tab_leaf [OF wf p upd]
  have c3: "tab E r [?a, ?b, ?c] = Option.bind (tab E r [?a, ?b]) (\<lambda>D. nxt (E D ?c))"
    using tab_snoc [of E r "[?a, ?b]" ?c] by simp
  have D: "E' D ?c = E D ?c" if "tab E r [?a, ?b] = Some D" for D
  proof -
    have "D \<noteq> T" using as_wf_unique [OF wf p(1) valid_indices(1) p(3), of va] p(2) that by auto
    then show ?thesis using E' [of D ?c] as_wfD [OF wf valid_indices(1) that] index_less by simp
  qed
  have P: "P = T \<longleftrightarrow> p = [?a, ?b, ?c]" if "tab E r [?a, ?b, ?c] = Some P" for P
    using as_wf_unique [OF wf p(1) valid_indices(2) p(3), of va] p(2,3) that by auto
  have P': "E' P ?d = (if P = T \<and> ?d = i then e else E P ?d)" if "tab E r [?a, ?b, ?c] = Some P" for P
    using E' [of P ?d] as_wfD [OF wf valid_indices(2) that] index_less by simp
  show ?thesis
    using tabs [OF valid_indices(1) [of va]] tabs [OF valid_indices(2) [of va]] D P P' c3 p(3)
    by (auto simp: gp_def Let_def nxt_def split: option.splits if_splits)
qed

lemma as_wf_leaf:
  assumes wf: "as_wf E r U" and p: "valid_path p" "length p = 3" "tab E r p = Some T"
    and upd: "one_write E E' U T i e"
  shows "as_wf E' r U"
proof -
  note E' = one_writeD [OF upd]
  note tabs = tab_leaf [OF wf p upd]
  have *: "E' V j = E V j" if "valid_path q" "tab E r q = Some V" "length q \<noteq> 3" "j < 512" for q V j
  proof -
    have "V \<noteq> T" using as_wf_unique [OF wf p(1) that(1) p(3)] p(2) that by auto
    then show ?thesis using E' as_wfD [OF wf that(1,2)] that(4) by simp
  qed
  have "length q = 2 \<and> length q' = 2 \<and> (\<forall>j < 512. bit (E' V j) 0 \<and> bit (E' V j) 7)"
    if q: "valid_path q" "valid_path q'" "tab E r q = Some V" "tab E r q' = Some V" "q \<noteq> q'" for q q' V
  proof -
    have "length q = 2 \<and> length q' = 2 \<and> (\<forall>j < 512. bit (E V j) 0 \<and> bit (E V j) 7)"
      using wf q unfolding as_wf_def by blast
    then show ?thesis using * [OF q(1,3)] by simp
  qed
  moreover have "bit (E' V j) 0 \<longrightarrow> \<not> bit (E' V j) 7"
    if "valid_path q" "length q \<le> 1" "tab E r q = Some V" "j < 512" for q V j
    using * [OF that(1,3) _ that(4)] that(2) as_wf_upper [OF wf that] by simp
  ultimately show ?thesis using wf by (auto simp: as_wf_def tabs)
qed

end
