(* ===== verification/VMM_Correct.thy ===== *)
theory VMM_Correct
  imports Page_Tree
begin

text \<open>
  Correctness of the virtual memory manager: the invariant of its states, what one level of a
  walk does, and the properties of mapping, unmapping, isolation, creation of address spaces
  and the checks of user ranges.
\<close>

section \<open>The state\<close>

text \<open>
  The states the manager works in: the physical memory manager is ready and covers at most
  the 1 GiB that the boot tables map (the loader caps it so), and the address space is a tree.
\<close>

definition vmm_wf :: "kmem \<Rightarrow> u64 \<Rightarrow> bool" where
  "vmm_wf k r \<longleftrightarrow> pmm_ready (frames k) \<and> max_physical_address (frames k) \<le> 0x40000000
     \<and> as_wf (ent k) r (pmm_used (frames k))"

lemma pmm_used_bounds:
  assumes "pmm_ready p" "max_physical_address p \<le> 0x40000000" "f \<in> pmm_used p"
  shows "unat f < 0x40000000" "frame_ok f"
proof -
  have inv: "pmm_inv p" using assms(1) by (simp add: pmm_ready_def)
  note sz = pmm_inv_sizes [OF inv]
  obtain i where i: "f = of_nat i * PMM_PAGE_SIZE" "i < unat (total_frames p)"
    using assms(3) by (auto simp: pmm_used_def bm_used_def)
  then have u: "unat f = i * 4096" using sz(3) by (simp add: frame_addr)
  have "unat (max_physical_address p) \<le> 0x40000000" using assms(2) by (simp add: word_le_nat_alt)
  then have "i * 4096 + 4096 \<le> 0x40000000" using sz(2) i(2) by linarith
  then show "unat f < 0x40000000" using u by simp
  then show "frame_ok f" using u by (intro frame_okI) simp_all
qed

lemma phys_to_virt_nonnull: "unat f < 0x40000000 \<Longrightarrow> phys_to_virt f \<noteq> 0"
proof
  assume "unat f < 0x40000000" "phys_to_virt f = 0"
  then have "f = - HIGHER_HALF_BASE" by (simp add: phys_to_virt_def eq_neg_iff_add_eq_0)
  then have "unat f = 0x80000000" by simp
  then show False using \<open>unat f < 0x40000000\<close> by simp
qed

lemma pmm_alloc_bounds:
  assumes "pmm_alloc_page p = (pa, p')" "pmm_ready p"
  shows "max_physical_address p' = max_physical_address p" "total_frames p' = total_frames p"
    "bitmap_phys_addr p' = bitmap_phys_addr p" "bitmap_size p' = bitmap_size p"
  using assms by (auto simp: pmm_alloc_page_def pmm_ready_def Let_def split: option.splits prod.splits if_splits)

lemma same_link_or: "pte_frame b = 0 \<Longrightarrow> \<not> bit b 0 \<Longrightarrow> \<not> bit b 7 \<Longrightarrow> same_link e (e OR b)"
proof -
  assume b: "pte_frame b = 0" "\<not> bit b 0" "\<not> bit b 7"
  have "\<not> (bit b n \<and> 12 \<le> n \<and> n < 52)" for n using arg_cong [OF b(1), of "\<lambda>x. bit x n"] by simp
  then have "pte_frame e = pte_frame (e OR b)" by (intro bit_eqI) (auto simp: bit_or_iff)
  then show ?thesis using b by (simp add: same_link_def bit_or_iff)
qed

lemma pte_frame_flags [simp]: "pte_frame 0 = 0" "pte_frame 1 = 0" "pte_frame 2 = 0" "pte_frame 3 = 0" "pte_frame 4 = 0"
    "pte_frame 5 = 0" "pte_frame 6 = 0" "pte_frame 7 = 0"
    "pte_frame 0x8000000000000000 = 0"
  by (simp_all add: pte_frame_def)

lemma one_write_tbl_set:
  "frame_ok T \<Longrightarrow> i < 512 \<Longrightarrow> one_write (ent k) (ent (tbl_set (phys_to_virt T) i e k)) U T i e"
  by (simp add: one_write_def ent_tbl_set)

text \<open>The permission bits that \<open>get_next_level\<close> raises in a present entry.\<close>

definition raised :: "u64 \<Rightarrow> u64 \<Rightarrow> u64" where
  "raised fl e = e OR (fl AND 6)"

lemma bit_raised: "bit (raised fl e) n \<longleftrightarrow> bit e n \<or> bit fl n \<and> n \<in> {1, 2}"
proof -
  have "(6 :: u64) = push_bit 1 (mask 2)" by (simp add: mask_eq_exp_minus_1)
  then have "bit (6 :: u64) n \<longleftrightarrow> n \<in> {1, 2}" by (simp only: bit_push_bit_iff bit_mask_iff) auto
  then show ?thesis by (simp only: raised_def bit_or_iff bit_and_iff)
qed

lemma same_link_raised: "same_link e (raised fl e)"
proof -
  have "pte_frame e = pte_frame (raised fl e)" by (rule bit_eqI) (auto simp: bit_raised)
  then show ?thesis by (simp add: same_link_def bit_raised)
qed

lemma bit_2_4: "bit (2 :: u64) n \<longleftrightarrow> n = 1" "bit (4 :: u64) n \<longleftrightarrow> n = 2"
  using bit_exp_iff [where ?'a = u64, of 1 n] bit_exp_iff [where ?'a = u64, of 2 n] by auto

lemma raised_eqs:
  "raised fl e = (if bit fl 1 \<and> \<not> bit e 1
     then if bit fl 2 \<and> \<not> bit e 2 then (e OR 2) OR 4 else e OR 2
     else if bit fl 2 \<and> \<not> bit e 2 then e OR 4 else e)"
  by (rule bit_eqI) (simp only: bit_raised bit_or_iff bit_2_4 split: if_split, auto)

lemma get_next_level_present:
  assumes "frame_ok T" "i < 512" "bit (ent k T i) 0" "\<not> bit (ent k T i) 7"
  obtains k' where "get_next_level (phys_to_virt T) i al fl k = (phys_to_virt (pte_frame (ent k T i)), k')"
    and "frames k' = frames k" and "cr3 k' = cr3 k" and "one_write (ent k) (ent k') UNIV T i (raised fl (ent k T i))"
proof -
  let ?e = "ent k T i" and ?t = "phys_to_virt T"
  let ?k1 = "if bit fl 1 \<and> \<not> bit ?e 1 then tbl_set ?t i (?e OR 2) k else k"
  let ?k2 = "if bit fl 2 \<and> \<not> bit ?e 2 then tbl_set ?t i (ent ?k1 T i OR 4) ?k1 else ?k1"
  have "get_next_level ?t i al fl k = (phys_to_virt (pte_frame ?e), ?k2)"
    using assms by (simp add: get_next_level_def Let_def pte_bits ent_def [symmetric] pte_frame_def [symmetric])
  moreover have "frames ?k2 = frames k" "cr3 ?k2 = cr3 k" by auto
  moreover have "one_write (ent k) (ent ?k2) UNIV T i (raised fl ?e)"
    using assms by (auto simp: one_write_def ent_tbl_set raised_eqs simp del: or.assoc)
  ultimately show ?thesis using that by blast
qed


lemma nxt_new_entry: "frame_ok F \<Longrightarrow> nxt (raised fl (F OR 1)) = Some F"
proof -
  assume F: "frame_ok F"
  have b1: "bit (1 :: u64) n \<longleftrightarrow> n = 0" for n by (simp add: bit_1_iff)
  have "pte_frame (F OR 1) = F" using F by (intro pte_frame_or) simp_all
  moreover have "bit (F OR 1) 0" "\<not> bit (F OR 1) 7" using frame_ok_bits [OF F, of 7] by (simp_all only: bit_or_iff b1) simp_all
  ultimately have "nxt (F OR 1) = Some F" by (simp add: nxt_def)
  then show ?thesis using nxt_same_link [OF same_link_raised] by simp
qed

lemma raised_new_entry:
  "F OR (if bit fl 2 then (if bit fl 1 then 1 OR 2 else 1) OR 4 else if bit fl 1 then 1 OR 2 else 1)
     = raised fl (F OR 1)"
proof -
  have b1: "bit (1 :: u64) n \<longleftrightarrow> n = 0" for n by (simp add: bit_1_iff)
  show ?thesis
    by (rule bit_eqI) (simp only: bit_raised bit_or_iff bit_2_4 b1 split: if_split, auto)
qed

lemma get_next_level_cases:
  assumes wf: "vmm_wf k r" and T: "frame_ok T" "T \<in> pmm_used (frames k)" "i < 512"
    and g: "get_next_level (phys_to_virt T) i al fl k = (ptr, k')"
  obtains (fail) "ptr = 0" "k' = k" "al \<longrightarrow> bit (ent k T i) 0 \<and> bit (ent k T i) 7 \<or> (\<forall>n < unat (total_frames (frames k)). bm_test (bitmap (frames k)) n)"
  | (present) F where "ptr = phys_to_virt F" "nxt (ent k T i) = Some F" "frames k' = frames k" "cr3 k' = cr3 k"
      "one_write (ent k) (ent k') UNIV T i (raised fl (ent k T i))"
  | (new) F where "\<not> bit (ent k T i) 0" "ptr = phys_to_virt F" "pmm_alloc_page (frames k) = (F, frames k')" "F \<noteq> 0"
      "frame_ok F" "cr3 k' = cr3 k"
      "one_write (ent k) (ent k') (pmm_used (frames k)) T i (raised fl (F OR 1))" "empty_table (ent k') F"
proof -
  have ready: "pmm_ready (frames k)" "max_physical_address (frames k) \<le> 0x40000000"
    using wf by (simp_all add: vmm_wf_def)
  obtain F p' where a: "pmm_alloc_page (frames k) = (F, p')" by (cases "pmm_alloc_page (frames k)")
  note A = pmm_alloc_page_ready [OF ready(1) a]
  consider "bit (ent k T i) 0" "bit (ent k T i) 7" | "bit (ent k T i) 0" "\<not> bit (ent k T i) 7"
    | "\<not> bit (ent k T i) 0" "\<not> al \<or> F = 0" | "\<not> bit (ent k T i) 0" "al" "F \<noteq> 0" by blast
  then show thesis
  proof cases
    case 1
    then show thesis using g fail
      by (simp add: get_next_level_def pte_bits ent_def [symmetric])
  next
    case 2
    then show thesis using get_next_level_present [OF T(1,3) 2, of al fl] g present
      by (metis nxt_def prod.inject)
  next
    case 3
    then show thesis using g fail a A(2,3)
      by (auto simp: get_next_level_def Let_def pte_bits ent_def [symmetric] split: if_splits)
  next
    case 4
    have F: "frame_ok F" "F \<notin> pmm_used (frames k)" "frames k \<noteq> p'"
      using pmm_used_bounds(2) [OF A(1), of F] A(4,5) 4 ready(2) pmm_alloc_bounds(1) [OF a ready(1)] by auto
    let ?k2 = "zero_table (phys_to_virt F) [0..<512] (k\<lparr>frames := p'\<rparr>)"
    have k': "ptr = phys_to_virt F" "k' = tbl_set (phys_to_virt T) i (raised fl (F OR 1)) ?k2"
      using g 4 a raised_new_entry [of F fl]
      by (auto simp: get_next_level_def Let_def pte_bits ent_def [symmetric])
    have e2: "ent ?k2 V j = (if V = F then 0 else ent k V j)" if "frame_ok V" "j < 512" for V j
      using that F(1) by (simp add: ent_zero_table word_less_nat_alt)
    have "one_write (ent k) (ent k') (pmm_used (frames k)) T i (raised fl (F OR 1))"
      using F T unfolding one_write_def k'(2) by (auto simp: ent_tbl_set e2)
    moreover have "empty_table (ent k') F"
      using F T unfolding empty_table_def k'(2) by (auto simp: ent_tbl_set e2)
    ultimately show thesis using new [of F] 4 F(1) a k' by simp
  qed
qed

lemma as_wf_mono: "as_wf E r U \<Longrightarrow> U \<subseteq> U' \<Longrightarrow> as_wf E r U'"
  unfolding as_wf_def by blast

lemma get_next_level_step:
  assumes wf: "vmm_wf k r" and p: "valid_path (p @ [i])" "tab (ent k) r p = Some T"
    and g: "get_next_level (phys_to_virt T) i al fl k = (ptr, k')"
  shows "vmm_wf k' r" and "gp (ent k') r va = gp (ent k) r va"
    and "ptr \<noteq> 0 \<longrightarrow> (\<exists>F. ptr = phys_to_virt F \<and> tab (ent k') r (p @ [i]) = Some F)"
proof -
  have vp: "valid_path p" "i < 512" using p(1) by simp_all
  have ready: "pmm_ready (frames k)" "max_physical_address (frames k) \<le> 0x40000000"
    and as: "as_wf (ent k) r (pmm_used (frames k))" using wf by (simp_all add: vmm_wf_def)
  note T = as_wfD [OF as vp(1) p(2)]
  have "vmm_wf k' r \<and> gp (ent k') r va = gp (ent k) r va
    \<and> (ptr \<noteq> 0 \<longrightarrow> (\<exists>F. ptr = phys_to_virt F \<and> tab (ent k') r (p @ [i]) = Some F))"
    using wf T vp(2) g
  proof (cases rule: get_next_level_cases)
    case fail
    then show ?thesis using wf by simp
  next
    case (present F)
    have *: "same_link (ent k V j) (ent k' V j)" if "frame_ok V" "V \<in> pmm_used (frames k)" "j < 512" for V j
      using one_writeD [OF present(5), of V j] that same_link_raised by auto
    have "tab (ent k') r (p @ [i]) = tab (ent k) r (p @ [i])"
      using tab_same_link [of "pmm_used (frames k)" "ent k" "ent k'" r "p @ [i]"] * as_wfD [OF as] p(1) by blast
    moreover have "gp (ent k') r va = gp (ent k) r va"
      using gp_same_link [of "pmm_used (frames k)" "ent k" "ent k'" r va] * as_wfD [OF as] by blast
    ultimately show ?thesis
      using as_wf_same_link [of "pmm_used (frames k)" "ent k" "ent k'"] * as ready present p
      by (auto simp: vmm_wf_def tab_snoc)
  next
    case (new F)
    note A = pmm_alloc_page_ready [OF ready(1) new(3)]
    have N: "nxt (raised fl (F OR 1)) = Some F" using nxt_new_entry new(5) .
    note args = as p new(1) N A(4) [OF new(4)] new(7,8)
    show ?thesis
      using gp_new_table [OF args, of va] tab_new_table [OF args p(1)] as_wf_new_table [OF args]
        new(2) A(1) A(5) [OF new(4)] ready(2) pmm_alloc_bounds(1) [OF new(3) ready(1)]
      by (simp add: vmm_wf_def)
  qed
  then show "vmm_wf k' r" "gp (ent k') r va = gp (ent k) r va"
    "ptr \<noteq> 0 \<longrightarrow> (\<exists>F. ptr = phys_to_virt F \<and> tab (ent k') r (p @ [i]) = Some F)" by blast+
qed

lemma leaf_step:
  assumes wf: "vmm_wf k r" and p: "valid_path p" "length p = 3" "tab (ent k) r p = Some T" and i: "i < 512"
    and k': "k' = tbl_set (phys_to_virt T) i e k"
  shows "vmm_wf k' r"
    and "gp (ent k') r va = (if [pml4_index va, pdpt_index va, pd_index va, pt_index va] = p @ [i]
           then if bit e 0 then Some (pte_frame e + (va AND 0xFFF)) else None
           else gp (ent k) r va)"
proof -
  have as: "as_wf (ent k) r (pmm_used (frames k))" using wf by (simp add: vmm_wf_def)
  have w: "one_write (ent k) (ent k') (pmm_used (frames k)) T i e"
    unfolding k' by (rule one_write_tbl_set [OF as_wfD(1) [OF as p(1,3)] i])
  show "vmm_wf k' r" using as_wf_leaf [OF as p w] wf by (simp add: vmm_wf_def k')
  show "gp (ent k') r va = (if [pml4_index va, pdpt_index va, pd_index va, pt_index va] = p @ [i]
           then if bit e 0 then Some (pte_frame e + (va AND 0xFFF)) else None
           else gp (ent k) r va)"
    by (rule gp_leaf [OF as p i w])
qed

lemma vmm_wf_get_phys:
  assumes "vmm_wf k r"
  shows "vmm_get_phys r va k = (if is_canonical va then gp (ent k) r va else None)"
  using assms as_wf_upper [of "ent k" r "pmm_used (frames k)" "[]" r]
  by (intro vmm_get_phys_gp) (simp add: vmm_wf_def)

text \<open>
  The three table levels of a walk, allocating or not: a property \<open>Q\<close> that every level keeps
  holds at each of the states where the walk may stop, and the last level gives a page table.
\<close>

definition level_inv :: "(kmem \<Rightarrow> bool) \<Rightarrow> u64 \<Rightarrow> u64 \<Rightarrow> bool \<Rightarrow> u64 \<Rightarrow> bool" where
  "level_inv Q r va al fl \<longleftrightarrow> (\<forall>k p i T ptr k'. Q k \<longrightarrow> vmm_wf k r \<longrightarrow> valid_path (p @ [i]) \<longrightarrow>
     hd (p @ [i]) = pml4_index va \<longrightarrow> tab (ent k) r p = Some T \<longrightarrow>
     get_next_level (phys_to_virt T) i al fl k = (ptr, k') \<longrightarrow> Q k')"

lemma level_invD:
  assumes "level_inv Q r va al fl" "Q k" "vmm_wf k r" "valid_path (p @ [i])" "hd (p @ [i]) = pml4_index va"
    "tab (ent k) r p = Some T" "get_next_level (phys_to_virt T) i al fl k = (ptr, k')"
  shows "Q k'"
  using assms unfolding level_inv_def by blast

lemma walk_step:
  assumes wf: "vmm_wf k r" and Q: "Q k" and inv: "level_inv Q r va al fl"
    and g1: "get_next_level (phys_to_virt r) (pml4_index va) al fl k = (pdpt, k1)"
    and g2: "get_next_level pdpt (pdpt_index va) al fl k1 = (pd, k2)"
    and g3: "get_next_level pd (pd_index va) al fl k2 = (pt, k3)"
  shows "vmm_wf k1 r \<and> Q k1" and "pdpt \<noteq> 0 \<Longrightarrow> vmm_wf k2 r \<and> Q k2"
    and "pdpt \<noteq> 0 \<Longrightarrow> pd \<noteq> 0 \<Longrightarrow> vmm_wf k3 r \<and> Q k3 \<and> (pt \<noteq> 0 \<longrightarrow>
      (\<exists>P. pt = phys_to_virt P \<and> tab (ent k3) r [pml4_index va, pdpt_index va, pd_index va] = Some P))"
proof -
  note step = level_invD [where Q = Q, OF inv]
  have v1: "valid_path ([] @ [pml4_index va])" by (simp add: index_less valid_path_def)
  have v2: "valid_path ([pml4_index va] @ [pdpt_index va])" by (simp add: valid_path_def index_less)
  have v3: "valid_path ([pml4_index va, pdpt_index va] @ [pd_index va])" by (simp add: valid_path_def index_less)
  note s1 = get_next_level_step [OF wf v1 tab.simps(1) g1]
  show r1: "vmm_wf k1 r \<and> Q k1" using s1(1) step [OF Q wf v1 _ tab.simps(1) g1] by simp
  have r2: "vmm_wf k2 r \<and> Q k2 \<and>
     (pd \<noteq> 0 \<longrightarrow> (\<exists>F. pd = phys_to_virt F \<and> tab (ent k2) r [pml4_index va, pdpt_index va] = Some F))"
    if nz: "pdpt \<noteq> 0"
  proof -
    obtain F where F: "pdpt = phys_to_virt F" "tab (ent k1) r [pml4_index va] = Some F" using s1(3) nz by auto
    note g = g2 [unfolded F(1)]
    show ?thesis
      using get_next_level_step [OF s1(1) v2 F(2) g] step [OF conjunct2 [OF r1] s1(1) v2 _ F(2) g] by simp
  qed
  then show "pdpt \<noteq> 0 \<Longrightarrow> vmm_wf k2 r \<and> Q k2" by blast
  show "vmm_wf k3 r \<and> Q k3 \<and> (pt \<noteq> 0 \<longrightarrow>
      (\<exists>P. pt = phys_to_virt P \<and> tab (ent k3) r [pml4_index va, pdpt_index va, pd_index va] = Some P))"
    if nz: "pdpt \<noteq> 0" "pd \<noteq> 0"
  proof -
    obtain F where F: "pd = phys_to_virt F" "tab (ent k2) r [pml4_index va, pdpt_index va] = Some F"
      using r2 nz by blast
    note g = g3 [unfolded F(1)]
    have w: "vmm_wf k2 r" "Q k2" using r2 nz by blast+
    show ?thesis using get_next_level_step [OF w(1) v3 F(2) g] step [OF w(2,1) v3 _ F(2) g] by simp
  qed
qed

text \<open>What \<open>vmm_map_page\<close> and \<open>vmm_unmap_page\<close> do, once the walk is done.\<close>

lemma vmm_map_page_cases:
  assumes wf: "vmm_wf k r" and Q: "Q k" and inv: "level_inv Q r va True (flags_to_pte flags)"
    and m: "vmm_map_page r va pa flags k = (ok, k')"
  obtains (fail) "\<not> ok" "vmm_wf k' r" "Q k'"
  | (mapped) k3 P where "ok" "is_canonical va" "va mod PMM_PAGE_SIZE = 0" "pa mod PMM_PAGE_SIZE = 0"
      "vmm_wf k3 r" "Q k3" "tab (ent k3) r [pml4_index va, pdpt_index va, pd_index va] = Some P"
      "\<not> bit (ent k3 P (pt_index va)) 0"
      "k' = tbl_set (phys_to_virt P) (pt_index va) (pa OR flags_to_pte flags OR PTE_PRESENT) k3"
proof -
  let ?fl = "flags_to_pte flags"
  obtain pdpt k1 where g1: "get_next_level (phys_to_virt r) (pml4_index va) True ?fl k = (pdpt, k1)" by fastforce
  obtain pd k2 where g2: "get_next_level pdpt (pdpt_index va) True ?fl k1 = (pd, k2)" by fastforce
  obtain pt k3 where g3: "get_next_level pd (pd_index va) True ?fl k2 = (pt, k3)" by fastforce
  note w = walk_step [where Q = Q, OF wf Q inv g1 g2 g3]
  show thesis
  proof (cases "is_canonical va \<and> va mod PMM_PAGE_SIZE = 0 \<and> pa mod PMM_PAGE_SIZE = 0 \<and> pdpt \<noteq> 0 \<and> pd \<noteq> 0 \<and> pt \<noteq> 0")
    case True
    obtain P where P: "pt = phys_to_virt P" "tab (ent k3) r [pml4_index va, pdpt_index va, pd_index va] = Some P"
      using w(3) True by blast
    then show thesis using m g1 g2 g3 True w(3) fail mapped [of k3 P]
      by (auto simp: vmm_map_page_def Let_def pte_bits ent_def [symmetric] split: if_splits)
  next
    case False
    then show thesis using m g1 g2 g3 wf Q w fail
      by (auto simp: vmm_map_page_def Let_def split: if_splits)
  qed
qed


lemma level_inv_gp: "level_inv (\<lambda>k'. gp (ent k') r v = x) r va al fl"
  unfolding level_inv_def using get_next_level_step(2) by metis

text \<open>Two canonical addresses with the same four indices are in the same page.\<close>

lemma bit_index:
  "bit (pml4_index va) n \<longleftrightarrow> n < 9 \<and> bit va (39 + n)" "bit (pdpt_index va) n \<longleftrightarrow> n < 9 \<and> bit va (30 + n)"
  "bit (pd_index va) n \<longleftrightarrow> n < 9 \<and> bit va (21 + n)" "bit (pt_index va) n \<longleftrightarrow> n < 9 \<and> bit va (12 + n)"
proof -
  have "(0x1FF :: u64) = mask 9" by (simp add: mask_eq_exp_minus_1)
  then show "bit (pml4_index va) n \<longleftrightarrow> n < 9 \<and> bit va (39 + n)" "bit (pdpt_index va) n \<longleftrightarrow> n < 9 \<and> bit va (30 + n)"
    "bit (pd_index va) n \<longleftrightarrow> n < 9 \<and> bit va (21 + n)" "bit (pt_index va) n \<longleftrightarrow> n < 9 \<and> bit va (12 + n)"
    by (simp_all only: pml4_index_def pdpt_index_def pd_index_def pt_index_def bit_and_iff bit_drop_bit_eq
        bit_mask_iff) auto
qed

lemma bit_page_base: "bit (va AND NOT (0xFFF :: u64)) n \<longleftrightarrow> bit va n \<and> 12 \<le> n"
proof -
  have "(0xFFF :: u64) = mask 12" by (simp add: mask_eq_exp_minus_1)
  then show ?thesis
    by (simp only: bit_and_iff bit_not_iff bit_mask_iff) (auto dest: bit_imp_le_length)
qed

lemma bit_canonical: "is_canonical va \<Longrightarrow> 47 \<le> n \<Longrightarrow> n < 64 \<Longrightarrow> bit va n = bit va 47"
proof -
  assume c: "is_canonical va" and n: "47 \<le> n" "n < 64"
  have m: "(0x1FFFF :: u64) = mask 17" by (simp add: mask_eq_exp_minus_1)
  have b: "bit va (47 + j) = bit (drop_bit 47 va) j" for j by (simp add: bit_drop_bit_eq)
  from c consider "drop_bit 47 va = 0" | "drop_bit 47 va = mask 17" by (auto simp: is_canonical_def Let_def m)
  then have "bit va (47 + (n - 47)) = bit va (47 + 0)"
    using n by cases (simp_all only: b bit_0_eq bit_mask_iff, auto)
  then show ?thesis using n by simp
qed

lemma page_aligned_bits: "va mod PMM_PAGE_SIZE = 0 \<Longrightarrow> n < 12 \<Longrightarrow> \<not> bit va n"
proof -
  assume "va mod PMM_PAGE_SIZE = 0" and n: "n < 12"
  then have "take_bit 12 va = 0" by (simp add: take_bit_eq_mod)
  from arg_cong [OF this, of "\<lambda>x. bit x n"] show ?thesis using n by (simp only: bit_take_bit_iff bit_0_eq) auto
qed

lemma indices_bits:
  assumes "[pml4_index va', pdpt_index va', pd_index va', pt_index va'] = [pml4_index va, pdpt_index va, pd_index va, pt_index va]"
    and "12 \<le> n" "n < 48"
  shows "bit va' n = bit va n"
proof -
  from assms(2,3) consider "n < 21" | "21 \<le> n" "n < 30" | "30 \<le> n" "n < 39" | "39 \<le> n" by linarith
  then show ?thesis
  proof cases
    case 1
    then show ?thesis using assms bit_index(4) [of va "n - 12"] bit_index(4) [of va' "n - 12"] by auto
  next
    case 2
    then show ?thesis using assms bit_index(3) [of va "n - 21"] bit_index(3) [of va' "n - 21"] by auto
  next
    case 3
    then show ?thesis using assms bit_index(2) [of va "n - 30"] bit_index(2) [of va' "n - 30"] by auto
  next
    case 4
    then show ?thesis using assms bit_index(1) [of va "n - 39"] bit_index(1) [of va' "n - 39"] by auto
  qed
qed

lemma indices_page_base:
  "pml4_index (va AND NOT 0xFFF) = pml4_index va" "pdpt_index (va AND NOT 0xFFF) = pdpt_index va"
  "pd_index (va AND NOT 0xFFF) = pd_index va" "pt_index (va AND NOT 0xFFF) = pt_index va"
  by (rule bit_eqI, simp only: bit_index bit_page_base, simp)+

lemma indices_eq_iff:
  assumes "is_canonical va" "is_canonical va'" "va mod PMM_PAGE_SIZE = 0"
  shows "[pml4_index va', pdpt_index va', pd_index va', pt_index va'] = [pml4_index va, pdpt_index va, pd_index va, pt_index va]
    \<longleftrightarrow> va' AND NOT 0xFFF = va" (is "?l \<longleftrightarrow> ?r")
proof
  assume l: ?l
  have eq: "bit va' n = bit va n" if "12 \<le> n" "n < 64" for n
  proof (cases "n < 48")
    case False
    then have "bit va' n = bit va' 47" "bit va n = bit va 47"
      using bit_canonical [OF assms(1), of n] bit_canonical [OF assms(2), of n] that by simp_all
    then show ?thesis using indices_bits [OF l, of 47] by simp
  qed (use indices_bits [OF l] that in simp)
  show ?r
  proof (rule bit_eqI)
    fix n assume "possible_bit TYPE(u64) n"
    then have n: "n < 64" by simp
    show "bit (va' AND NOT 0xFFF) n = bit va n"
      unfolding bit_page_base using eq [OF _ n] page_aligned_bits [OF assms(3), of n] by (cases "n < 12") auto
  qed
qed (use indices_page_base [of va'] in simp)


section \<open>Isolation\<close>

text \<open>
  The tables of an address space, and those of its user half with the root. Two address
  spaces share the tables of the kernel half; the user half of one is nowhere in the other.
\<close>

definition tables :: "(u64 \<Rightarrow> u64 \<Rightarrow> u64) \<Rightarrow> u64 \<Rightarrow> u64 set" where
  "tables E r = {T. \<exists>p. valid_path p \<and> tab E r p = Some T}"

definition user_tables :: "(u64 \<Rightarrow> u64 \<Rightarrow> u64) \<Rightarrow> u64 \<Rightarrow> u64 set" where
  "user_tables E r = {T. \<exists>p. valid_path p \<and> (p = [] \<or> hd p < 256) \<and> tab E r p = Some T}"

definition separate :: "kmem \<Rightarrow> u64 \<Rightarrow> u64 \<Rightarrow> bool" where
  "separate k r s \<longleftrightarrow> user_tables (ent k) r \<inter> tables (ent k) s = {}"

lemma tablesI: "valid_path p \<Longrightarrow> tab E r p = Some T \<Longrightarrow> T \<in> tables E r"
  unfolding tables_def by blast

lemma user_tablesI: "valid_path p \<Longrightarrow> p = [] \<or> hd p < 256 \<Longrightarrow> tab E r p = Some T \<Longrightarrow> T \<in> user_tables E r"
  unfolding user_tables_def by blast

lemma as_wf_tables: "as_wf E r U \<Longrightarrow> tables E r \<subseteq> U" "as_wf E r U \<Longrightarrow> as_wf E r (tables E r)"
  unfolding as_wf_def tables_def by blast+

lemma untouched:
  assumes "as_wf E s U" and "\<And>T j. T \<in> tables E s \<Longrightarrow> j < 512 \<Longrightarrow> E' T j = E T j"
  shows "as_wf E' s U" and "gp E' s va = gp E s va" and "tables E' s = tables E s"
proof -
  have *: "same_link (E T i) (E' T i)" if "frame_ok T" "T \<in> tables E s" "i < 512" for T i
    using assms(2) that by simp
  have wf: "as_wf E s (tables E s)" using as_wf_tables(2) [OF assms(1)] .
  have in_tables: "frame_ok T \<and> T \<in> tables E s" if "valid_path p" "tab E s p = Some T" for p T
    using as_wfD [OF wf that] by blast
  show "as_wf E' s U"
    using as_wf_same_link [of "tables E s" E E' s] * wf as_wf_tables(1) [OF assms(1)] as_wf_mono by blast
  show "gp E' s va = gp E s va"
    using gp_same_link [of "tables E s" E E' s va] * in_tables by blast
  have "tab E' s p = tab E s p" if "valid_path p" for p
    using tab_same_link [of "tables E s" E E' s p] * in_tables that by blast
  then show "tables E' s = tables E s" unfolding tables_def by (metis (no_types, lifting))
qed

lemma get_next_level_isolated:
  assumes wf: "vmm_wf k r" "vmm_wf k s" and sep: "separate k r s"
    and p: "valid_path (p @ [i])" "tab (ent k) r p = Some T" "hd (p @ [i]) < 256"
    and g: "get_next_level (phys_to_virt T) i al fl k = (ptr, k')"
  shows "vmm_wf k' s" and "gp (ent k') s va = gp (ent k) s va" and "separate k' r s"
proof -
  have vp: "valid_path p" "i < 512" using p(1) by simp_all
  have ready: "pmm_ready (frames k)" "max_physical_address (frames k) \<le> 0x40000000"
    and as: "as_wf (ent k) r (pmm_used (frames k))" and as': "as_wf (ent k) s (pmm_used (frames k))"
    using wf by (simp_all add: vmm_wf_def)
  note T = as_wfD [OF as vp(1) p(2)]
  have "T \<in> user_tables (ent k) r" using user_tablesI [OF vp(1) _ p(2)] p(3) by (cases p) auto
  then have Ts: "T \<notin> tables (ent k) s" using sep by (auto simp: separate_def)
  have Us: "frame_ok V" "V \<in> pmm_used (frames k)" if "V \<in> tables (ent k) s" for V
    using that as_wfD [OF as'] by (auto simp: tables_def)
  have "vmm_wf k' s \<and> gp (ent k') s va = gp (ent k) s va \<and> separate k' r s"
    using wf(1) T vp(2) g
  proof (cases rule: get_next_level_cases)
    case fail
    then show ?thesis using wf sep by simp
  next
    case (present F)
    have *: "same_link (ent k V j) (ent k' V j)" if "frame_ok V" "V \<in> pmm_used (frames k)" "j < 512" for V j
      using one_writeD [OF present(5), of V j] that same_link_raised by auto
    have "tab (ent k') r q = tab (ent k) r q" if "valid_path q" for q
      using tab_same_link [of "pmm_used (frames k)" "ent k" "ent k'" r q] * as_wfD [OF as] that by blast
    then have "user_tables (ent k') r = user_tables (ent k) r"
      unfolding user_tables_def by (metis (no_types, lifting))
    moreover have "ent k' V j = ent k V j" if "V \<in> tables (ent k) s" "j < 512" for V j
      using one_writeD [OF present(5), of V j] Us that Ts by auto
    note untouched [OF as' this]
    ultimately show ?thesis using sep ready present(3) by (simp add: vmm_wf_def separate_def)
  next
    case (new F)
    note A = pmm_alloc_page_ready [OF ready(1) new(3)]
    have N: "nxt (raised fl (F OR 1)) = Some F" using nxt_new_entry new(5) .
    note args = as p(1,2) new(1) N A(4) [OF new(4)] new(7,8)
    have "user_tables (ent k') r \<subseteq> insert F (user_tables (ent k) r)"
      using tab_new_table [OF args] by (auto simp: user_tables_def split: if_splits)
    moreover have "F \<notin> tables (ent k) s" using Us A(4) [OF new(4)] by blast
    moreover have "ent k' V j = ent k V j" if "V \<in> tables (ent k) s" "j < 512" for V j
      using one_writeD [OF new(7), of V j] Us that Ts by auto
    note untouched [OF as' this]
    ultimately show ?thesis
      using sep ready A(1) A(5) [OF new(4)] pmm_alloc_bounds(1) [OF new(3) ready(1)]
      by (auto simp: vmm_wf_def separate_def intro: as_wf_mono)
  qed
  then show "vmm_wf k' s" "gp (ent k') s va = gp (ent k) s va" "separate k' r s" by blast+
qed

section \<open>Properties\<close>

lemma gp_of_leaf_table:
  assumes "tab E r [pml4_index va, pdpt_index va, pd_index va] = Some P"
  shows "gp E r va = (if bit (E P (pt_index va)) 0
           then Some (pte_frame (E P (pt_index va)) + (va AND 0xFFF)) else None)"
  using assms tab_snoc [of E r "[pml4_index va, pdpt_index va]" "pd_index va"]
  by (cases "tab E r [pml4_index va, pdpt_index va]") (auto simp: gp_def nxt_def Let_def split: if_splits)

lemma pte_frame_pte:
  assumes "frame_ok pa"
  shows "pte_frame (pa OR flags_to_pte flags OR PTE_PRESENT) = pa" "bit (pa OR flags_to_pte flags OR PTE_PRESENT) 0"
proof -
  have or: "pte_frame (a OR b) = pte_frame a OR pte_frame b" for a b
    by (rule bit_eqI) (auto simp: bit_or_iff)
  have "pte_frame (flags_to_pte flags OR PTE_PRESENT) = 0"
    unfolding flags_to_pte_def Let_def or by (simp add: or)
  then show "pte_frame (pa OR flags_to_pte flags OR PTE_PRESENT) = pa" using assms by (intro pte_frame_or)
  show "bit (pa OR flags_to_pte flags OR PTE_PRESENT) 0"
    by (simp only: bit_or_iff) simp
qed

lemma page_base_self: "va mod PMM_PAGE_SIZE = 0 \<Longrightarrow> va AND NOT 0xFFF = va"
  by (rule bit_eqI) (metis bit_page_base page_aligned_bits not_le)

lemma vmm_map_page_spec:
  assumes "vmm_wf k r" and "vmm_map_page r va pa flags k = (ok, k')" and "pa AND PTE_FRAME_MASK = pa"
  shows "vmm_wf k' r
    \<and> (ok \<longrightarrow> vmm_get_phys r va k = None)
    \<and> (\<forall>v. vmm_get_phys r v k' =
          (if ok \<and> is_canonical v \<and> v AND NOT 0xFFF = va then Some (pa + (v AND 0xFFF))
           else vmm_get_phys r v k))"
proof -
  have pa: "frame_ok pa" using assms(3) by (simp add: frame_ok_def pte_frame_def)
  let ?Q = "\<lambda>k'. \<forall>v. gp (ent k') r v = gp (ent k) r v"
  have inv: "level_inv ?Q r va True (flags_to_pte flags)"
    unfolding level_inv_def using get_next_level_step(2) by metis
  have Q: "?Q k" by simp
  from vmm_map_page_cases [where Q = ?Q, OF assms(1) Q inv assms(2)] show ?thesis
  proof cases
    case 1
    then show ?thesis using vmm_wf_get_phys [OF assms(1)] vmm_wf_get_phys [OF 1(2)] by simp
  next
    case (2 k3 P)
    have p: "valid_path [pml4_index va, pdpt_index va, pd_index va]" "length [pml4_index va, pdpt_index va, pd_index va] = 3" by simp_all
    note L = leaf_step [OF 2(5) p 2(7) index_less(4) 2(9)]
    have "gp (ent k) r va = None" using gp_of_leaf_table [OF 2(7)] 2(6,8) by (metis (no_types))
    moreover have "gp (ent k') r v = (if v AND NOT 0xFFF = va then Some (pa + (v AND 0xFFF)) else gp (ent k) r v)"
      if "is_canonical v" for v
      using L(2) [of v] indices_eq_iff [OF 2(2) that 2(3)] 2(6) pte_frame_pte [OF pa] by simp
    ultimately show ?thesis
      using L(1) 2(1,2) by (simp add: vmm_wf_get_phys [OF assms(1)] vmm_wf_get_phys [OF L(1)])
  qed
qed

text \<open>
  C7. \<open>vmm_map_page\<close> installs exactly one translation. From a well-formed address space it
  leaves a well-formed one; when it returns true the page was unmapped before and every address
  of it now translates to the same offset of the frame; every other translation is the one
  before, and none changes when it returns false, even after new page tables were linked in.
\<close>

theorem vmm_map_page_correct:
  assumes "vmm_wf k r" and "vmm_map_page r va pa flags k = (ok, k')" and "pa AND PTE_FRAME_MASK = pa"
  shows "vmm_wf k' r
    \<and> (ok \<longrightarrow> vmm_get_phys r va k = None)
    \<and> (\<forall>v. vmm_get_phys r v k' =
          (if ok \<and> is_canonical v \<and> v AND NOT 0xFFF = va then Some (pa + (v AND 0xFFF))
           else vmm_get_phys r v k))"
  using assms by (rule vmm_map_page_spec)

subsection \<open>Success\<close>

lemma pmm_alloc_used_frames:
  assumes "pmm_alloc_page p = (pa, p')" "pa \<noteq> 0"
  shows "used_frames p' = used_frames p + 1"
proof -
  have "fst (pmm_alloc_page p) \<noteq> 0 \<longrightarrow> used_frames (snd (pmm_alloc_page p)) = used_frames p + 1"
    by (simp add: pmm_alloc_page_def Let_def split: option.split prod.split)
  then show ?thesis using assms by simp
qed

lemma get_next_level_ok:
  assumes wf: "vmm_wf k r" and p: "valid_path (p @ [i])" "tab (ent k) r p = Some T"
    and g: "get_next_level (phys_to_virt T) i True fl k = (ptr, k')"
    and e: "\<not> (bit (ent k T i) 0 \<and> bit (ent k T i) 7)"
    and room: "unat (used_frames (frames k)) + n < unat (total_frames (frames k))"
  shows "ptr \<noteq> 0" and "unat (used_frames (frames k')) + n \<le> unat (total_frames (frames k'))"
proof -
  have vp: "valid_path p" "i < 512" using p(1) by simp_all
  have ready: "pmm_ready (frames k)" "max_physical_address (frames k) \<le> 0x40000000"
    and as: "as_wf (ent k) r (pmm_used (frames k))" using wf by (simp_all add: vmm_wf_def)
  have inv: "pmm_inv (frames k)" using ready by (simp add: pmm_ready_def)
  note T = as_wfD [OF as vp(1) p(2)]
  have nn: "phys_to_virt F \<noteq> 0" if "F \<in> pmm_used q" "pmm_ready q" "max_physical_address q \<le> 0x40000000" for F q
    using pmm_used_bounds(1) [OF that(2,3,1)] by (rule phys_to_virt_nonnull)
  have "ptr \<noteq> 0 \<and> unat (used_frames (frames k')) + n \<le> unat (total_frames (frames k'))"
    using wf T vp(2) g
  proof (cases rule: get_next_level_cases)
    case fail
    have "bm_used (bitmap (frames k)) (unat (total_frames (frames k))) = {..<unat (total_frames (frames k))}"
      using fail(3) e by (auto simp: bm_used_def)
    then have "unat (used_frames (frames k)) = unat (total_frames (frames k))"
      using inv by (simp add: pmm_inv_def)
    then show ?thesis using room by simp
  next
    case (present F)
    then have "tab (ent k) r (p @ [i]) = Some F" using p(2) by (simp add: tab_snoc)
    then have "F \<in> pmm_used (frames k)" using as_wfD(2) [OF as p(1)] by blast
    then show ?thesis using present nn ready room by simp
  next
    case (new F)
    note A = pmm_alloc_page_ready [OF ready(1) new(3)]
    have "used_frames (frames k') = used_frames (frames k) + 1"
      using pmm_alloc_used_frames [OF new(3,4)] .
    moreover have "unat (used_frames (frames k) + 1) \<le> unat (used_frames (frames k)) + 1"
      by (simp add: unat_word_ariths)
    ultimately show ?thesis
      using nn [of F "frames k'"] A(1,5) new(2,4) pmm_alloc_bounds(1,2) [OF new(3) ready(1)] ready(2) room by simp
  qed
  then show "ptr \<noteq> 0" "unat (used_frames (frames k')) + n \<le> unat (total_frames (frames k'))" by blast+
qed

lemma pde_not_huge:
  assumes "gp E r va = None" "tab E r [pml4_index va, pdpt_index va] = Some D"
  shows "\<not> (bit (E D (pd_index va)) 0 \<and> bit (E D (pd_index va)) 7)"
  using assms by (auto simp: gp_def Let_def split: if_splits)

lemma walk_succeeds:
  assumes wf: "vmm_wf k r" and gp0: "gp (ent k) r va = None"
    and room: "unat (used_frames (frames k)) + 3 \<le> unat (total_frames (frames k))"
    and g1: "get_next_level (phys_to_virt r) (pml4_index va) True fl k = (pdpt, k1)"
    and g2: "get_next_level pdpt (pdpt_index va) True fl k1 = (pd, k2)"
    and g3: "get_next_level pd (pd_index va) True fl k2 = (pt, k3)"
  shows "pdpt \<noteq> 0 \<and> pd \<noteq> 0 \<and> pt \<noteq> 0"
proof -
  let ?a = "pml4_index va" and ?b = "pdpt_index va" and ?c = "pd_index va"
  have v1: "valid_path ([] @ [?a])" by (simp add: index_less valid_path_def)
  have v2: "valid_path ([?a] @ [?b])" by (simp add: valid_path_def index_less)
  have v3: "valid_path ([?a, ?b] @ [?c])" by (simp add: valid_path_def index_less)
  have up: "\<not> (bit (ent s T i) 0 \<and> bit (ent s T i) 7)"
    if "vmm_wf s r" "valid_path p" "length p \<le> 1" "tab (ent s) r p = Some T" "i < 512" for s p T i
    using as_wf_upper [OF _ that(2-5)] that(1) by (auto simp: vmm_wf_def)
  note s1 = get_next_level_step [OF wf v1 tab.simps(1) g1]
  have "\<not> (bit (ent k r ?a) 0 \<and> bit (ent k r ?a) 7)" using up [OF wf, of "[]" r ?a] index_less by simp
  note o1 = get_next_level_ok [OF wf v1 tab.simps(1) g1 this, of 2]
  have n1: "pdpt \<noteq> 0" "unat (used_frames (frames k1)) + 2 \<le> unat (total_frames (frames k1))" using o1 room by simp_all
  obtain D1 where D1: "pdpt = phys_to_virt D1" "tab (ent k1) r [?a] = Some D1" using s1(3) n1 by auto
  note s2 = get_next_level_step [OF s1(1) v2 D1(2) g2 [unfolded D1(1)]]
  have "\<not> (bit (ent k1 D1 ?b) 0 \<and> bit (ent k1 D1 ?b) 7)"
    using up [OF s1(1) _ _ D1(2)] index_less by (simp add: valid_path_def)
  note o2 = get_next_level_ok [OF s1(1) v2 D1(2) g2 [unfolded D1(1)] this, of 1]
  have n2: "pd \<noteq> 0" "unat (used_frames (frames k2)) + 1 \<le> unat (total_frames (frames k2))" using o2 n1 by simp_all
  obtain D2 where D2: "pd = phys_to_virt D2" "tab (ent k2) r [?a, ?b] = Some D2" using s2(3) n2 by auto
  have "\<not> (bit (ent k2 D2 ?c) 0 \<and> bit (ent k2 D2 ?c) 7)"
    using pde_not_huge [OF _ D2(2)] s1(2) s2(2) gp0 by simp
  note o3 = get_next_level_ok [OF s2(1) v3 D2(2) g3 [unfolded D2(1)] this, of 0]
  show ?thesis using n1(1) n2(1) o3 n2 by simp
qed

lemma vmm_map_page_ok:
  assumes "vmm_wf k r" and "unat (used_frames (frames k)) + 3 \<le> unat (total_frames (frames k))"
    and c: "is_canonical va \<and> va mod PMM_PAGE_SIZE = 0 \<and> pa mod PMM_PAGE_SIZE = 0 \<and> vmm_get_phys r va k = None"
  shows "fst (vmm_map_page r va pa flags k)"
proof -
  let ?fl = "flags_to_pte flags"
  let ?a = "pml4_index va" and ?b = "pdpt_index va" and ?c = "pd_index va"
  have gp0: "gp (ent k) r va = None" using c by (auto simp: vmm_wf_get_phys [OF assms(1)])
  obtain pdpt k1 where g1: "get_next_level (phys_to_virt r) ?a True ?fl k = (pdpt, k1)" by fastforce
  obtain pd k2 where g2: "get_next_level pdpt ?b True ?fl k1 = (pd, k2)" by fastforce
  obtain pt k3 where g3: "get_next_level pd ?c True ?fl k2 = (pt, k3)" by fastforce
  let ?Q = "\<lambda>k'. gp (ent k') r va = gp (ent k) r va"
  have Q: "?Q k" by simp
  note nz = walk_succeeds [OF assms(1) gp0 assms(2) g1 g2 g3]
  obtain P where P: "pt = phys_to_virt P" "tab (ent k3) r [?a, ?b, ?c] = Some P" "gp (ent k3) r va = None"
    using walk_step(3) [where Q = ?Q, OF assms(1) Q level_inv_gp g1 g2 g3] nz gp0 by auto
  then have "\<not> bit (ent k3 P (pt_index va)) 0" using gp_of_leaf_table [OF P(2)] by (auto split: if_splits)
  then show ?thesis
    using c g1 g2 g3 nz P(1) by (simp add: vmm_map_page_def Let_def pte_bits ent_def [symmetric])
qed

text \<open>
  C8. \<open>vmm_map_page\<close> succeeds whenever it should: with three free frames for the page tables it
  may have to add, it returns true exactly when the address is canonical, both addresses are
  page aligned and the page is not mapped (by a 4 KiB or a huge page).
\<close>

theorem vmm_map_page_succeeds:
  assumes "vmm_wf k r" and "unat (used_frames (frames k)) + 3 \<le> unat (total_frames (frames k))"
  shows "fst (vmm_map_page r va pa flags k) \<longleftrightarrow>
    is_canonical va \<and> va mod PMM_PAGE_SIZE = 0 \<and> pa mod PMM_PAGE_SIZE = 0 \<and> vmm_get_phys r va k = None"
proof
  assume ok: "fst (vmm_map_page r va pa flags k)"
  then have m: "vmm_map_page r va pa flags k = (True, snd (vmm_map_page r va pa flags k))" by (simp add: prod_eq_iff)
  let ?Q = "\<lambda>k'. gp (ent k') r va = gp (ent k) r va"
  have Q: "?Q k" by simp
  from vmm_map_page_cases [where Q = ?Q, OF assms(1) Q level_inv_gp m]
  show "is_canonical va \<and> va mod PMM_PAGE_SIZE = 0 \<and> pa mod PMM_PAGE_SIZE = 0 \<and> vmm_get_phys r va k = None"
  proof cases
    case (2 k3 P)
    then show ?thesis using gp_of_leaf_table [OF 2(7)] by (simp add: vmm_wf_get_phys [OF assms(1)])
  qed simp
qed (rule vmm_map_page_ok [OF assms])


lemma leaf_isolated:
  assumes wf: "vmm_wf k r" "vmm_wf k s" and sep: "separate k r s"
    and p: "valid_path p" "length p = 3" "tab (ent k) r p = Some T" "hd p < 256" and i: "i < 512"
    and k': "k' = tbl_set (phys_to_virt T) i e k"
  shows "vmm_wf k' s" and "gp (ent k') s va = gp (ent k) s va" and "separate k' r s"
proof -
  have as: "as_wf (ent k) r (pmm_used (frames k))" and as': "as_wf (ent k) s (pmm_used (frames k))"
    using wf by (simp_all add: vmm_wf_def)
  have w: "one_write (ent k) (ent k') (pmm_used (frames k)) T i e"
    unfolding k' by (rule one_write_tbl_set [OF as_wfD(1) [OF as p(1,3)] i])
  have "T \<in> user_tables (ent k) r" using user_tablesI [OF p(1) _ p(3)] p(4) by blast
  then have "T \<notin> tables (ent k) s" using sep by (auto simp: separate_def)
  then have "ent k' V j = ent k V j" if "V \<in> tables (ent k) s" "j < 512" for V j
    using one_writeD [OF w, of V j] as_wfD [OF as'] that by (auto simp: tables_def)
  note u = untouched [OF as' this]
  show "vmm_wf k' s" "gp (ent k') s va = gp (ent k) s va" using u wf(2) by (simp_all add: vmm_wf_def k')
  have "user_tables (ent k') r = user_tables (ent k) r"
    unfolding user_tables_def using tab_leaf [OF as p(1-3) w] by (metis (no_types, lifting))
  then show "separate k' r s" using sep u(3) by (simp add: separate_def)
qed

lemma level_inv_isolated:
  assumes "pml4_index va < 256"
  shows "level_inv (\<lambda>k'. vmm_wf k' s \<and> separate k' r s \<and> (\<forall>v. gp (ent k') s v = x v)) r va al fl"
  unfolding level_inv_def using get_next_level_isolated assms by metis

text \<open>
  C10. Address spaces are isolated. Mapping a page into the user half of one address space changes
  no translation of another whose tables it does not share (the kernel half may be shared); the
  other stays well-formed and the two stay separate, so this holds for any sequence of mappings.
\<close>

theorem vmm_map_page_isolated:
  assumes "vmm_wf k r" and "vmm_wf k s" and "separate k r s" and "pml4_index va < 256"
    and "vmm_map_page r va pa flags k = (ok, k')"
  shows "vmm_wf k' s \<and> separate k' r s \<and> (\<forall>v. vmm_get_phys s v k' = vmm_get_phys s v k)"
proof -
  let ?Q = "\<lambda>k'. vmm_wf k' s \<and> separate k' r s \<and> (\<forall>v. gp (ent k') s v = gp (ent k) s v)"
  have Q: "?Q k" using assms by simp
  have "?Q k'"
    using vmm_map_page_cases [where Q = ?Q, OF assms(1) Q level_inv_isolated [OF assms(4)] assms(5)]
  proof cases
    case (2 k3 P)
    have p: "valid_path [pml4_index va, pdpt_index va, pd_index va]" "length [pml4_index va, pdpt_index va, pd_index va] = 3" by simp_all
    have "hd [pml4_index va, pdpt_index va, pd_index va] < 256" using assms(4) by simp
    note L = leaf_isolated [OF 2(5) _ _ p 2(7) this index_less(4) 2(9)]
    show ?thesis using L 2(6) by simp
  qed simp
  then show ?thesis by (simp add: vmm_wf_get_phys [OF assms(2)] vmm_wf_get_phys [of k' s])
qed

subsection \<open>User ranges\<close>

lemma page_offset_split: "unat (a AND NOT (0xFFF :: u64)) = unat a div 4096 * 4096"
proof -
  have "(0xFFF :: u64) = mask 12" by (simp add: mask_eq_exp_minus_1)
  then show ?thesis by (simp only: unat_and_not_mask) simp
qed

lemma canonical_below: "unat va < 2 ^ 47 \<Longrightarrow> is_canonical va"
proof -
  assume "unat va < 2 ^ 47"
  then have "unat (drop_bit 47 va) = 0" by (simp only: unat_drop_bit_eq) (simp add: drop_bit_eq_div)
  then show ?thesis by (simp add: is_canonical_def unat_eq_0)
qed

lemma readable_page_base:
  assumes "is_canonical va" "is_canonical (va AND NOT 0xFFF)"
  shows "vmm_is_user_readable r (va AND NOT 0xFFF) k = vmm_is_user_readable r va k"
    "vmm_is_user_writable r (va AND NOT 0xFFF) k = vmm_is_user_writable r va k"
  unfolding vmm_is_user_readable_def vmm_is_user_writable_def using assms
  by (simp_all only: indices_page_base)

text \<open>Every byte of a range below \<open>2 ^ 47\<close> is in one of the pages the loop visits, and conversely.\<close>

lemma page_of_byte: "(x :: nat) < l \<Longrightarrow> (d + x) div 4096 < (d + l + 4095) div 4096"
proof -
  assume "x < l"
  then have "(d + x + 4096) div 4096 \<le> (d + l + 4095) div 4096" by (intro div_le_mono) linarith
  then show ?thesis by simp
qed

lemma byte_of_page:
  assumes "j < (d + l + 4095) div 4096" "0 < l" "d < (4096 :: nat)"
  shows "j * 4096 - d < l" "(d + (j * 4096 - d)) div 4096 = j"
proof -
  have "Suc j * 4096 \<le> (d + l + 4095) div 4096 * 4096" using assms(1) by (intro mult_le_mono1) simp
  also have "\<dots> \<le> d + l + 4095" by (rule div_times_less_eq_dividend)
  finally show "j * 4096 - d < l" using assms(2) by simp
  show "(d + (j * 4096 - d)) div 4096 = j"
  proof (cases j)
    case (Suc j')
    then have "d + (j * 4096 - d) = j * 4096" using assms(3) by simp
    then show ?thesis by simp
  qed (use assms in simp)
qed

lemma page_addrs_cover:
  assumes P: "\<And>va. unat va < 2 ^ 47 \<Longrightarrow> P (va AND NOT 0xFFF) = P va"
    and range: "len \<noteq> 0" "unat start + unat len \<le> 2 ^ 47"
  shows "list_all P (page_addrs (start AND NOT 0xFFF) (start + len)) \<longleftrightarrow> (\<forall>i < unat len. P (start + of_nat i))"
proof -
  let ?b = "start AND NOT 0xFFF"
  define q d l where "q = unat start div 4096" and "d = unat start mod 4096" and "l = unat len"
  have s: "unat start = q * 4096 + d" "d < 4096" by (simp_all add: q_def d_def)
  have l: "0 < l" "q * 4096 + d + l \<le> 2 ^ 47" using range s by (simp_all add: l_def unat_gt_0)
  have e: "unat (start + len) = q * 4096 + d + l" using l(2) s(1) unat_plus_u64 [of start len] by (simp add: l_def)
  have b: "unat ?b = q * 4096" unfolding q_def by (rule page_offset_split)
  let ?n = "(d + l + 4095) div 4096"
  have pa: "page_addrs ?b (start + len) = map (\<lambda>j. ?b + of_nat j * PMM_PAGE_SIZE) [0..<?n]"
    by (simp only: page_addrs_def e b) simp
  have page: "(start + of_nat i) AND NOT 0xFFF = ?b + of_nat ((d + i) div 4096) * PMM_PAGE_SIZE"
    and low: "unat (start + of_nat i) < 2 ^ 47" if i: "i < l" for i
  proof -
    have u: "unat (start + of_nat i) = q * 4096 + (d + i)"
      using unat_plus_of_nat [of start i] i l(2) s(1) by simp
    then show "unat (start + of_nat i) < 2 ^ 47" using i l(2) by simp
    have "(d + i) div 4096 * 4096 \<le> d + i" by (rule div_times_less_eq_dividend)
    then have w: "unat (?b + of_nat ((d + i) div 4096) * PMM_PAGE_SIZE) = q * 4096 + (d + i) div 4096 * 4096"
      using unat_plus_of_nat [of ?b "(d + i) div 4096 * 4096"] b i l(2) by simp
    have dv: "(q * 4096 + (d + i)) div 4096 = q + (d + i) div 4096" by simp
    show "(start + of_nat i) AND NOT 0xFFF = ?b + of_nat ((d + i) div 4096) * PMM_PAGE_SIZE"
      by (simp only: word_unat_eq_iff page_offset_split u w dv) simp
  qed
  have "list_all P (page_addrs ?b (start + len)) \<longleftrightarrow> (\<forall>j < ?n. P (?b + of_nat j * PMM_PAGE_SIZE))"
    unfolding pa by (simp only: list_all_iff) auto
  also have "\<dots> \<longleftrightarrow> (\<forall>i < l. P (?b + of_nat ((d + i) div 4096) * PMM_PAGE_SIZE))"
    using page_of_byte byte_of_page [OF _ l(1) s(2)] by metis
  also have "\<dots> \<longleftrightarrow> (\<forall>i < l. P (start + of_nat i))"
    using page low P by metis
  finally show ?thesis by (simp add: l_def)
qed

lemma user_range_cond:
  fixes addr len :: u64
  assumes "len \<noteq> 0"
  shows "\<not> (addr + len < addr) \<and> \<not> (0x0000800000000000 < addr + len) \<longleftrightarrow> unat addr + unat len \<le> 2 ^ 47"
proof (cases "unat addr + unat len < 2 ^ 64")
  case True
  then have "unat (addr + len) = unat addr + unat len" by (rule unat_plus_u64)
  then show ?thesis by (simp add: word_less_nat_alt) linarith
next
  case False
  then have "unat (addr + len) = unat addr + unat len - 2 ^ 64"
    using u64_bound [of addr] u64_bound [of len] by (simp add: unat_word_ariths le_mod_geq)
  then show ?thesis using False u64_bound [of len] u64_bound [of addr] by (simp add: word_less_nat_alt) linarith
qed

lemma user_range_iff:
  assumes "len \<noteq> 0"
  shows "(user_range_readable r addr len k \<longleftrightarrow> unat addr + unat len \<le> 2 ^ 47 \<and>
            (\<forall>i < unat len. vmm_is_user_readable r (addr + of_nat i) k))
       \<and> (user_range_writable r addr len k \<longleftrightarrow> unat addr + unat len \<le> 2 ^ 47 \<and>
            (\<forall>i < unat len. vmm_is_user_writable r (addr + of_nat i) k))"
proof (cases "unat addr + unat len \<le> 2 ^ 47")
  case True
  have base: "vmm_is_user_readable r (va AND NOT 0xFFF) k = vmm_is_user_readable r va k"
    "vmm_is_user_writable r (va AND NOT 0xFFF) k = vmm_is_user_writable r va k" if "unat va < 2 ^ 47" for va
  proof -
    have "unat (va AND NOT 0xFFF) \<le> unat va" by (simp only: page_offset_split div_times_less_eq_dividend)
    then have "unat (va AND NOT 0xFFF) < 2 ^ 47" using that by (rule le_less_trans)
    note c = canonical_below [OF that] canonical_below [OF this]
    show "vmm_is_user_readable r (va AND NOT 0xFFF) k = vmm_is_user_readable r va k"
      "vmm_is_user_writable r (va AND NOT 0xFFF) k = vmm_is_user_writable r va k"
      by (rule readable_page_base [OF c])+
  qed
  note cover = page_addrs_cover [OF _ assms True]
  show ?thesis
    using True assms user_range_cond [OF assms, of addr]
    by (simp only: user_range_readable_def user_range_writable_def Let_def if_False
        cover [of "\<lambda>va. vmm_is_user_readable r va k", OF base(1)]
        cover [of "\<lambda>va. vmm_is_user_writable r va k", OF base(2)]) simp
next
  case False
  then have "addr + len < addr \<or> 0x0000800000000000 < addr + len"
    using user_range_cond [OF assms, of addr] by blast
  then show ?thesis using assms False by (auto simp: user_range_readable_def user_range_writable_def Let_def)
qed

text \<open>
  C12. The check that guards every user pointer is exact: \<open>user_range_readable\<close> (and
  \<open>user_range_writable\<close>) accepts a non-empty range exactly when it ends at or below the end of
  the user half, without wrapping round, and every single byte of it is on a page that user code
  may read (write). In particular no kernel address is ever accepted.
\<close>

theorem user_range_exact:
  assumes "len \<noteq> 0"
  shows "(user_range_readable r addr len k \<longleftrightarrow> unat addr + unat len \<le> 2 ^ 47 \<and>
            (\<forall>i < unat len. vmm_is_user_readable r (addr + of_nat i) k))
       \<and> (user_range_writable r addr len k \<longleftrightarrow> unat addr + unat len \<le> 2 ^ 47 \<and>
            (\<forall>i < unat len. vmm_is_user_writable r (addr + of_nat i) k))"
  by (rule user_range_iff [OF assms])

subsection \<open>New address spaces\<close>

lemma ent_copy_entries:
  assumes "frame_ok T" "frame_ok C" "T \<noteq> C" "\<forall>n \<in> set is. n < 512" "frame_ok U" "j < 512"
  shows "ent (copy_entries (phys_to_virt T) (phys_to_virt C) is k) U j
      = (if U = T \<and> unat j \<in> set is then ent k C j else ent k U j)"
  using assms(4)
proof (induction "is" arbitrary: k)
  case (Cons n ns)
  let ?k = "tbl_set (phys_to_virt T) (of_nat n) (ent k C (of_nat n)) k"
  have n: "n < 512" "of_nat n < (512 :: u64)" using Cons.prems by (simp_all add: of_nat_less_512)
  then have j: "j = of_nat n \<longleftrightarrow> unat j = n" by (auto simp: word_unat_eq_iff unat_of_nat)
  have "copy_entries (phys_to_virt T) (phys_to_virt C) (n # ns) k
      = copy_entries (phys_to_virt T) (phys_to_virt C) ns ?k" by (simp add: copy_entries_def ent_def)
  then show ?case using Cons.IH [of ?k] Cons.prems assms n(2) j
    by (auto simp: ent_tbl_set)
qed (simp add: copy_entries_def)

lemma copy_entries_fields [simp]:
  "frames (copy_entries d c is k) = frames k" "cr3 (copy_entries d c is k) = cr3 k"
  unfolding copy_entries_def by (induction "is" arbitrary: k) simp_all

lemma pmm_full_used:
  assumes "pmm_ready p" "\<forall>i < unat (total_frames p). bm_test (bitmap p) i"
  shows "used_frames p = total_frames p"
proof -
  have "bm_used (bitmap p) (unat (total_frames p)) = {..<unat (total_frames p)}"
    using assms(2) by (auto simp: bm_used_def)
  then show ?thesis using assms(1) by (simp add: pmm_ready_def pmm_inv_def word_unat_eq_iff)
qed

text \<open>The tables of a root that is empty in the user half and a copy of \<open>c\<close> in the kernel half.\<close>

lemma copied_root:
  assumes wf: "as_wf E c U" and new: "r \<notin> U" "frame_ok r"
    and same': "\<forall>V j. frame_ok V \<longrightarrow> V \<in> U \<longrightarrow> j < 512 \<longrightarrow> E' V j = E V j"
    and root': "\<forall>j < 512. E' r j = (if j < 256 then 0 else E c j)"
  shows "as_wf E' r (insert r U)" and "user_tables E' r = {r}"
    and "gp E' r va = (if pml4_index va < 256 then None else gp E c va)"
proof -
  have same: "E' V j = E V j" if "frame_ok V" "V \<in> U" "j < 512" for V j using same' that by blast
  have root: "E' r j = (if j < 256 then 0 else E c j)" if "j < 512" for j using root' that by blast
  have inU: "frame_ok V \<and> V \<in> U" if "valid_path q" "tab E c q = Some V" for q V
    using as_wfD [OF wf that] by blast
  have tc: "tab E' c p = tab E c p" if "valid_path p" for p
    using tab_same_link [of U E E' c p] same inU that by simp
  have tr: "tab E' r (i # is) = (if i < 256 then None else tab E c (i # is))" if v: "valid_path (i # is)" for i "is"
  proof -
    have "i < 512" using v by (simp add: valid_path_def)
    moreover have "E' c i = E c i" using same [of c i] inU [of "[]" c] calculation by simp
    ultimately show ?thesis using root [of i] tc [OF v] by (cases "i < 256") (simp_all only: tab.simps(2) nxt_0 option.case if_True if_False)
  qed
  have sub: "q = [] \<and> V = r \<or> q \<noteq> [] \<and> \<not> hd q < 256 \<and> tab E c q = Some V" if "valid_path q" "tab E' r q = Some V" for q V
    using that tr by (cases q) (auto split: if_splits)
  have "T = r" if "T \<in> user_tables E' r" for T
    using that sub unfolding user_tables_def by blast
  then show "user_tables E' r = {r}" using user_tablesI [OF valid_path_Nil, of E' r r] by auto
  have up: "bit (E' V j) 0 \<longrightarrow> \<not> bit (E' V j) 7"
    if q: "valid_path q" "length q \<le> 1" "tab E' r q = Some V" "j < 512" for q V j
    using sub [OF q(1,3)]
  proof (elim disjE conjE)
    assume "V = r"
    then show ?thesis using root [OF q(4)] as_wf_upper [OF wf valid_path_Nil _ tab.simps(1) q(4)] by simp
  next
    assume V: "tab E c q = Some V"
    then show ?thesis using as_wf_upper [OF wf q(1,2) V q(4)] same inU [OF q(1) V] q(4) by simp
  qed
  have uniq: "length p = 2 \<and> length q = 2 \<and> (\<forall>i < 512. bit (E' T i) 0 \<and> bit (E' T i) 7)"
    if p: "valid_path p" "valid_path q" "tab E' r p = Some T" "tab E' r q = Some T" "p \<noteq> q" for p q T
  proof -
    have "tab E c p = Some T \<and> tab E c q = Some T" using sub [OF p(1,3)] sub [OF p(2,4)] p(1,2,5) new(1) inU by blast
    moreover from this have "\<forall>i < 512. E' T i = E T i" using same inU [OF p(1)] by blast
    moreover from calculation have "length p = 2 \<and> length q = 2 \<and> (\<forall>i < 512. bit (E T i) 0 \<and> bit (E T i) 7)"
      using wf p unfolding as_wf_def by blast
    ultimately show ?thesis by simp
  qed
  have "frame_ok T \<and> T \<in> insert r U" if "valid_path p" "tab E' r p = Some T" for p T
    using sub [OF that] new(2) inU [OF that(1)] by blast
  then show "as_wf E' r (insert r U)" unfolding as_wf_def using up uniq by blast
  show "gp E' r va = (if pml4_index va < 256 then None else gp E c va)"
  proof (cases "pml4_index va < 256")
    case True
    then show ?thesis using tr [OF valid_indices(1) [of va]] by (simp add: gp_def)
  next
    case False
    have D: "E' D (pd_index va) = E D (pd_index va)" if "tab E c [pml4_index va, pdpt_index va] = Some D" for D
      using same inU [OF valid_indices(1) that] index_less by simp
    have P: "E' D (pt_index va) = E D (pt_index va)" if "tab E c [pml4_index va, pdpt_index va, pd_index va] = Some D" for D
      using same inU [OF valid_indices(2) that] index_less by simp
    show ?thesis using False tr [OF valid_indices(1) [of va]] tr [OF valid_indices(2) [of va]]
      by (simp add: gp_def Let_def D P split: option.split)
  qed
qed

text \<open>
  C11. \<open>vmm_create_address_space\<close> gives a fresh address space with an empty user half and the
  kernel half of the active one: it is well-formed, no user address translates in it, every
  kernel address translates as in the active space, none of the active space's tables is in its
  user half, and the active space is as it was. It fails only when no frame is free, and then
  nothing changes.
\<close>

theorem vmm_create_address_space_correct:
  assumes "vmm_wf k (vmm_get_current_pml4 k)" and "vmm_create_address_space k = (res, k')"
  shows "case res of
      None \<Rightarrow> k' = k \<and> used_frames (frames k) = total_frames (frames k)
    | Some r \<Rightarrow> vmm_wf k' r \<and> vmm_wf k' (vmm_get_current_pml4 k)
        \<and> separate k' r (vmm_get_current_pml4 k)
        \<and> (\<forall>v. vmm_get_phys r v k' =
             (if pml4_index v < 256 then None else vmm_get_phys (vmm_get_current_pml4 k) v k))
        \<and> (\<forall>v. vmm_get_phys (vmm_get_current_pml4 k) v k' = vmm_get_phys (vmm_get_current_pml4 k) v k)"
proof -
  let ?c = "vmm_get_current_pml4 k" and ?U = "pmm_used (frames k)"
  have ready: "pmm_ready (frames k)" "max_physical_address (frames k) \<le> 0x40000000"
    and as: "as_wf (ent k) ?c ?U" using assms(1) by (simp_all add: vmm_wf_def)
  have c: "frame_ok ?c" "?c \<in> ?U" using as_wfD [OF as valid_path_Nil tab.simps(1)] .
  obtain r p' where a: "pmm_alloc_page (frames k) = (r, p')" by (cases "pmm_alloc_page (frames k)")
  note A = pmm_alloc_page_ready [OF ready(1) a]
  show ?thesis
  proof (cases "r = 0")
    case True
    have "res = None" "k' = k" using assms(2) a A(3) True by (auto simp: vmm_create_address_space_def simp del: upt_rec_numeral)
    then show ?thesis using pmm_full_used [OF ready(1)] A(2) True by simp
  next
    case False
    let ?k2 = "zero_table (phys_to_virt r) [0..<256] (k\<lparr>frames := p'\<rparr>)"
    have k': "res = Some r" "k' = copy_entries (phys_to_virt r) (phys_to_virt ?c) [256..<512] ?k2"
      using assms(2) a False by (auto simp: vmm_create_address_space_def vmm_get_current_pml4_def Let_def simp del: upt_rec_numeral)
    have r: "r \<notin> ?U" "pmm_used p' = insert r ?U" "frame_ok r" "r \<noteq> ?c"
      using A(4,5) False pmm_used_bounds(2) [OF A(1), of r] pmm_alloc_bounds(1) [OF a ready(1)] ready(2) c(2) by auto
    have same: "ent k' V j = ent k V j" if "frame_ok V" "V \<in> ?U" "j < 512" for V j
      using that r c unfolding k'(2) by (subst ent_copy_entries) (auto simp: ent_zero_table simp del: upt_rec_numeral)
    have root: "ent k' r j = (if j < 256 then 0 else ent k ?c j)" if "j < 512" for j
      using that r c unfolding k'(2)
      by (subst ent_copy_entries) (auto simp: ent_zero_table word_less_nat_alt simp del: upt_rec_numeral)
    have sames: "\<forall>V j. frame_ok V \<longrightarrow> V \<in> ?U \<longrightarrow> j < 512 \<longrightarrow> ent k' V j = ent k V j"
      and roots: "\<forall>j < 512. ent k' r j = (if j < 256 then 0 else ent k ?c j)" using same root by blast+
    note R = copied_root [OF as r(1,3) sames roots]
    have "ent k' T j = ent k T j" if "T \<in> tables (ent k) ?c" "j < 512" for T j
      using that same as_wfD [OF as] by (auto simp: tables_def)
    note C = untouched [OF as this]
    have fr: "frames k' = p'" by (simp add: k'(2) del: upt_rec_numeral)
    have wf: "vmm_wf k' r" "vmm_wf k' ?c"
      using R(1) C(1) r(2) A(1) ready(2) pmm_alloc_bounds(1) [OF a ready(1)] as_wf_mono [OF C(1), of "insert r ?U"]
      by (auto simp: vmm_wf_def fr)
    have "separate k' r ?c"
      using R(2) C(3) as_wf_tables(1) [OF as] r(1) by (auto simp: separate_def)
    then show ?thesis
      using wf R(3) C(2) by (simp add: k'(1) vmm_wf_get_phys [OF wf(1)] vmm_wf_get_phys [OF wf(2)] vmm_wf_get_phys [OF assms(1)])
  qed
qed

section \<open>A machine with two empty address spaces\<close>

text \<open>
  Sixteen frames of which the upper eight are free, the roots of two address spaces in the
  frames at 0x2000 (the active one) and 0x3000, and memory all zero.
\<close>

definition vmm_example :: kmem where
  "vmm_example =
     \<lparr>ram = (\<lambda>_. 0),
      frames = \<lparr>bitmap = [0xFF, 0], total_frames = 16, used_frames = 8,
                max_physical_address = 0x10000, bitmap_phys_addr = 0x1000, bitmap_size = 2\<rparr>,
      cr3 = 0x2000\<rparr>"

lemma bm_used_filter: "bm_used bm n = set (filter (bm_test bm) [0..<n])"
  by (auto simp: bm_used_def)

lemma example_used: "bm_used [0xFF, 0] 16 = {0, 1, 2, 3, 4, 5, 6, 7}"
  unfolding bm_used_filter by (simp add: upt_rec bm_test_def) (auto simp: eval_nat_numeral)

lemma example_ready: "pmm_ready (frames vmm_example)"
proof -
  have "i < 8" if "i < 16" "of_nat i * 4096 < (0x1002 :: u64)" for i :: nat
  proof -
    have "unat (of_nat i * (4096 :: u64)) < 0x1002" using that(2) by (simp add: word_less_nat_alt)
    then show ?thesis using that(1) by (simp add: frame_addr)
  qed
  moreover have "bm_test [0xFF, 0] i" if "i < 8" for i
    using byte_full_iff [of "0xFF"] that by (simp add: bm_test_iff)
  ultimately show ?thesis
    by (auto simp: vmm_example_def pmm_ready_def pmm_inv_def example_used)
qed

lemma example_pmm_used: "0x2000 \<in> pmm_used (frames vmm_example)" "0x3000 \<in> pmm_used (frames vmm_example)"
  by (simp_all add: vmm_example_def pmm_used_def example_used)

lemma example_tab: "tab (ent vmm_example) r p = (if p = [] then Some r else None)"
  by (cases p) (simp_all add: tab.simps(2) ent_def tbl_get_def vmm_example_def rd64_def)

lemma example_wf: "r \<in> pmm_used (frames vmm_example) \<Longrightarrow> vmm_wf vmm_example r"
proof -
  assume r: "r \<in> pmm_used (frames vmm_example)"
  have m: "max_physical_address (frames vmm_example) \<le> 0x40000000" by (simp add: vmm_example_def)
  have "frame_ok r" using pmm_used_bounds(2) [OF example_ready m r] .
  moreover have "ent vmm_example T i = 0" for T i by (simp add: ent_def tbl_get_def vmm_example_def rd64_def)
  ultimately show ?thesis using r m example_ready by (auto simp: vmm_wf_def as_wf_def example_tab)
qed

lemma example_separate: "r \<noteq> s \<Longrightarrow> separate vmm_example r s"
  by (auto simp: separate_def user_tables_def tables_def example_tab split: if_splits)

lemma example_unmapped: "vmm_get_phys r va vmm_example = None"
  by (simp add: vmm_get_phys_def tbl_get_def vmm_example_def rd64_def Let_def)

lemma example_map_ok:
  "fst (vmm_map_page 0x2000 0x400000 0x5000 3 vmm_example)"
  by (rule vmm_map_page_ok [OF example_wf [OF example_pmm_used(1)]])
    (simp_all only: example_unmapped, simp_all add: is_canonical_def vmm_example_def)

theorem vmm_map_page_correct_witness:
  "vmm_get_phys 0x2000 0x400123 (snd (vmm_map_page 0x2000 0x400000 0x5000 3 vmm_example)) = Some 0x5123
   \<and> vmm_get_phys 0x2000 0x401000 (snd (vmm_map_page 0x2000 0x400000 0x5000 3 vmm_example)) = None"
proof -
  have "vmm_map_page 0x2000 0x400000 0x5000 3 vmm_example
      = (True, snd (vmm_map_page 0x2000 0x400000 0x5000 3 vmm_example))"
    using example_map_ok by (simp add: prod_eq_iff)
  from vmm_map_page_correct [OF example_wf [OF example_pmm_used(1)] this] show ?thesis
    by (simp add: example_unmapped is_canonical_def)
qed

theorem vmm_map_page_succeeds_witness:
  "fst (vmm_map_page 0x2000 0x400000 0x5000 3 vmm_example) \<and> \<not> fst (vmm_map_page 0x2000 0x400001 0x5000 3 vmm_example)"
proof -
  have room: "unat (used_frames (frames vmm_example)) + 3 \<le> unat (total_frames (frames vmm_example))"
    by (simp add: vmm_example_def)
  note s = vmm_map_page_succeeds [OF example_wf [OF example_pmm_used(1)] room]
  show ?thesis by (simp add: s example_unmapped is_canonical_def)
qed


theorem vmm_map_page_isolated_witness:
  "\<forall>v. vmm_get_phys 0x3000 v (snd (vmm_map_page 0x2000 0x400000 0x5000 3 vmm_example)) = vmm_get_phys 0x3000 v vmm_example"
proof -
  have "separate vmm_example 0x2000 0x3000" "pml4_index 0x400000 < 256"
    by (simp_all add: example_separate pml4_index_def)
  from vmm_map_page_isolated [OF example_wf [OF example_pmm_used(1)] example_wf [OF example_pmm_used(2)] this
      surjective_pairing]
  show ?thesis by blast
qed

theorem vmm_create_address_space_correct_witness:
  "vmm_get_current_pml4 vmm_example = 0x2000 \<and> fst (vmm_create_address_space vmm_example) = Some 0x8000
   \<and> vmm_wf (snd (vmm_create_address_space vmm_example)) 0x8000"
proof -
  have c: "vmm_get_current_pml4 vmm_example = 0x2000"
    by (simp add: vmm_get_current_pml4_def vmm_example_def)
  have f: "fst (vmm_create_address_space vmm_example) = Some 0x8000"
    by (simp add: vmm_create_address_space_def vmm_example_def pmm_alloc_page_def upt_rec Let_def del: upt_rec_numeral)
  have "vmm_wf vmm_example (vmm_get_current_pml4 vmm_example)" using example_wf [OF example_pmm_used(1)] c by simp
  from vmm_create_address_space_correct [OF this surjective_pairing] show ?thesis using c f by simp
qed

theorem user_range_exact_witness:
  "\<not> user_range_readable 0x2000 0xFFFFFFFF80000000 8 vmm_example \<and> \<not> user_range_writable 0x2000 0xFFFFFFFFFFFFFFF8 16 vmm_example"
  using user_range_exact [of 8 "0x2000" "0xFFFFFFFF80000000" vmm_example] user_range_exact [of 16 "0x2000" "0xFFFFFFFFFFFFFFF8" vmm_example]
  by simp

end
