(* ===== verification/Page_Mapper.thy ===== *)
theory Page_Mapper
  imports Kryos_Prelude
begin

unbundle bit_operations_syntax

text \<open>
  The interface between the virtual memory manager and the kernel heap that grows on it:
  \<open>alloc\<close> hands out a frame, \<open>map_frame\<close> backs one page with it, \<open>free\<close> gives back a frame that is
  still \<open>held\<close>, and \<open>xlate\<close> is the translation that results. The client is the loop that backs a
  run of pages, one frame each.
\<close>

locale page_mapper =
  fixes alloc :: "'s \<Rightarrow> u64 \<times> 's"
    and map_frame :: "u64 \<Rightarrow> u64 \<Rightarrow> 's \<Rightarrow> bool \<times> 's"
    and free :: "u64 \<Rightarrow> 's \<Rightarrow> 's outcome"
    and xlate :: "u64 \<Rightarrow> 's \<Rightarrow> u64 option"
    and invar :: "'s \<Rightarrow> bool"
    and held :: "u64 \<Rightarrow> 's \<Rightarrow> bool"
  assumes alloc_invar: "invar s \<Longrightarrow> alloc s = (pa, s') \<Longrightarrow> invar s'"
    and alloc_held: "invar s \<Longrightarrow> alloc s = (pa, s') \<Longrightarrow> pa \<noteq> 0 \<Longrightarrow> held pa s'"
    and alloc_xlate: "invar s \<Longrightarrow> alloc s = (pa, s') \<Longrightarrow> xlate v s' = xlate v s"
    and map_invar: "invar s \<Longrightarrow> held pa s \<Longrightarrow> map_frame va pa s = (ok, s') \<Longrightarrow> invar s'"
    and map_held: "invar s \<Longrightarrow> held pa s \<Longrightarrow> map_frame va pa s = (False, s') \<Longrightarrow> held pa s'"
    and map_xlate: "invar s \<Longrightarrow> held pa s \<Longrightarrow> map_frame va pa s = (ok, s') \<Longrightarrow>
      xlate v s' = (if ok \<and> v AND NOT 0xFFF = va then Some (pa + (v AND 0xFFF)) else xlate v s)"
    and map_mapped: "invar s \<Longrightarrow> held pa s \<Longrightarrow> map_frame va pa s = (True, s') \<Longrightarrow> xlate va s' \<noteq> None"
    and free_ok: "invar s \<Longrightarrow> held pa s \<Longrightarrow> \<exists>s'. free pa s = Inr s' \<and> invar s' \<and> (\<forall>v. xlate v s' = xlate v s)"
begin

fun grow :: "nat \<Rightarrow> u64 \<Rightarrow> 's \<Rightarrow> (bool \<times> u64 \<times> 's) outcome" where
  "grow 0 va s = Inr (True, va, s)"
| "grow (Suc n) va s =
     (case alloc s of (pa, s1) \<Rightarrow>
        if pa = 0 then Inr (False, va, s1)
        else (case map_frame va pa s1 of (ok, s2) \<Rightarrow>
          if \<not> ok then bindF (free pa s2) (\<lambda>s3. Inr (False, va, s3))
          else grow n (va + 4096) s2))"

lemma grow_spec:
  assumes "invar s"
  shows "\<exists>ok m s'. grow n va s = Inr (ok, va + of_nat m * 4096, s') \<and> m \<le> n \<and> (ok \<longrightarrow> m = n) \<and> invar s'
    \<and> (\<forall>j < m. xlate (va + of_nat j * 4096) s' \<noteq> None) \<and> (\<forall>v. xlate v s \<noteq> None \<longrightarrow> xlate v s' \<noteq> None)"
  using assms
proof (induction n arbitrary: va s)
  case 0
  show ?case by (rule exI [of _ True], rule exI [of _ 0], rule exI [of _ s]) (use 0 in simp)
next
  case (Suc n)
  obtain pa s1 where a: "alloc s = (pa, s1)" by (cases "alloc s")
  obtain ok s2 where mf: "map_frame va pa s1 = (ok, s2)" by (cases "map_frame va pa s1")
  note A = alloc_invar [OF Suc.prems a] alloc_xlate [OF Suc.prems a] alloc_held [OF Suc.prems a]
  consider (oom) "pa = 0" | (no_map) "pa \<noteq> 0" "\<not> ok" | (mapped) "pa \<noteq> 0" "ok" by blast
  then show ?case
  proof cases
    case oom
    show ?thesis
      by (rule exI [of _ False], rule exI [of _ 0], rule exI [of _ s1]) (use oom A a in simp)
  next
    case no_map
    note M = map_invar [OF A(1) A(3) mf] map_held [OF A(1) A(3)] map_xlate [OF A(1) A(3) mf]
    obtain s3 where f: "free pa s2 = Inr s3" "invar s3" "\<forall>v. xlate v s3 = xlate v s2"
      using free_ok [of s2 pa] M no_map mf by auto
    show ?thesis
      by (rule exI [of _ False], rule exI [of _ 0], rule exI [of _ s3]) (use no_map A M a mf f in simp)
  next
    case mapped
    then have mt: "map_frame va pa s1 = (True, s2)" using mf by simp
    note held = A(3) [OF mapped(1)]
    note M = map_invar [OF A(1) held mt] map_xlate [OF A(1) held mt]
    have here: "xlate va s2 \<noteq> None" by (rule map_mapped [OF A(1) held mt])
    have keep: "xlate v s2 \<noteq> None" if "xlate v s \<noteq> None" for v
      using M(2) [of v] that A(2) [of v] mapped by auto
    obtain ok' m s' where IH: "grow n (va + 4096) s2 = Inr (ok', va + 4096 + of_nat m * 4096, s')" "m \<le> n"
      "ok' \<longrightarrow> m = n" "invar s'" "\<forall>j < m. xlate (va + 4096 + of_nat j * 4096) s' \<noteq> None"
      "\<forall>v. xlate v s2 \<noteq> None \<longrightarrow> xlate v s' \<noteq> None"
      using Suc.IH [of s2 "va + 4096"] M(1) mapped by auto
    have "xlate (va + of_nat j * 4096) s' \<noteq> None" if "j < Suc m" for j
    proof (cases j)
      case 0
      then show ?thesis using here IH(6) by simp
    next
      case (Suc i)
      then have "va + of_nat j * 4096 = va + 4096 + of_nat i * 4096" by (simp add: algebra_simps)
      moreover have "xlate (va + 4096 + of_nat i * 4096) s' \<noteq> None" using IH(5) that Suc by blast
      ultimately show ?thesis by metis
    qed
    then show ?thesis
      by (intro exI [of _ ok'] exI [of _ "Suc m"] exI [of _ s'])
        (use mapped a mf IH keep in \<open>simp add: algebra_simps\<close>)
  qed
qed

end

end
