(* ===== verification/VMM_Mapper.thy ===== *)
theory VMM_Mapper
  imports VMM_Correct Page_Mapper
begin

unbundle bit_operations_syntax

text \<open>
  The virtual memory manager on an address space provides the interface that the kernel heap
  grows on: the frames come from the physical memory manager, a page is mapped writable, and a
  frame that is held is in use, above the reserved frames, and not one of the page tables.
\<close>

definition vm_alloc :: "kmem \<Rightarrow> u64 \<times> kmem" where
  "vm_alloc k = (case pmm_alloc_page (frames k) of (pa, p') \<Rightarrow> (pa, k\<lparr>frames := p'\<rparr>))"

definition vm_held :: "u64 \<Rightarrow> u64 \<Rightarrow> kmem \<Rightarrow> bool" where
  "vm_held r pa k \<longleftrightarrow> pa \<in> pmm_used (frames k) \<and> pa \<notin> tables (ent k) r
     \<and> bitmap_phys_addr (frames k) + bitmap_size (frames k) \<le> pa"

lemma canonical_page: "is_canonical (v AND NOT 0xFFF) = is_canonical v"
proof -
  have "drop_bit 47 (v AND NOT 0xFFF) = drop_bit 47 v"
    by (rule bit_eqI) (simp only: bit_drop_bit_eq comp_def bit_page_base, simp)
  then show ?thesis by (simp add: is_canonical_def)
qed

lemma vmm_get_phys_frames: "vmm_get_phys r v (k\<lparr>frames := p\<rparr>) = vmm_get_phys r v k"
proof -
  have eq: "tbl_get (k\<lparr>frames := p\<rparr>) = tbl_get k" by (intro ext) (simp add: tbl_get_def)
  show ?thesis unfolding vmm_get_phys_def eq ..
qed

lemma vm_alloc_spec:
  assumes "vmm_wf k r" "vm_alloc k = (pa, k')"
  shows "vmm_wf k' r" and "pa \<noteq> 0 \<Longrightarrow> vm_held r pa k'"
proof -
  have ready: "pmm_ready (frames k)" "max_physical_address (frames k) \<le> 0x40000000"
    and as: "as_wf (ent k) r (pmm_used (frames k))" using assms(1) by (simp_all add: vmm_wf_def)
  have a: "pmm_alloc_page (frames k) = (pa, frames k')" and k': "k' = k\<lparr>frames := frames k'\<rparr>"
    using assms(2) by (auto simp: vm_alloc_def split: prod.splits)
  have e: "ent k' = ent k" by (subst k') simp
  note A = pmm_alloc_page_ready [OF ready(1) a] and B = pmm_alloc_bounds [OF a ready(1)]
  have mono: "pmm_used (frames k) \<subseteq> pmm_used (frames k')" using A(3,5) by (cases "pa = 0") auto
  then show "vmm_wf k' r" using A(1) B(1) ready(2) as_wf_mono [OF as] by (simp add: vmm_wf_def e)
  show "vm_held r pa k'" if "pa \<noteq> 0"
    using that A(4,5) as_wf_tables(1) [OF as] pmm_alloc_page_above [OF ready(1) a that] B
    by (auto simp: vm_held_def e)
qed

lemma level_inv_held:
  "level_inv (\<lambda>k'. pmm_used U \<subseteq> pmm_used (frames k') \<and> pa \<in> pmm_used U \<and> pa \<notin> tables (ent k') r
      \<and> bitmap_phys_addr (frames k') = b \<and> bitmap_size (frames k') = z) r va al fl"
  unfolding level_inv_def
proof (intro allI impI, elim conjE)
  fix k p i T ptr k'
  assume H: "pmm_used U \<subseteq> pmm_used (frames k)" "pa \<in> pmm_used U" "pa \<notin> tables (ent k) r"
    "bitmap_phys_addr (frames k) = b" "bitmap_size (frames k) = z"
    and wf: "vmm_wf k r" and p: "valid_path (p @ [i])" "tab (ent k) r p = Some T"
    and g: "get_next_level (phys_to_virt T) i al fl k = (ptr, k')"
  have vp: "valid_path p" "i < 512" using p(1) by simp_all
  have ready: "pmm_ready (frames k)" and as: "as_wf (ent k) r (pmm_used (frames k))"
    using wf by (simp_all add: vmm_wf_def)
  note T = as_wfD [OF as vp(1) p(2)]
  from wf T vp(2) g
  show "pmm_used U \<subseteq> pmm_used (frames k') \<and> pa \<in> pmm_used U \<and> pa \<notin> tables (ent k') r
      \<and> bitmap_phys_addr (frames k') = b \<and> bitmap_size (frames k') = z"
  proof (cases rule: get_next_level_cases)
    case fail
    then show ?thesis using H by simp
  next
    case (present F)
    have *: "same_link (ent k V j) (ent k' V j)" if "frame_ok V" "V \<in> pmm_used (frames k)" "j < 512" for V j
      using one_writeD [OF present(5), of V j] that same_link_raised by auto
    have "tab (ent k') r q = tab (ent k) r q" if "valid_path q" for q
      using tab_same_link [of "pmm_used (frames k)" "ent k" "ent k'" r q] * as_wfD [OF as] that by blast
    then show ?thesis using H present(3) by (auto simp: tables_def)
  next
    case (new F)
    note A = pmm_alloc_page_ready [OF ready new(3)]
    have N: "nxt (raised fl (F OR 1)) = Some F" using nxt_new_entry new(5) .
    note tabs = tab_new_table [OF as p new(1) N A(4) [OF new(4)] new(7,8)]
    show ?thesis using H A(4,5) [OF new(4)] pmm_alloc_bounds [OF new(3) ready] tabs
      by (auto simp: tables_def split: if_splits)
  qed
qed

lemma vm_map_held:
  assumes "vmm_wf k r" "vm_held r pa k" "vmm_map_page r va pa flags k = (False, k')"
  shows "vm_held r pa k'"
proof -
  let ?Q = "\<lambda>k'. pmm_used (frames k) \<subseteq> pmm_used (frames k') \<and> pa \<in> pmm_used (frames k) \<and> pa \<notin> tables (ent k') r
      \<and> bitmap_phys_addr (frames k') = bitmap_phys_addr (frames k) \<and> bitmap_size (frames k') = bitmap_size (frames k)"
  have "?Q k" using assms(2) by (simp add: vm_held_def)
  from vmm_map_page_cases [where Q = ?Q, OF assms(1) this level_inv_held assms(3)]
  show ?thesis using assms(2) by cases (auto simp: vm_held_def)
qed

lemma vm_free_ok:
  assumes "vmm_wf k r" "vm_held r pa k"
  shows "\<exists>k'. free_frame pa k = Inr k' \<and> vmm_wf k' r \<and> (\<forall>v. vmm_get_phys r v k' = vmm_get_phys r v k)"
proof -
  have ready: "pmm_ready (frames k)" and as: "as_wf (ent k) r (pmm_used (frames k))"
    using assms(1) by (simp_all add: vmm_wf_def)
  have pa: "pa \<in> pmm_used (frames k)" using assms(2) by (simp add: vm_held_def)
  obtain p' where p': "pmm_free_page pa (frames k) = Inr p'"
    using pmm_free_page_ok [of "frames k" pa] assms(2) ready by (auto simp: vm_held_def pmm_ready_def)
  note F = pmm_free_page_ready [OF ready pa p']
  have "max_physical_address p' = max_physical_address (frames k)"
    using p' by (auto simp: pmm_free_page_def Let_def split: if_splits)
  moreover have "as_wf (ent k) r (pmm_used p')"
    using as_wf_mono [OF as_wf_tables(2) [OF as]] as_wf_tables(1) [OF as] assms(2) F(2) by (auto simp: vm_held_def)
  ultimately have "vmm_wf (k\<lparr>frames := p'\<rparr>) r" using assms(1) F(1) by (simp add: vmm_wf_def)
  then show ?thesis using p' by (simp add: free_frame_def vmm_get_phys_frames)
qed

lemma vm_map_spec:
  assumes "vmm_wf k r" "vm_held r pa k" "vmm_map_page r va pa flags k = (ok, k')"
  shows "vmm_wf k' r"
    and "vmm_get_phys r v k' = (if ok \<and> v AND NOT 0xFFF = va then Some (pa + (v AND 0xFFF)) else vmm_get_phys r v k)"
    and "ok \<Longrightarrow> vmm_get_phys r va k' \<noteq> None"
proof -
  have "frame_ok pa" using assms(1,2) pmm_used_bounds(2) by (auto simp: vmm_wf_def vm_held_def)
  then have "pa AND PTE_FRAME_MASK = pa" by (simp add: frame_ok_def pte_frame_def)
  note S = vmm_map_page_spec [OF assms(1,3) this]
  have c: "is_canonical va \<and> va AND NOT 0xFFF = va" if ok
    using assms(3) that page_base_self [of va] by (auto simp: vmm_map_page_def split: if_splits)
  show "vmm_wf k' r" using S by blast
  show "vmm_get_phys r v k' = (if ok \<and> v AND NOT 0xFFF = va then Some (pa + (v AND 0xFFF)) else vmm_get_phys r v k)"
    using S c canonical_page [of v] by metis
  show "ok \<Longrightarrow> vmm_get_phys r va k' \<noteq> None" using S c by (metis option.distinct(1))
qed

interpretation vmm_pm: page_mapper vm_alloc "\<lambda>va pa. vmm_map_page r va pa VMM_FLAG_WRITABLE"
  free_frame "vmm_get_phys r" "\<lambda>k. vmm_wf k r" "vm_held r" for r
proof (unfold_locales, goal_cases)
  case 1
  then show ?case by (rule vm_alloc_spec(1))
next
  case 2
  then show ?case by (rule vm_alloc_spec(2))
next
  case (3 s pa s' v)
  then show ?case by (auto simp: vm_alloc_def vmm_get_phys_frames split: prod.splits)
next
  case 4
  then show ?case by (rule vm_map_spec(1))
next
  case 5
  then show ?case by (rule vm_map_held)
next
  case 6
  then show ?case by (rule vm_map_spec(2))
next
  case 7
  then show ?case by (rule vm_map_spec(3)) simp
next
  case 8
  then show ?case by (rule vm_free_ok)
qed

end
