(* ===== verification/Heap.thy ===== *)
theory Heap
  imports VMM_Mapper
begin

unbundle bit_operations_syntax

text \<open>
  The kernel heap, \<open>kernel/memory/heap.c\<close>: one doubly linked list of blocks, free and used,
  that tile the committed part of the heap region. Block headers are a store from addresses to
  records, with pointers as addresses and NULL as 0; the static variables of the file are the
  fields of the state, beside the machine of the virtual memory manager and the root of the
  kernel's address space. Saving and restoring the interrupt flag has no effect on this state.
  A loop over the list, or the retry loop of \<open>kmalloc\<close>, gives \<open>None\<close> when it never ends.
\<close>

section \<open>Definitions\<close>

abbreviation HEAP_MAGIC :: u64 where "HEAP_MAGIC \<equiv> 0xC001BEEFDEADBEEF"
abbreviation HEAP_FREE :: u64 where "HEAP_FREE \<equiv> 0"
abbreviation HEAP_USED :: u64 where "HEAP_USED \<equiv> 0xFFFFFFFFFFFFFFFF"
abbreviation KERNEL_HEAP_BASE :: u64 where "KERNEL_HEAP_BASE \<equiv> 0xFFFFC00000000000"
abbreviation KERNEL_HEAP_MAX :: u64 where "KERNEL_HEAP_MAX \<equiv> 0xFFFFC00040000000"

text \<open>\<open>sizeof(struct heap_block)\<close>\<close>

abbreviation HB_SIZE :: u64 where "HB_SIZE \<equiv> 48"

record heap_block =
  bmagic :: u64
  bsize :: u64
  bstate :: u64
  bnext :: u64
  bprev :: u64

record heap =
  heap_start :: u64
  heap_committed_end :: u64
  heap_reserved_end :: u64
  head :: u64
  blocks :: "u64 \<Rightarrow> heap_block"
  vm :: kmem
  kroot :: u64

definition kheap_init :: "u64 \<Rightarrow> heap \<Rightarrow> heap" where
  "kheap_init virtual_base h =
     h\<lparr>heap_start := virtual_base, heap_committed_end := virtual_base,
       heap_reserved_end := KERNEL_HEAP_MAX, head := 0\<rparr>"

text \<open>The loop of \<open>expand_heap\<close> with \<open>n\<close> pages to go.\<close>

fun expand_loop :: "nat \<Rightarrow> heap \<Rightarrow> (bool \<times> heap) outcome" where
  "expand_loop 0 h = Inr (True, h)"
| "expand_loop (Suc n) h =
     (let (phys, p') = pmm_alloc_page (frames (vm h)); h1 = h\<lparr>vm := (vm h)\<lparr>frames := p'\<rparr>\<rparr> in
      if phys = 0 then Inr (False, h1)
      else
        let (mapped, k') = vmm_map_page (kroot h1) (heap_committed_end h1) phys VMM_FLAG_WRITABLE (vm h1);
            h2 = h1\<lparr>vm := k'\<rparr> in
        if \<not> mapped then
          bindF (pmm_free_page phys (frames (vm h2))) (\<lambda>p. Inr (False, h2\<lparr>vm := (vm h2)\<lparr>frames := p\<rparr>\<rparr>))
        else expand_loop n (h2\<lparr>heap_committed_end := heap_committed_end h2 + PMM_PAGE_SIZE\<rparr>))"

definition expand_heap :: "u64 \<Rightarrow> heap \<Rightarrow> (bool \<times> heap) outcome" where
  "expand_heap bytes h =
     (let pages_needed = align_up bytes PMM_PAGE_SIZE div PMM_PAGE_SIZE in
      if heap_reserved_end h < heap_committed_end h + pages_needed * PMM_PAGE_SIZE then Inr (False, h)
      else expand_loop (unat pages_needed) h)"

text \<open>
  The inner loop of \<open>kmalloc\<close>: the first free block that is large enough, or 0, and the last
  block before it.
\<close>

partial_function (option) find_fit :: "(u64 \<Rightarrow> heap_block) \<Rightarrow> u64 \<Rightarrow> u64 \<Rightarrow> u64 \<Rightarrow> (u64 \<times> u64) option" where
  "find_fit B aligned_size cur tail =
     (if cur = 0 then Some (0, tail)
      else if bstate (B cur) = HEAP_FREE \<and> aligned_size \<le> bsize (B cur) then Some (cur, tail)
      else find_fit B aligned_size (bnext (B cur)) cur)"

definition upd_blk :: "u64 \<Rightarrow> (heap_block \<Rightarrow> heap_block) \<Rightarrow> (u64 \<Rightarrow> heap_block) \<Rightarrow> u64 \<Rightarrow> heap_block" where
  "upd_blk a f B = B(a := f (B a))"

text \<open>Taking the free block \<open>cur\<close>, split when the rest can hold a header and 16 bytes.\<close>

definition take_block :: "u64 \<Rightarrow> u64 \<Rightarrow> (u64 \<Rightarrow> heap_block) \<Rightarrow> u64 \<Rightarrow> heap_block" where
  "take_block cur aligned_size B =
     (let block_extent = HB_SIZE + aligned_size;
          remaining = bsize (B cur) - aligned_size;
          B1 = (if HB_SIZE + 16 \<le> remaining then
                  let new_block = cur + block_extent;
                      A1 = upd_blk new_block (\<lambda>b. b\<lparr>bmagic := HEAP_MAGIC, bsize := remaining - HB_SIZE,
                             bstate := HEAP_FREE\<rparr>) B;
                      A2 = upd_blk new_block (\<lambda>b. b\<lparr>bprev := cur, bnext := bnext (A1 cur)\<rparr>) A1;
                      A3 = (if bnext (A2 new_block) \<noteq> 0
                            then upd_blk (bnext (A2 new_block)) (\<lambda>b. b\<lparr>bprev := new_block\<rparr>) A2 else A2)
                  in upd_blk cur (\<lambda>b. b\<lparr>bnext := new_block, bsize := aligned_size\<rparr>) A3
                else B)
      in upd_blk cur (\<lambda>b. b\<lparr>bstate := HEAP_USED\<rparr>) B1)"

text \<open>The block list after the heap has grown from \<open>prev_end\<close>.\<close>

definition grow_list :: "u64 \<Rightarrow> u64 \<Rightarrow> heap \<Rightarrow> heap" where
  "grow_list prev_end tail h =
     (if prev_end < heap_committed_end h then
        if tail \<noteq> 0 \<and> bstate (blocks h tail) = HEAP_FREE then
          h\<lparr>blocks := upd_blk tail (\<lambda>b. b\<lparr>bsize := bsize b + (heap_committed_end h - prev_end)\<rparr>) (blocks h)\<rparr>
        else
          let B1 = upd_blk prev_end (\<lambda>b. b\<lparr>bmagic := HEAP_MAGIC,
                     bsize := heap_committed_end h - prev_end - HB_SIZE, bstate := HEAP_FREE,
                     bnext := 0, bprev := tail\<rparr>) (blocks h)
          in if tail \<noteq> 0 then h\<lparr>blocks := upd_blk tail (\<lambda>b. b\<lparr>bnext := prev_end\<rparr>) B1\<rparr>
             else h\<lparr>blocks := B1, head := prev_end\<rparr>
      else h)"

partial_function (option) kmalloc_loop :: "u64 \<Rightarrow> heap \<Rightarrow> (u64 \<times> heap) outcome option" where
  "kmalloc_loop aligned_size h =
     (case find_fit (blocks h) aligned_size (head h) 0 of
        None \<Rightarrow> None
      | Some (cur, tail) \<Rightarrow>
          if cur \<noteq> 0
          then Some (Inr (cur + HB_SIZE, h\<lparr>blocks := take_block cur aligned_size (blocks h)\<rparr>))
          else
            (case expand_heap (HB_SIZE + aligned_size) h of
               Inl f \<Rightarrow> Some (Inl f)
             | Inr (expanded, h1) \<Rightarrow>
                 if expanded then kmalloc_loop aligned_size (grow_list (heap_committed_end h) tail h1)
                 else Some (Inr (0, grow_list (heap_committed_end h) tail h1))))"

definition kmalloc :: "u64 \<Rightarrow> heap \<Rightarrow> (u64 \<times> heap) outcome option" where
  "kmalloc sz h =
     (if sz = 0 then Some (Inr (0, h)) else kmalloc_loop (align_up sz 16) h)"

text \<open>\<open>block\<close> swallows its successor \<open>nb\<close>: the statements both coalescing steps of \<open>kfree\<close> run.\<close>

definition absorb :: "u64 \<Rightarrow> u64 \<Rightarrow> (u64 \<Rightarrow> heap_block) \<Rightarrow> u64 \<Rightarrow> heap_block" where
  "absorb block nb B =
     (let B1 = upd_blk block (\<lambda>b. b\<lparr>bsize := bsize b + (HB_SIZE + bsize (B nb))\<rparr>) B;
          B2 = upd_blk block (\<lambda>b. b\<lparr>bnext := bnext (B1 nb)\<rparr>) B1
      in if bnext (B2 block) \<noteq> 0 then upd_blk (bnext (B2 block)) (\<lambda>b. b\<lparr>bprev := block\<rparr>) B2 else B2)"

definition kfree :: "u64 \<Rightarrow> heap \<Rightarrow> heap outcome" where
  "kfree addr h =
     (if addr = 0 then Inr h
      else if \<not> (heap_start h + HB_SIZE \<le> addr \<and> addr < heap_committed_end h) then Inl (Panic ''heap range'')
      else if addr mod 16 \<noteq> 0 then Inl (Panic ''heap alignment'')
      else
        let block = addr - HB_SIZE; B = blocks h in
        if bmagic (B block) \<noteq> HEAP_MAGIC then Inl (Panic ''heap magic'')
        else if bstate (B block) \<noteq> HEAP_USED then Inl (Panic ''heap state'')
        else
          let B0 = upd_blk block (\<lambda>b. b\<lparr>bstate := HEAP_FREE\<rparr>) B;
              B1 = (if bnext (B0 block) \<noteq> 0 \<and> bstate (B0 (bnext (B0 block))) = HEAP_FREE
                    then absorb block (bnext (B0 block)) B0 else B0);
              B2 = (if bprev (B1 block) \<noteq> 0 \<and> bstate (B1 (bprev (B1 block))) = HEAP_FREE
                    then absorb (bprev (B1 block)) block B1 else B1)
          in Inr (h\<lparr>blocks := B2\<rparr>))"

text \<open>The checks of \<open>kheap_verify\<close> on one block, in the order of the code.\<close>

definition verify_block :: "heap \<Rightarrow> u64 \<Rightarrow> bool" where
  "verify_block h cur =
     (let b = blocks h cur; extent = HB_SIZE + bsize b in
      heap_start h \<le> cur \<and> cur < heap_committed_end h
    \<and> cur + extent \<le> heap_committed_end h
    \<and> (cur + HB_SIZE) mod 16 = 0 \<and> bsize b mod 16 = 0 \<and> extent mod 16 = 0
    \<and> (if bnext b \<noteq> 0 then bprev (blocks h (bnext b)) = cur \<and> cur + extent = bnext b
       else cur + extent = heap_committed_end h)
    \<and> (if bprev b \<noteq> 0 then bnext (blocks h (bprev b)) = cur else cur = head h)
    \<and> (bstate b = HEAP_FREE \<and> bnext b \<noteq> 0 \<longrightarrow> bstate (blocks h (bnext b)) = HEAP_USED))"

partial_function (option) verify_loop :: "heap \<Rightarrow> u64 \<Rightarrow> u64 \<Rightarrow> unit outcome option" where
  "verify_loop h cur total_extent =
     (if cur = 0 then
        if total_extent = heap_committed_end h - heap_start h then Some (Inr ()) else Some (Inl (Panic ''heap verify''))
      else if \<not> verify_block h cur then Some (Inl (Panic ''heap verify''))
      else verify_loop h (bnext (blocks h cur)) (total_extent + (HB_SIZE + bsize (blocks h cur))))"

definition kheap_verify :: "heap \<Rightarrow> unit outcome option" where
  "kheap_verify h = (if head h = 0 then Some (Inr ()) else verify_loop h (head h) 0)"

record kheap_stats =
  virtual_reserved :: u64
  virtual_committed :: u64
  allocated_bytes :: u64
  free_bytes :: u64
  block_count :: u64
  free_block_count :: u64

partial_function (option) stats_loop :: "(u64 \<Rightarrow> heap_block) \<Rightarrow> u64 \<Rightarrow> kheap_stats \<Rightarrow> kheap_stats option" where
  "stats_loop B cur s =
     (if cur = 0 then Some s
      else
        let s1 = s\<lparr>block_count := block_count s + 1\<rparr>;
            s2 = (if bstate (B cur) = HEAP_FREE
                  then s1\<lparr>free_block_count := free_block_count s1 + 1, free_bytes := free_bytes s1 + bsize (B cur)\<rparr>
                  else s1\<lparr>allocated_bytes := allocated_bytes s1 + bsize (B cur)\<rparr>)
        in stats_loop B (bnext (B cur)) s2)"

definition kheap_get_stats :: "heap \<Rightarrow> kheap_stats option" where
  "kheap_get_stats h =
     stats_loop (blocks h) (head h)
       \<lparr>virtual_reserved = heap_reserved_end h - heap_start h,
        virtual_committed = heap_committed_end h - heap_start h,
        allocated_bytes = 0, free_bytes = 0, block_count = 0, free_block_count = 0\<rparr>"

end
