(* ===== verification/Heap_List.thy ===== *)
theory Heap_List
  imports Heap
begin

text \<open>
  The heap as a list of blocks: the predicate that relates the linked block headers to the list,
  and what searching, splitting and merging do to it.
\<close>

section \<open>The block list\<close>

text \<open>
  The abstract heap is the list of its blocks in address order, each with its address, its
  capacity and its state. \<open>rep B p pos bs nx\<close> says that the store \<open>B\<close> holds this list from
  address \<open>pos\<close> on, without gaps, with \<open>p\<close> before it and \<open>nx\<close> behind it.
\<close>

type_synonym blk = "u64 \<times> u64 \<times> u64"

fun first :: "blk list \<Rightarrow> u64 \<Rightarrow> u64" where
  "first [] nx = nx"
| "first ((a, sz, st) # bs) nx = a"

fun lastp :: "u64 \<Rightarrow> blk list \<Rightarrow> u64" where
  "lastp p [] = p"
| "lastp p ((a, sz, st) # bs) = lastp a bs"

fun endp :: "nat \<Rightarrow> blk list \<Rightarrow> nat" where
  "endp pos [] = pos"
| "endp pos ((a, sz, st) # bs) = endp (pos + 48 + unat sz) bs"

fun rep :: "(u64 \<Rightarrow> heap_block) \<Rightarrow> u64 \<Rightarrow> nat \<Rightarrow> blk list \<Rightarrow> u64 \<Rightarrow> bool" where
  "rep B p pos [] nx = True"
| "rep B p pos ((a, sz, st) # bs) nx \<longleftrightarrow>
     unat a = pos
   \<and> B a = \<lparr>bmagic = HEAP_MAGIC, bsize = sz, bstate = st, bnext = first bs nx, bprev = p\<rparr>
   \<and> rep B a (pos + 48 + unat sz) bs nx"

abbreviation addrs :: "blk list \<Rightarrow> u64 set" where
  "addrs bs \<equiv> fst ` set bs"

lemma first_append [simp]: "first (xs @ ys) nx = first xs (first ys nx)"
  by (cases xs) auto

lemma lastp_append [simp]: "lastp p (xs @ ys) = lastp (lastp p xs) ys"
  by (induction xs arbitrary: p) auto

lemma endp_append [simp]: "endp pos (xs @ ys) = endp (endp pos xs) ys"
  by (induction xs arbitrary: pos) auto

lemma endp_ge: "pos \<le> endp pos bs"
proof (induction bs arbitrary: pos)
  case (Cons b bs)
  obtain c sz st where "b = (c, sz, st)" by (cases b) auto
  then show ?case using Cons.IH [of "pos + 48 + unat sz"] by simp
qed simp

lemma rep_append:
  "rep B p pos (xs @ ys) nx \<longleftrightarrow> rep B p pos xs (first ys nx) \<and> rep B (lastp p xs) (endp pos xs) ys nx"
  by (induction xs arbitrary: p pos) auto

lemma rep_addrs: "rep B p pos bs nx \<Longrightarrow> a \<in> addrs bs \<Longrightarrow> pos \<le> unat a \<and> unat a + 48 \<le> endp pos bs"
proof (induction bs arbitrary: p pos)
  case (Cons b bs)
  obtain c sz st where b: "b = (c, sz, st)" by (cases b) auto
  show ?case
  proof (cases "a = c")
    case True
    then show ?thesis using Cons.prems(1) endp_ge [of "pos + 48 + unat sz" bs] by (auto simp: b)
  next
    case False
    then have "a \<in> addrs bs" using Cons.prems(2) by (auto simp: b)
    then show ?thesis using Cons.IH [of c "pos + 48 + unat sz"] Cons.prems(1) by (auto simp: b)
  qed
qed simp

lemma rep_cong: "(\<And>a. a \<in> addrs bs \<Longrightarrow> B' a = B a) \<Longrightarrow> rep B' p pos bs nx = rep B p pos bs nx"
  by (induction bs arbitrary: p pos) auto

lemma rep_distinct: "rep B p pos bs nx \<Longrightarrow> distinct (map fst bs)"
proof (induction bs arbitrary: p pos)
  case (Cons b bs)
  obtain c sz st where b: "b = (c, sz, st)" by (cases b) auto
  have "c \<notin> addrs bs" using rep_addrs [of B c "pos + 48 + unat sz" bs nx c] Cons.prems by (auto simp: b)
  then show ?case using Cons by (auto simp: b)
qed simp

text \<open>The predecessor of the first block of a list changes.\<close>

lemma rep_relink:
  assumes "rep B q pos ys nx" "ys \<noteq> [] \<Longrightarrow> B' (first ys 0) = (B (first ys 0))\<lparr>bprev := q'\<rparr>"
    and "\<And>x. x \<in> addrs ys \<Longrightarrow> x \<noteq> first ys 0 \<Longrightarrow> B' x = B x"
  shows "rep B' q' pos ys nx"
proof (cases ys)
  case (Cons b bs)
  obtain c sz st where b: "b = (c, sz, st)" by (cases b) auto
  have "c \<notin> addrs bs" using rep_distinct [OF assms(1)] by (auto simp: Cons b)
  then have "rep B' c (pos + 48 + unat sz) bs nx = rep B c (pos + 48 + unat sz) bs nx"
    using assms(3) by (intro rep_cong) (auto simp: Cons b)
  then show ?thesis using assms(1,2) by (simp add: Cons b)
qed simp

lemma first_in_addrs: "ys \<noteq> [] \<Longrightarrow> first ys nx \<in> addrs ys"
  by (cases ys) auto

lemma first_nx: "ys \<noteq> [] \<Longrightarrow> first ys nx = first ys 0"
  by (cases ys) auto

lemma rep_first_nonzero: "rep B p pos ys nx \<Longrightarrow> 0 < pos \<Longrightarrow> ys \<noteq> [] \<Longrightarrow> first ys n \<noteq> 0"
  by (cases ys) auto

lemma absorb_apply:
  assumes "a \<noteq> b" "c \<noteq> a"
    and "B a = \<lparr>bmagic = m, bsize = sz, bstate = st, bnext = n, bprev = p\<rparr>"
    and "bsize (B b) = sz2" and "bnext (B b) = c"
  shows "absorb a b B x =
    (if x = a then \<lparr>bmagic = m, bsize = sz + (48 + sz2), bstate = st, bnext = c, bprev = p\<rparr>
     else if x = c \<and> c \<noteq> 0 then (B x)\<lparr>bprev := a\<rparr> else B x)"
  using assms by (auto simp: absorb_def upd_blk_def Let_def)

lemma rep_absorb:
  assumes rep: "rep B p pos (xs @ (a, sz, st) # (b, sz2, st2) # ys) 0" and pos: "0 < pos"
    and bound: "endp pos (xs @ (a, sz, st) # (b, sz2, st2) # ys) < 2 ^ 64"
  shows "rep (absorb a b B) p pos (xs @ (a, sz + (48 + sz2), st) # ys) 0"
proof -
  let ?B = "absorb a b B" and ?e = "endp pos xs"
  have d: "distinct (map fst (xs @ (a, sz, st) # (b, sz2, st2) # ys))" by (rule rep_distinct [OF rep])
  have r: "rep B p pos xs a" "unat a = ?e"
    "B a = \<lparr>bmagic = HEAP_MAGIC, bsize = sz, bstate = st, bnext = b, bprev = lastp p xs\<rparr>"
    "B b = \<lparr>bmagic = HEAP_MAGIC, bsize = sz2, bstate = st2, bnext = first ys 0, bprev = a\<rparr>"
    "rep B b (?e + 48 + unat sz + 48 + unat sz2) ys 0" using rep by (auto simp: rep_append)
  have nz: "0 < ?e" using endp_ge [of pos xs] pos by linarith
  have fa: "first ys 0 \<noteq> a"
  proof (cases "ys = []")
    case True
    then show ?thesis using r(2) nz by auto
  next
    case False
    then show ?thesis using first_in_addrs [OF False] d by fastforce
  qed
  have B'': "?B x = (if x = a then \<lparr>bmagic = HEAP_MAGIC, bsize = sz + (48 + sz2), bstate = st, bnext = first ys 0,
       bprev = lastp p xs\<rparr> else if x = first ys 0 \<and> first ys 0 \<noteq> 0 then (B x)\<lparr>bprev := a\<rparr> else B x)" for x
    using absorb_apply [of a b "first ys 0" B HEAP_MAGIC sz st b "lastp p xs" sz2 x] d r(3,4) fa by auto
  have xs: "x \<noteq> a \<and> x \<noteq> first ys 0" if "x \<in> addrs xs" for x
  proof -
    have "x \<noteq> 0" using rep_addrs [OF r(1) that] pos by auto
    moreover have "addrs xs \<inter> addrs ys = {}" "a \<notin> addrs xs" using d by auto
    ultimately show ?thesis using that first_in_addrs [of ys 0] by (cases "ys = []") (simp, metis, blast)
  qed
  have "rep ?B p pos xs a" using r(1) xs by (subst rep_cong [where B = B]) (auto simp: B'')
  moreover have "unat (sz + (48 + sz2)) = 48 + unat sz + unat sz2"
    using bound endp_ge [of "?e + 48 + unat sz + 48 + unat sz2" ys]
    by (simp add: unat_word_ariths)
  moreover have "rep ?B a (?e + 48 + unat sz + 48 + unat sz2) ys 0"
    using rep_first_nonzero [OF r(5)] nz d first_in_addrs [of ys 0]
    by (intro rep_relink [OF r(5)]) (auto simp: B'')
  ultimately show ?thesis using r(2) by (simp add: rep_append B'' algebra_simps)
qed

lemma take_block_apply:
  assumes "nb = a + (48 + al)" "nb \<noteq> a" "c \<noteq> a" "c \<noteq> nb"
    and "B a = \<lparr>bmagic = m, bsize = sz, bstate = st, bnext = c, bprev = p\<rparr>" and "48 + 16 \<le> sz - al"
  shows "take_block a al B x =
    (if x = a then \<lparr>bmagic = m, bsize = al, bstate = HEAP_USED, bnext = nb, bprev = p\<rparr>
     else if x = nb then \<lparr>bmagic = HEAP_MAGIC, bsize = sz - al - 48, bstate = HEAP_FREE, bnext = c, bprev = a\<rparr>
     else if x = c \<and> c \<noteq> 0 then (B x)\<lparr>bprev := nb\<rparr> else B x)"
  using assms(2-) unfolding assms(1) by (auto simp: take_block_def upd_blk_def Let_def)

lemma rep_take_split:
  assumes rep: "rep B p pos (xs @ (a, sz, st) # ys) 0" and pos: "0 < pos"
    and bound: "endp pos (xs @ (a, sz, st) # ys) < 2 ^ 64" and al: "unat al + 64 \<le> unat sz"
  shows "rep (take_block a al B) p pos (xs @ (a, al, HEAP_USED) # (a + (48 + al), sz - al - 48, HEAP_FREE) # ys) 0"
proof -
  let ?B = "take_block a al B" and ?e = "endp pos xs" and ?nb = "a + (48 + al)" and ?c = "first ys 0"
  have d: "distinct (map fst (xs @ (a, sz, st) # ys))" by (rule rep_distinct [OF rep])
  have r: "rep B p pos xs a" "unat a = ?e"
    "B a = \<lparr>bmagic = HEAP_MAGIC, bsize = sz, bstate = st, bnext = ?c, bprev = lastp p xs\<rparr>"
    "rep B a (?e + 48 + unat sz) ys 0" using rep by (auto simp: rep_append)
  have nz: "0 < ?e" using endp_ge [of pos xs] pos by linarith
  have e: "?e + 48 + unat sz < 2 ^ 64" using bound endp_ge [of "?e + 48 + unat sz" ys] by simp
  have nb: "unat ?nb = ?e + 48 + unat al" using e al r(2) by (simp add: unat_word_ariths)
  have rest: "unat (sz - al) = unat sz - unat al" using al by (simp add: unat_sub word_le_nat_alt)
  then have rest2: "unat (sz - al - 48) = unat sz - unat al - 48"
    using al by (subst unat_sub) (simp_all add: word_le_nat_alt)
  have ys: "?e + 48 + unat sz \<le> unat x" if "x \<in> addrs ys" for x using rep_addrs [OF r(4) that] by simp
  have xs: "0 < unat x \<and> unat x < ?e" if "x \<in> addrs xs" for x using rep_addrs [OF r(1) that] pos by simp
  have c: "?c = 0 \<and> ys = [] \<or> ?c \<in> addrs ys \<and> ys \<noteq> [] \<and> ?c \<noteq> 0"
    using first_in_addrs [of ys 0] rep_first_nonzero [OF r(4), of 0] nz by (cases "ys = []") auto
  have cU: "?c = 0 \<or> ?e + 48 + unat sz \<le> unat ?c" using c ys by blast
  have ne: "?nb \<noteq> a" "?c \<noteq> a" "?c \<noteq> ?nb" using cU nb r(2) nz al by auto
  have B': "?B x = (if x = a then \<lparr>bmagic = HEAP_MAGIC, bsize = al, bstate = HEAP_USED, bnext = ?nb, bprev = lastp p xs\<rparr>
     else if x = ?nb then \<lparr>bmagic = HEAP_MAGIC, bsize = sz - al - 48, bstate = HEAP_FREE, bnext = ?c, bprev = a\<rparr>
     else if x = ?c \<and> ?c \<noteq> 0 then (B x)\<lparr>bprev := ?nb\<rparr> else B x)" for x
    using al rest ne r(3) by (intro take_block_apply [where B = B]) (simp_all add: word_le_nat_alt)
  have "x \<noteq> a \<and> x \<noteq> ?nb \<and> (x = ?c \<longrightarrow> ?c = 0)" if "x \<in> addrs xs" for x
    using xs [OF that] r(2) nb cU by auto
  then have "rep ?B p pos xs a" using r(1) by (subst rep_cong [where B = B]) (auto simp: B')
  moreover have "rep ?B ?nb (?e + 48 + unat sz) ys 0"
  proof (rule rep_relink [OF r(4)])
    show "?B ?c = (B ?c)\<lparr>bprev := ?nb\<rparr>" if "ys \<noteq> []" using that c ne by (simp add: B')
    show "?B x = B x" if "x \<in> addrs ys" "x \<noteq> ?c" for x using that ys [OF that(1)] r(2) nb al by (auto simp: B')
  qed
  ultimately show ?thesis using r(2) nb ne rest2 al by (simp add: rep_append B' add_ac)
qed

lemma rep_take_whole:
  assumes rep: "rep B p pos (xs @ (a, sz, st) # ys) 0" and al: "\<not> 48 + 16 \<le> sz - al"
  shows "rep (take_block a al B) p pos (xs @ (a, sz, HEAP_USED) # ys) 0"
proof -
  have d: "distinct (map fst (xs @ (a, sz, st) # ys))" by (rule rep_distinct [OF rep])
  have r: "rep B p pos xs a" "unat a = endp pos xs"
    "B a = \<lparr>bmagic = HEAP_MAGIC, bsize = sz, bstate = st, bnext = first ys 0, bprev = lastp p xs\<rparr>"
    "rep B a (endp pos xs + 48 + unat sz) ys 0" using rep by (auto simp: rep_append)
  have B': "take_block a al B = B(a := (B a)\<lparr>bstate := HEAP_USED\<rparr>)"
    using al r(3) by (simp add: take_block_def upd_blk_def Let_def)
  have "rep (take_block a al B) p pos xs a" using r(1) d by (subst rep_cong [where B = B]) (auto simp: B')
  moreover have "rep (take_block a al B) a (endp pos xs + 48 + unat sz) ys 0"
    using r(4) d by (subst rep_cong [where B = B]) (auto simp: B')
  ultimately show ?thesis using r by (simp add: rep_append B')
qed

lemma find_fit_rep:
  assumes "rep B p pos bs 0" "0 < pos"
  shows "find_fit B al (first bs 0) p =
    Some (case find (\<lambda>(a, sz, st). st = HEAP_FREE \<and> al \<le> sz) bs of
            None \<Rightarrow> (0, lastp p bs)
          | Some (a, sz, st) \<Rightarrow> (a, lastp p (takeWhile (\<lambda>(a, sz, st). \<not> (st = HEAP_FREE \<and> al \<le> sz)) bs)))"
  using assms
proof (induction bs arbitrary: p pos)
  case Nil
  then show ?case by (simp add: find_fit.simps [of B al 0])
next
  case (Cons b bs)
  obtain a sz st where b: "b = (a, sz, st)" by (cases b) auto
  have "a \<noteq> 0" using Cons.prems by (auto simp: b)
  then show ?case using Cons.IH [of a "pos + 48 + unat sz"] Cons.prems
    by (subst find_fit.simps) (auto simp: b split: option.splits)
qed

end
