(* ===== verification/Heap_Correct.thy ===== *)
theory Heap_Correct
  imports Heap_List
begin

text \<open>
  Correctness of the kernel heap: the invariant, what growing does on top of the page mapper, and
  the properties of allocation, release, the self-check and the statistics.
\<close>

section \<open>The heap as a list of blocks\<close>

abbreviation is_free :: "blk \<Rightarrow> bool" where
  "is_free b \<equiv> snd (snd b) = HEAP_FREE"

definition blk_ok :: "blk \<Rightarrow> bool" where
  "blk_ok b \<longleftrightarrow> unat (fst (snd b)) mod 16 = 0 \<and> 16 \<le> unat (fst (snd b)) \<and> snd (snd b) \<in> {HEAP_FREE, HEAP_USED}"

definition heap_rep :: "heap \<Rightarrow> blk list \<Rightarrow> bool" where
  "heap_rep h bs \<longleftrightarrow> rep (blocks h) 0 (unat (heap_start h)) bs 0 \<and> head h = first bs 0
     \<and> endp (unat (heap_start h)) bs = unat (heap_committed_end h)
     \<and> (\<forall>b \<in> set bs. blk_ok b) \<and> successively (\<lambda>x y. \<not> (is_free x \<and> is_free y)) bs
     \<and> unat (heap_start h) mod 16 = 0 \<and> 0 < unat (heap_start h)"

definition used_blks :: "blk list \<Rightarrow> (u64 \<times> u64) set" where
  "used_blks bs = {(a, sz). (a, sz, HEAP_USED) \<in> set bs}"

lemma used_blks_simps [simp]:
  "used_blks [] = {}" "used_blks (xs @ ys) = used_blks xs \<union> used_blks ys"
  "used_blks ((a, sz, st) # bs) = (if st = HEAP_USED then {(a, sz)} else {}) \<union> used_blks bs"
  by (auto simp: used_blks_def)

abbreviation no_adj :: "blk list \<Rightarrow> bool" where
  "no_adj \<equiv> successively (\<lambda>x y. \<not> (is_free x \<and> is_free y))"

lemma no_adj_mid:
  assumes "no_adj (xs @ (a, sz, st) # ys)"
  shows "no_adj xs" "no_adj ys" "no_adj (xs @ (a', sz', HEAP_USED) # ys)"
    and "st = HEAP_FREE \<Longrightarrow> no_adj (xs @ (a', sz', HEAP_FREE) # ys)"
    and "st = HEAP_FREE \<Longrightarrow> no_adj (xs @ (a', sz', HEAP_USED) # (b, sz2, HEAP_FREE) # ys)"
  using assms by (auto simp: successively_append_iff successively_Cons)

text \<open>Taking a free block that is large enough.\<close>

lemma take_rep:
  assumes h: "heap_rep h (xs @ (a, sz, HEAP_FREE) # ys)" and al: "al \<le> sz" "unat al mod 16 = 0" "16 \<le> unat al"
  obtains bs cap where "heap_rep (h\<lparr>blocks := take_block a al (blocks h)\<rparr>) bs"
    and "used_blks bs = insert (a, cap) (used_blks (xs @ (a, sz, HEAP_FREE) # ys))" and "al \<le> cap"
proof -
  let ?s = "unat (heap_start h)"
  have r: "rep (blocks h) 0 ?s (xs @ (a, sz, HEAP_FREE) # ys) 0" "0 < ?s" "?s mod 16 = 0"
    "head h = first (xs @ (a, sz, HEAP_FREE) # ys) 0"
    and e: "endp ?s (xs @ (a, sz, HEAP_FREE) # ys) = unat (heap_committed_end h)"
    and ok: "\<forall>b \<in> set (xs @ (a, sz, HEAP_FREE) # ys). blk_ok b"
    and adj: "no_adj (xs @ (a, sz, HEAP_FREE) # ys)"
    using h unfolding heap_rep_def by blast+
  show thesis
  proof (cases "48 + 16 \<le> sz - al")
    case True
    let ?bs = "xs @ (a, al, HEAP_USED) # (a + (48 + al), sz - al - 48, HEAP_FREE) # ys"
    have s: "unat (sz - al) = unat sz - unat al" using al(1) by (simp add: unat_sub word_le_nat_alt)
    then have al64: "unat al + 64 \<le> unat sz" using True al(1) by (simp add: word_le_nat_alt)
    have rest: "unat (sz - al - 48) = unat sz - unat al - 48"
      using al64 s by (subst unat_sub) (simp_all add: word_le_nat_alt)
    have len: "endp ?s xs + 48 + unat al + 48 + unat (sz - al - 48) = endp ?s xs + 48 + unat sz"
      using rest al64 by simp
    have "blk_ok (a + (48 + al), sz - al - 48, HEAP_FREE)"
      using ok al(2) al64 by (auto simp: blk_ok_def rest mod_eq_0_iff_dvd simp del: diff_diff_left intro!: dvd_diff_nat)
    moreover have "blk_ok (a, al, HEAP_USED)" using al(2,3) by (simp add: blk_ok_def)
    moreover have "rep (take_block a al (blocks h)) 0 ?s ?bs 0"
      using rep_take_split [OF r(1,2) _ al64] e u64_bound by simp
    moreover have "endp ?s ?bs = unat (heap_committed_end h)"
      using e len by (simp only: endp_append endp.simps)
    ultimately have "heap_rep (h\<lparr>blocks := take_block a al (blocks h)\<rparr>) ?bs"
      using r(2-4) ok no_adj_mid(5) [OF adj refl] by (simp add: heap_rep_def)
    then show thesis by (rule that) auto
  next
    case False
    have "heap_rep (h\<lparr>blocks := take_block a al (blocks h)\<rparr>) (xs @ (a, sz, HEAP_USED) # ys)"
      using r(2-4) e ok rep_take_whole [OF r(1) False] no_adj_mid(3) [OF adj]
      by (simp add: heap_rep_def) (simp add: blk_ok_def)
    then show thesis by (rule that) (use al in auto)
  qed
qed

lemma lastp_last: "bs \<noteq> [] \<Longrightarrow> lastp p bs = fst (last bs)"
  by (induction bs arbitrary: p) auto

text \<open>The list after the heap has grown by \<open>g\<close> bytes.\<close>

definition grown :: "u64 \<Rightarrow> u64 \<Rightarrow> blk list \<Rightarrow> blk list" where
  "grown c g bs =
     (if bs \<noteq> [] \<and> is_free (last bs)
      then butlast bs @ [(fst (last bs), fst (snd (last bs)) + g, HEAP_FREE)]
      else bs @ [(c, g - 48, HEAP_FREE)])"

lemma used_grown: "used_blks (grown c g bs) = used_blks bs"
proof (cases bs rule: rev_cases)
  case (snoc xs b)
  obtain a sz st where "b = (a, sz, st)" by (cases b) auto
  then show ?thesis by (simp add: grown_def snoc)
qed (simp add: grown_def)

lemma rep_snoc_free:
  assumes "rep B p pos (xs @ [(a, sz, st)]) 0"
  shows "rep (upd_blk a (\<lambda>b. b\<lparr>bsize := sz'\<rparr>) B) p pos (xs @ [(a, sz', st)]) 0"
proof -
  have d: "distinct (map fst (xs @ [(a, sz, st)]))" by (rule rep_distinct [OF assms])
  have "rep (upd_blk a (\<lambda>b. b\<lparr>bsize := sz'\<rparr>) B) p pos xs a"
    using assms d by (subst rep_cong [where B = B]) (auto simp: upd_blk_def rep_append)
  then show ?thesis using assms by (simp add: rep_append upd_blk_def)
qed

lemma rep_snoc_new:
  assumes rep: "rep B p pos bs 0" and c: "unat c = endp pos bs" "0 < pos"
    and t: "bs \<noteq> [] \<Longrightarrow> B' (lastp p bs) = (B (lastp p bs))\<lparr>bnext := c\<rparr>"
    and new: "B' c = \<lparr>bmagic = HEAP_MAGIC, bsize = sz, bstate = HEAP_FREE, bnext = 0, bprev = lastp p bs\<rparr>"
    and other: "\<And>x. x \<noteq> c \<Longrightarrow> bs = [] \<or> x \<noteq> lastp p bs \<Longrightarrow> B' x = B x"
  shows "rep B' p pos (bs @ [(c, sz, HEAP_FREE)]) 0"
proof -
  have nc: "x \<noteq> c" if "x \<in> addrs bs" for x using rep_addrs [OF rep that] c by auto
  have "rep B' p pos bs c"
  proof (cases bs rule: rev_cases)
    case (snoc xs b)
    obtain a z st where b: "b = (a, z, st)" by (cases b) auto
    have d: "distinct (map fst (xs @ [(a, z, st)]))" using rep_distinct [OF rep] by (simp add: snoc b)
    have "rep B' p pos xs a = rep B p pos xs a"
      using d nc other by (intro rep_cong) (auto simp: snoc b)
    then show ?thesis using rep t by (simp add: snoc b rep_append)
  qed simp
  then show ?thesis using new c by (simp add: rep_append)
qed

lemma grow_rep:
  assumes h: "heap_rep h bs" and h1: "h1 = h\<lparr>vm := k, heap_committed_end := heap_committed_end h + g\<rparr>"
    and g: "64 \<le> unat g" "unat g mod 16 = 0" "unat (heap_committed_end h) + unat g < 2 ^ 64"
  shows "heap_rep (grow_list (heap_committed_end h) (lastp 0 bs) h1) (grown (heap_committed_end h) g bs)"
proof -
  let ?c = "heap_committed_end h"
  have cg: "unat (?c + g) = unat ?c + unat g" using g(3) by (rule unat_plus_u64)
  then have gt: "?c < heap_committed_end h1" using g(1) by (simp add: h1 word_less_nat_alt)
  have pos: "0 < unat (heap_start h)" and rep: "rep (blocks h) 0 (unat (heap_start h)) bs 0"
    and e: "endp (unat (heap_start h)) bs = unat ?c" using h by (simp_all add: heap_rep_def)
  have g48: "unat (g - 48) = unat g - 48" using g(1) by (subst unat_sub) (simp_all add: word_le_nat_alt)
  have ok: "\<forall>b \<in> set bs. blk_ok b" and adj: "no_adj bs" and s16: "unat (heap_start h) mod 16 = 0"
    and hd: "head h = first bs 0" using h by (simp_all add: heap_rep_def)
  have new_ok: "blk_ok (?c, g - 48, HEAP_FREE)" using g(1,2)
    by (auto simp: blk_ok_def g48 mod_eq_0_iff_dvd intro!: dvd_diff_nat)
  show ?thesis
  proof (cases bs rule: rev_cases)
    case Nil
    have "rep (upd_blk ?c (\<lambda>b. b\<lparr>bmagic := HEAP_MAGIC, bsize := g - 48, bstate := HEAP_FREE, bnext := 0, bprev := 0\<rparr>) (blocks h))
        0 (unat (heap_start h)) ([] @ [(?c, g - 48, HEAP_FREE)]) 0"
      by (rule rep_snoc_new [where B = "blocks h"]) (use e pos in \<open>auto simp: Nil upd_blk_def\<close>)
    then show ?thesis using pos s16 gt g(1) cg g48 new_ok e
      by (simp add: Nil grown_def grow_list_def h1 heap_rep_def)
  next
    case (snoc xs b)
    obtain a sz st where b: "b = (a, sz, st)" by (cases b) auto
    have a0: "a \<noteq> 0" using rep_addrs [OF rep, of a] pos by (auto simp: snoc b)
    have st: "bstate (blocks h a) = st" "bsize (blocks h a) = sz" using rep by (simp_all add: snoc b rep_append)
    have e': "endp (unat (heap_start h)) xs + 48 + unat sz = unat ?c" using e by (simp add: snoc b)
    show ?thesis
    proof (cases "st = HEAP_FREE")
      case True
      have sz: "unat (sz + g) = unat sz + unat g" using e' g(3) by (intro unat_plus_u64) linarith
      have "rep (upd_blk a (\<lambda>b. b\<lparr>bsize := sz + g\<rparr>) (blocks h)) 0 (unat (heap_start h)) (xs @ [(a, sz + g, st)]) 0"
        using rep by (intro rep_snoc_free) (simp add: snoc b)
      moreover have "upd_blk a (\<lambda>b. b\<lparr>bsize := bsize b + g\<rparr>) (blocks h) = upd_blk a (\<lambda>b. b\<lparr>bsize := sz + g\<rparr>) (blocks h)"
        using st by (simp add: upd_blk_def)
      moreover have "blk_ok (a, sz + g, HEAP_FREE)" using ok g(2) by (auto simp: snoc b blk_ok_def sz mod_eq_0_iff_dvd)
      moreover have "no_adj (xs @ [(a, sz + g, HEAP_FREE)])"
        using no_adj_mid(4) [of xs a sz st "[]"] adj True by (simp add: snoc b)
      ultimately show ?thesis using pos s16 gt ok a0 st True cg e' sz hd
        by (simp add: snoc b grown_def grow_list_def h1 heap_rep_def)
    next
      case False
      let ?B1 = "upd_blk ?c (\<lambda>b. b\<lparr>bmagic := HEAP_MAGIC, bsize := g - 48, bstate := HEAP_FREE, bnext := 0, bprev := a\<rparr>) (blocks h)"
      have ac: "a \<noteq> ?c" using rep_addrs [OF rep, of a] e by (auto simp: snoc b)
      have "rep (upd_blk a (\<lambda>b. b\<lparr>bnext := ?c\<rparr>) ?B1) 0 (unat (heap_start h)) (bs @ [(?c, g - 48, HEAP_FREE)]) 0"
        by (rule rep_snoc_new [OF rep]) (use e pos ac in \<open>auto simp: snoc b upd_blk_def\<close>)
      moreover have "no_adj (bs @ [(?c, g - 48, HEAP_FREE)])"
        using adj False by (simp add: snoc b successively_append_iff)
      ultimately show ?thesis using pos s16 gt g(1) cg g48 False a0 st new_ok ok e' hd
        by (simp add: snoc b grown_def grow_list_def h1 heap_rep_def Let_def)
    qed
  qed
qed

text \<open>The free block at the end of a grown list is large enough for what was asked.\<close>

lemma grown_fits:
  assumes "unat al + 48 \<le> unat g" "unat (fst (snd (last bs))) + unat g < 2 ^ 64 \<or> bs = []"
  shows "\<exists>b \<in> set (grown c g bs). is_free b \<and> al \<le> fst (snd b)"
proof (cases "bs \<noteq> [] \<and> is_free (last bs)")
  case True
  then have "unat (fst (snd (last bs)) + g) = unat (fst (snd (last bs))) + unat g"
    using assms(2) by (intro unat_plus_u64) simp
  then show ?thesis using True assms(1) by (simp add: grown_def word_le_nat_alt)
next
  case False
  have "unat (g - 48) = unat g - 48" using assms(1) by (subst unat_sub) (simp_all add: word_le_nat_alt)
  then show ?thesis using False assms(1) by (auto simp: grown_def word_le_nat_alt)
qed

section \<open>Growing the heap\<close>

text \<open>
  The invariant: the blocks tile the committed region, which consists of whole pages that are all
  mapped in the kernel's address space, inside the reserved region.
\<close>

definition heap_inv :: "heap \<Rightarrow> blk list \<Rightarrow> bool" where
  "heap_inv h bs \<longleftrightarrow> heap_rep h bs \<and> vmm_wf (vm h) (kroot h)
     \<and> unat (heap_start h) mod 4096 = 0 \<and> unat (heap_committed_end h) mod 4096 = 0
     \<and> heap_committed_end h \<le> heap_reserved_end h \<and> heap_reserved_end h = KERNEL_HEAP_MAX
     \<and> (\<forall>a. heap_start h \<le> a \<and> a < heap_committed_end h \<and> unat a mod 4096 = 0 \<longrightarrow>
            vmm_get_phys (kroot h) a (vm h) \<noteq> None)"

lemma expand_loop_grow:
  "expand_loop n h = bindF (vmm_pm.grow (kroot h) n (heap_committed_end h) (vm h))
     (\<lambda>(ok, va, k). Inr (ok, h\<lparr>vm := k, heap_committed_end := va\<rparr>))"
proof (induction n arbitrary: h)
  case 0
  then show ?case by (simp add: vmm_pm.grow.simps)
next
  case (Suc n)
  obtain pa p' where a: "pmm_alloc_page (frames (vm h)) = (pa, p')" by fastforce
  obtain ok k where m: "vmm_map_page (kroot h) (heap_committed_end h) pa 1 ((vm h)\<lparr>frames := p'\<rparr>) = (ok, k)" by fastforce
  have al: "vm_alloc (vm h) = (pa, (vm h)\<lparr>frames := p'\<rparr>)" by (simp add: vm_alloc_def a)
  have fr: "free_frame pa k = bindF (pmm_free_page pa (frames k)) (\<lambda>p. Inr (k\<lparr>frames := p\<rparr>))"
    by (simp add: free_frame_def)
  show ?case
    using Suc.IH [of "h\<lparr>vm := k, heap_committed_end := heap_committed_end h + 4096\<rparr>"] a m
    by (cases "pmm_free_page pa (frames k)";
        cases "vmm_pm.grow (kroot h) n (heap_committed_end h + 4096) k")
      (auto simp: vmm_pm.grow.simps al fr)
qed

lemma pages_unat:
  assumes "unat bytes \<le> 2 ^ 45"
  shows "unat (align_up bytes PMM_PAGE_SIZE div PMM_PAGE_SIZE) = (unat bytes + 4095) div 4096"
proof -
  have "(unat bytes + 4095) div 4096 < 2 ^ 52" using assms by simp
  moreover have "align_up bytes PMM_PAGE_SIZE = of_nat ((unat bytes + 4095) div 4096) * PMM_PAGE_SIZE"
    using assms by (intro align_up_page) simp
  ultimately show ?thesis by (simp add: unat_div frame_addr)
qed

lemma expand_heap_spec:
  assumes inv: "heap_inv h bs" and bytes: "unat bytes \<le> 2 ^ 45"
  obtains ok m k where "expand_heap bytes h = Inr (ok, h\<lparr>vm := k, heap_committed_end := heap_committed_end h + of_nat m * 4096\<rparr>)"
    and "ok \<Longrightarrow> unat bytes \<le> m * 4096" and "m * 4096 \<le> 2 ^ 45 + 4096"
    and "unat (heap_committed_end h) + m * 4096 \<le> unat KERNEL_HEAP_MAX"
    and "vmm_wf k (kroot h)" and "\<forall>j < m. vmm_get_phys (kroot h) (heap_committed_end h + of_nat j * 4096) k \<noteq> None"
    and "\<forall>v. vmm_get_phys (kroot h) v (vm h) \<noteq> None \<longrightarrow> vmm_get_phys (kroot h) v k \<noteq> None"
proof -
  let ?c = "heap_committed_end h" and ?n = "(unat bytes + 4095) div 4096"
  let ?p = "align_up bytes PMM_PAGE_SIZE div PMM_PAGE_SIZE"
  have wf: "vmm_wf (vm h) (kroot h)" and le: "?c \<le> KERNEL_HEAP_MAX" "heap_reserved_end h = KERNEL_HEAP_MAX"
    using inv by (auto simp: heap_inv_def)
  have n4: "?n * 4096 \<le> unat bytes + 4095" by (rule div_times_less_eq_dividend)
  have n: "unat ?p = ?n" "?n * 4096 \<le> 2 ^ 45 + 4096" "unat bytes \<le> ?n * 4096" using pages_unat [OF bytes] bytes n4 by simp_all
  show thesis
  proof (cases "heap_reserved_end h < ?c + ?p * PMM_PAGE_SIZE")
    case True
    then have "expand_heap bytes h = Inr (False, h)" by (simp add: expand_heap_def)
    then show thesis using wf le by (intro that [of False 0 "vm h"]) (simp_all add: word_le_nat_alt)
  next
    case False
    have "unat (?p * PMM_PAGE_SIZE) = ?n * 4096" using n by (simp add: unat_word_ariths)
    moreover have "unat ?c + ?n * 4096 < 2 ^ 64" using le(1) n(2) by (simp only: word_le_nat_alt) simp
    ultimately have cn: "unat (?c + ?p * PMM_PAGE_SIZE) = unat ?c + ?n * 4096" by (simp add: unat_plus_u64)
    then have fit: "unat ?c + ?n * 4096 \<le> unat KERNEL_HEAP_MAX" using False le(2) by (simp add: not_less word_le_nat_alt)
    obtain ok m k where g: "vmm_pm.grow (kroot h) ?n ?c (vm h) = Inr (ok, ?c + of_nat m * 4096, k)" "m \<le> ?n" "ok \<longrightarrow> m = ?n"
      "vmm_wf k (kroot h)" "\<forall>j < m. vmm_get_phys (kroot h) (?c + of_nat j * 4096) k \<noteq> None"
      "\<forall>v. vmm_get_phys (kroot h) v (vm h) \<noteq> None \<longrightarrow> vmm_get_phys (kroot h) v k \<noteq> None"
      using vmm_pm.grow_spec [OF wf, of ?n ?c] by blast
    have "m * 4096 \<le> ?n * 4096" using g(2) by simp
    then show thesis using g n False fit by (intro that [of ok m k]) (auto simp: expand_heap_def Let_def expand_loop_grow)
  qed
qed

text \<open>The state after growing, whatever the amount.\<close>

definition grown_list :: "u64 \<Rightarrow> nat \<Rightarrow> blk list \<Rightarrow> blk list" where
  "grown_list c m bs = (if m = 0 then bs else grown c (of_nat m * 4096) bs)"

lemma page_in_range:
  fixes a c :: u64
  assumes "c \<le> a" "unat a < unat c + m * 4096" "unat a mod 4096 = 0" "unat c mod 4096 = 0"
  obtains j where "j < m" "a = c + of_nat j * 4096"
proof -
  obtain i where i: "unat a = 4096 * i" using assms(3) by (auto simp: mod_eq_0_iff_dvd)
  obtain q where q: "unat c = 4096 * q" using assms(4) by (auto simp: mod_eq_0_iff_dvd)
  have "q \<le> i" using assms(1) i q by (simp add: word_le_nat_alt)
  moreover have "i < q + m" using assms(2) i q by simp
  moreover have "unat (c + of_nat (i - q) * 4096) = 4096 * i"
    using unat_plus_of_nat [of c "(i - q) * 4096"] q u64_bound [of a] i calculation(1) by (simp add: diff_mult_distrib)
  ultimately show thesis using i by (intro that [of "i - q"]) (simp_all add: word_unat_eq_iff)
qed

lemma grow_inv:
  assumes inv: "heap_inv h bs" and m: "m * 4096 \<le> 2 ^ 46" "unat (heap_committed_end h) + m * 4096 \<le> unat KERNEL_HEAP_MAX"
    and k: "vmm_wf k (kroot h)" "\<forall>j < m. vmm_get_phys (kroot h) (heap_committed_end h + of_nat j * 4096) k \<noteq> None"
      "\<forall>v. vmm_get_phys (kroot h) v (vm h) \<noteq> None \<longrightarrow> vmm_get_phys (kroot h) v k \<noteq> None"
    and h1: "h1 = h\<lparr>vm := k, heap_committed_end := heap_committed_end h + of_nat m * 4096\<rparr>"
  shows "heap_inv (grow_list (heap_committed_end h) (lastp 0 bs) h1) (grown_list (heap_committed_end h) m bs)"
proof -
  let ?c = "heap_committed_end h" and ?g = "of_nat m * 4096 :: u64"
  have g: "unat ?g = m * 4096" using m(1) by (simp add: frame_addr)
  have c': "unat (?c + ?g) = unat ?c + m * 4096" using m(2) g by (simp add: unat_plus_u64)
  have I: "heap_rep h bs" "unat (heap_start h) mod 4096 = 0" "unat ?c mod 4096 = 0" "heap_reserved_end h = KERNEL_HEAP_MAX"
    "\<forall>a. heap_start h \<le> a \<and> a < ?c \<and> unat a mod 4096 = 0 \<longrightarrow> vmm_get_phys (kroot h) a (vm h) \<noteq> None"
    using inv by (simp_all add: heap_inv_def)
  have rep: "heap_rep (grow_list ?c (lastp 0 bs) h1) (grown_list ?c m bs)"
  proof (cases "m = 0")
    case True
    then show ?thesis using I(1) by (simp add: grown_list_def grow_list_def h1 heap_rep_def)
  next
    case False
    then show ?thesis using grow_rep [OF I(1) h1] g m(2) by (simp add: grown_list_def)
  qed
  have fields: "heap_start (grow_list ?c (lastp 0 bs) h1) = heap_start h" "heap_committed_end (grow_list ?c (lastp 0 bs) h1) = ?c + ?g"
    "heap_reserved_end (grow_list ?c (lastp 0 bs) h1) = heap_reserved_end h"
    "vm (grow_list ?c (lastp 0 bs) h1) = k" "kroot (grow_list ?c (lastp 0 bs) h1) = kroot h"
    by (simp_all add: grow_list_def h1 Let_def)
  have "vmm_get_phys (kroot h) a k \<noteq> None"
    if a: "heap_start h \<le> a" "unat a < unat ?c + m * 4096" "unat a mod 4096 = 0" for a
  proof (cases "a < ?c")
    case True
    then have "vmm_get_phys (kroot h) a (vm h) \<noteq> None" using I(5) a(1,3) by simp
    then show ?thesis using k(3) by simp
  next
    case False
    then obtain j where "j < m" "a = ?c + of_nat j * 4096" using page_in_range [of ?c a m] a I(3) by (auto simp: not_less)
    then show ?thesis using k(2) by simp
  qed
  then show ?thesis using rep I(2-4) m(2) k(1) c'
    by (simp add: heap_inv_def fields word_less_nat_alt word_le_nat_alt)
qed

section \<open>Allocation\<close>

lemma find_split:
  assumes "find P bs = Some b"
  obtains xs ys where "bs = xs @ b # ys" "P b"
  using assms by (auto simp: find_Some_iff intro: id_take_nth_drop)

lemma heap_inv_blocks:
  "heap_inv h bs \<Longrightarrow> heap_rep (h\<lparr>blocks := B\<rparr>) bs' \<Longrightarrow> heap_inv (h\<lparr>blocks := B\<rparr>) bs'"
  by (auto simp: heap_inv_def)

lemma lastp_addrs: "bs \<noteq> [] \<Longrightarrow> lastp p bs \<in> addrs bs"
  by (simp add: lastp_last)

text \<open>One pass of \<open>kmalloc\<close> over a list that has a block that fits.\<close>

lemma kmalloc_hit:
  assumes inv: "heap_inv h bs" and al: "unat al mod 16 = 0" "16 \<le> unat al" and hit: "\<exists>b \<in> set bs. is_free b \<and> al \<le> fst (snd b)"
  obtains a cap B bs' where "kmalloc_loop al h = Some (Inr (a + 48, h\<lparr>blocks := B\<rparr>))" and "heap_inv (h\<lparr>blocks := B\<rparr>) bs'"
    and "used_blks bs' = insert (a, cap) (used_blks bs)" and "al \<le> cap" and "a \<in> addrs bs" and "(a, cap) \<notin> used_blks bs"
proof -
  let ?P = "\<lambda>(a, sz, st). st = HEAP_FREE \<and> al \<le> sz"
  have r: "rep (blocks h) 0 (unat (heap_start h)) bs 0" "0 < unat (heap_start h)" "head h = first bs 0"
    using inv by (simp_all add: heap_inv_def heap_rep_def)
  obtain b where "find ?P bs = Some b" using hit by (cases "find ?P bs") (auto simp: find_None_iff)
  moreover obtain a sz st where "b = (a, sz, st)" by (cases b) auto
  ultimately have f: "find ?P bs = Some (a, sz, st)" by simp
  then obtain xs ys where bs: "bs = xs @ (a, sz, HEAP_FREE) # ys" and "al \<le> sz" and "st = HEAP_FREE"
    by (elim find_split) auto
  obtain bs' cap where t: "heap_rep (h\<lparr>blocks := take_block a al (blocks h)\<rparr>) bs'"
    "used_blks bs' = insert (a, cap) (used_blks bs)" "al \<le> cap"
    using take_rep [of h xs a sz ys al] inv \<open>al \<le> sz\<close> al by (auto simp: heap_inv_def bs)
  have d: "distinct (map fst bs)" by (rule rep_distinct [OF r(1)])
  have "a \<noteq> 0" using rep_addrs [OF r(1), of a] r(2) by (auto simp: bs)
  moreover have "\<exists>t. find_fit (blocks h) al (head h) 0 = Some (a, t)"
    using find_fit_rep [OF r(1,2), of al] f r(3) by simp
  ultimately have "kmalloc_loop al h = Some (Inr (a + 48, h\<lparr>blocks := take_block a al (blocks h)\<rparr>))"
    by (subst kmalloc_loop.simps) auto
  moreover have "(a, cap) \<notin> used_blks bs" using d by (force simp: bs used_blks_def)
  ultimately show thesis using that t heap_inv_blocks [OF inv t(1)] by (auto simp: bs)
qed

lemma last_fits:
  assumes "heap_inv h bs" "bs \<noteq> []" "g \<le> 2 ^ 45 + 4096"
  shows "unat (fst (snd (last bs))) + g < 2 ^ 64"
proof -
  obtain xs b where bs: "bs = xs @ [b]" using assms(2) by (cases bs rule: rev_cases) auto
  obtain a sz st where b: "b = (a, sz, st)" by (cases b) auto
  have "endp (unat (heap_start h)) bs = unat (heap_committed_end h)" "heap_committed_end h \<le> KERNEL_HEAP_MAX"
    using assms(1) by (auto simp: heap_inv_def heap_rep_def)
  then show ?thesis using assms(3) by (simp add: bs b word_le_nat_alt)
qed

lemma kmalloc_loop_spec:
  assumes inv: "heap_inv h bs" and al: "unat al mod 16 = 0" "unat al + 48 \<le> 2 ^ 45" "16 \<le> unat al"
  obtains (null) h' bs' where "kmalloc_loop al h = Some (Inr (0, h'))" "heap_inv h' bs'" "used_blks bs' = used_blks bs"
  | (block) a cap h' bs' where "kmalloc_loop al h = Some (Inr (a + 48, h'))" "heap_inv h' bs'"
      "used_blks bs' = insert (a, cap) (used_blks bs)" "al \<le> cap" "(a, cap) \<notin> used_blks bs"
proof (cases "\<exists>b \<in> set bs. is_free b \<and> al \<le> fst (snd b)")
  case True
  then show thesis using kmalloc_hit [OF inv al(1,3)] block by metis
next
  case False
  let ?c = "heap_committed_end h" and ?P = "\<lambda>(a, sz, st). st = HEAP_FREE \<and> al \<le> sz"
  have r: "rep (blocks h) 0 (unat (heap_start h)) bs 0" "0 < unat (heap_start h)" "head h = first bs 0"
    using inv by (simp_all add: heap_inv_def heap_rep_def)
  have "find ?P bs = None" using False by (auto simp: find_None_iff)
  then have ff: "find_fit (blocks h) al (head h) 0 = Some (0, lastp 0 bs)"
    using find_fit_rep [OF r(1,2), of al] r(3) by simp
  have e: "unat (48 + al) = 48 + unat al" using al(2) by (simp add: unat_word_ariths)
  obtain ok m k where x: "expand_heap (48 + al) h = Inr (ok, h\<lparr>vm := k, heap_committed_end := ?c + of_nat m * 4096\<rparr>)"
    "ok \<Longrightarrow> unat (48 + al) \<le> m * 4096" "m * 4096 \<le> 2 ^ 45 + 4096" "unat ?c + m * 4096 \<le> unat KERNEL_HEAP_MAX"
    "vmm_wf k (kroot h)" "\<forall>j < m. vmm_get_phys (kroot h) (?c + of_nat j * 4096) k \<noteq> None"
    "\<forall>v. vmm_get_phys (kroot h) v (vm h) \<noteq> None \<longrightarrow> vmm_get_phys (kroot h) v k \<noteq> None"
    using expand_heap_spec [OF inv, of "48 + al"] al(2) e by (metis add.commute)
  let ?h1 = "grow_list ?c (lastp 0 bs) (h\<lparr>vm := k, heap_committed_end := ?c + of_nat m * 4096\<rparr>)"
  have inv1: "heap_inv ?h1 (grown_list ?c m bs)" by (rule grow_inv [OF inv _ x(4-7) refl]) (use x(3) in simp)
  have used: "used_blks (grown_list ?c m bs) = used_blks bs" by (simp add: grown_list_def used_grown)
  have step: "kmalloc_loop al h = (if ok then kmalloc_loop al ?h1 else Some (Inr (0, ?h1)))"
    using ff x(1) by (subst kmalloc_loop.simps) simp
  show thesis
  proof (cases ok)
    case False
    then show thesis using step inv1 used null by simp
  next
    case True
    have m: "m \<noteq> 0" "unat (of_nat m * 4096 :: u64) = m * 4096" using x(2,3) True e by (auto simp: frame_addr)
    have "\<exists>b \<in> set (grown_list ?c m bs). is_free b \<and> al \<le> fst (snd b)"
      using grown_fits [of al "of_nat m * 4096" bs ?c] last_fits [OF inv, of "m * 4096"] x(2,3) True e m
      by (auto simp: grown_list_def)
    then show thesis using kmalloc_hit [OF inv1 al(1,3)] block step used True by metis
  qed
qed

section \<open>Release\<close>

lemma endp_dvd: "16 dvd pos \<Longrightarrow> \<forall>b \<in> set bs. unat (fst (snd b)) mod 16 = 0 \<Longrightarrow> 16 dvd endp pos bs"
proof (induction bs arbitrary: pos)
  case (Cons b bs)
  obtain c sz st where b: "b = (c, sz, st)" by (cases b) auto
  have "16 dvd pos + 48 + unat sz" using Cons.prems by (simp add: b mod_eq_0_iff_dvd)
  then show ?case using Cons.IH Cons.prems(2) by (simp add: b)
qed simp

lemma absorb_keeps: "bstate (absorb a b B x) = bstate (B x)" "bmagic (absorb a b B x) = bmagic (B x)"
  by (auto simp: absorb_def upd_blk_def Let_def)

lemma rep_mid: "rep B p pos (xs @ (a, sz, st) # ys) nx \<Longrightarrow>
    unat a = endp pos xs \<and> B a = \<lparr>bmagic = HEAP_MAGIC, bsize = sz, bstate = st, bnext = first ys nx, bprev = lastp p xs\<rparr>"
  by (simp add: rep_append)

lemma rep_state:
  assumes "rep B p pos (xs @ (a, sz, st) # ys) nx"
  shows "rep (upd_blk a (\<lambda>b. b\<lparr>bstate := st'\<rparr>) B) p pos (xs @ (a, sz, st') # ys) nx"
proof -
  have d: "distinct (map fst (xs @ (a, sz, st) # ys))" by (rule rep_distinct [OF assms])
  have "rep (upd_blk a (\<lambda>b. b\<lparr>bstate := st'\<rparr>) B) p pos xs a"
    using assms d by (subst rep_cong [where B = B]) (auto simp: upd_blk_def rep_append)
  moreover have "rep (upd_blk a (\<lambda>b. b\<lparr>bstate := st'\<rparr>) B) a (endp pos xs + 48 + unat sz) ys nx"
    using assms d by (subst rep_cong [where B = B]) (auto simp: upd_blk_def rep_append)
  ultimately show ?thesis using assms by (simp add: rep_append upd_blk_def)
qed

lemma absorb_list:
  assumes rep: "rep B 0 pos (xs @ (a, sz, HEAP_FREE) # (b, sz2, HEAP_FREE) # ys) 0" "0 < pos"
    and e: "endp pos (xs @ (a, sz, HEAP_FREE) # (b, sz2, HEAP_FREE) # ys) < 2 ^ 64"
    and ok: "blk_ok (a, sz, HEAP_FREE)" "blk_ok (b, sz2, HEAP_FREE)"
  shows "rep (absorb a b B) 0 pos (xs @ (a, sz + (48 + sz2), HEAP_FREE) # ys) 0"
    and "endp pos (xs @ (a, sz + (48 + sz2), HEAP_FREE) # ys) = endp pos (xs @ (a, sz, HEAP_FREE) # (b, sz2, HEAP_FREE) # ys)"
    and "blk_ok (a, sz + (48 + sz2), HEAP_FREE)"
proof -
  show "rep (absorb a b B) 0 pos (xs @ (a, sz + (48 + sz2), HEAP_FREE) # ys) 0"
    using rep_absorb [OF rep e] .
  have s: "unat (sz + (48 + sz2)) = unat sz + 48 + unat sz2"
    using e endp_ge [of "endp pos xs + 48 + unat sz + 48 + unat sz2" ys] by (simp add: unat_word_ariths)
  then show "endp pos (xs @ (a, sz + (48 + sz2), HEAP_FREE) # ys) = endp pos (xs @ (a, sz, HEAP_FREE) # (b, sz2, HEAP_FREE) # ys)"
    by (simp add: add_ac)
  show "blk_ok (a, sz + (48 + sz2), HEAP_FREE)"
    using ok by (auto simp: blk_ok_def s mod_eq_0_iff_dvd)
qed

text \<open>Merging with a free successor.\<close>

lemma merge_next:
  assumes rep: "rep B 0 pos (xs @ (a, sz, HEAP_FREE) # ys) 0" "0 < pos" and e: "endp pos (xs @ (a, sz, HEAP_FREE) # ys) < 2 ^ 64"
    and ok: "\<forall>b \<in> set (xs @ (a, sz, HEAP_FREE) # ys). blk_ok b" and adj: "no_adj ys"
  obtains sz' ys' where
    "rep (if bnext (B a) \<noteq> 0 \<and> bstate (B (bnext (B a))) = HEAP_FREE then absorb a (bnext (B a)) B else B) 0 pos (xs @ (a, sz', HEAP_FREE) # ys') 0"
    and "endp pos (xs @ (a, sz', HEAP_FREE) # ys') = endp pos (xs @ (a, sz, HEAP_FREE) # ys)"
    and "\<forall>b \<in> set (xs @ (a, sz', HEAP_FREE) # ys'). blk_ok b" and "no_adj ((a, sz', HEAP_USED) # ys')" and "ys' = [] \<or> \<not> is_free (hd ys')"
    and "used_blks ys' = used_blks ys"
proof (cases ys)
  case Nil
  then show thesis using that [of sz "[]"] rep e ok by (simp add: rep_append)
next
  case (Cons b ys1)
  obtain c sz2 st2 where b: "b = (c, sz2, st2)" by (cases b) auto
  have a: "B a = \<lparr>bmagic = HEAP_MAGIC, bsize = sz, bstate = HEAP_FREE, bnext = c, bprev = lastp 0 xs\<rparr>"
    using rep_mid [OF rep(1)] by (simp add: Cons b)
  have c: "bstate (B c) = st2" "c \<noteq> 0"
    using rep_mid [of B 0 pos "xs @ [(a, sz, HEAP_FREE)]" c sz2 st2 ys1 0] rep endp_ge [of pos xs] by (auto simp: Cons b)
  show thesis
  proof (cases "st2 = HEAP_FREE")
    case True
    have ok2: "blk_ok (a, sz, HEAP_FREE)" "blk_ok (c, sz2, HEAP_FREE)" using ok True by (simp_all add: Cons b)
    note A = absorb_list [OF rep(1)[unfolded Cons b True] rep(2) e[unfolded Cons b True] ok2]
    show thesis using that [of "sz + (48 + sz2)" ys1] A a c ok adj True by (simp add: Cons b successively_Cons) blast
  next
    case False
    then show thesis using that [of sz ys] rep e ok a c adj by (simp add: Cons b successively_Cons)
  qed
qed

text \<open>Merging with a free predecessor.\<close>

lemma merge_prev:
  assumes rep: "rep B 0 pos (xs @ (a, sz, HEAP_FREE) # ys) 0" "0 < pos" and e: "endp pos (xs @ (a, sz, HEAP_FREE) # ys) < 2 ^ 64"
    and ok: "\<forall>b \<in> set (xs @ (a, sz, HEAP_FREE) # ys). blk_ok b" and adj: "no_adj xs" "no_adj ys" "ys = [] \<or> \<not> is_free (hd ys)"
  obtains bs where
    "rep (if bprev (B a) \<noteq> 0 \<and> bstate (B (bprev (B a))) = HEAP_FREE then absorb (bprev (B a)) a B else B) 0 pos bs 0"
    and "endp pos bs = endp pos (xs @ (a, sz, HEAP_FREE) # ys)" and "first bs 0 = first (xs @ (a, sz, HEAP_FREE) # ys) 0"
    and "\<forall>b \<in> set bs. blk_ok b" and "no_adj bs" and "used_blks bs = used_blks xs \<union> used_blks ys"
proof (cases xs rule: rev_cases)
  case Nil
  then show thesis using that [of "xs @ (a, sz, HEAP_FREE) # ys"] rep e ok adj by (auto simp: successively_Cons)
next
  case (snoc xs1 b)
  obtain c sz0 st0 where b: "b = (c, sz0, st0)" by (cases b) auto
  have a: "B a = \<lparr>bmagic = HEAP_MAGIC, bsize = sz, bstate = HEAP_FREE, bnext = first ys 0, bprev = c\<rparr>"
    using rep_mid [OF rep(1)] by (simp add: snoc b)
  have c: "bstate (B c) = st0" "c \<noteq> 0"
    using rep_mid [of B 0 pos xs1 c sz0 st0 "(a, sz, HEAP_FREE) # ys" 0] rep endp_ge [of pos xs1] by (auto simp: snoc b)
  show thesis
  proof (cases "st0 = HEAP_FREE")
    case True
    have ok2: "blk_ok (c, sz0, HEAP_FREE)" "blk_ok (a, sz, HEAP_FREE)" using ok True by (simp_all add: snoc b)
    have r: "rep B 0 pos (xs1 @ (c, sz0, HEAP_FREE) # (a, sz, HEAP_FREE) # ys) 0"
      "endp pos (xs1 @ (c, sz0, HEAP_FREE) # (a, sz, HEAP_FREE) # ys) < 2 ^ 64" using rep(1) e by (simp_all add: snoc b True)
    note A = absorb_list [OF r(1) rep(2) r(2) ok2]
    have "no_adj (xs1 @ (c, sz0 + (48 + sz), HEAP_FREE) # ys)"
      using adj True by (auto simp: snoc b successively_append_iff successively_Cons)
    then show thesis using that [of "xs1 @ (c, sz0 + (48 + sz), HEAP_FREE) # ys"] A a c ok True
      by (simp add: snoc b)
  next
    case False
    have "no_adj (xs @ (a, sz, HEAP_FREE) # ys)"
      using adj False by (auto simp: snoc b successively_append_iff successively_Cons)
    then show thesis using that [of "xs @ (a, sz, HEAP_FREE) # ys"] rep e ok a c False by (simp add: snoc b)
  qed
qed

lemma kfree_spec:
  assumes h: "heap_rep h bs" and used: "(a, cap) \<in> used_blks bs"
  obtains B bs' where "kfree (a + 48) h = Inr (h\<lparr>blocks := B\<rparr>)" and "heap_rep (h\<lparr>blocks := B\<rparr>) bs'"
    and "used_blks bs' = used_blks bs - {(a, cap)}" and "bmagic (B a) = HEAP_MAGIC \<and> bstate (B a) = HEAP_FREE"
proof -
  let ?s = "unat (heap_start h)"
  obtain xs ys where bs: "bs = xs @ (a, cap, HEAP_USED) # ys"
    using used by (auto simp: used_blks_def dest: split_list)
  have r: "rep (blocks h) 0 ?s (xs @ (a, cap, HEAP_USED) # ys) 0" "0 < ?s" "?s mod 16 = 0" "head h = first bs 0"
    and e: "endp ?s bs = unat (heap_committed_end h)" and ok: "\<forall>b \<in> set bs. blk_ok b" and adj: "no_adj bs"
    using h by (simp_all add: heap_rep_def bs)
  note a = rep_mid [OF r(1)]
  let ?B0 = "upd_blk a (\<lambda>b. b\<lparr>bstate := HEAP_FREE\<rparr>) (blocks h)"
  let ?B1 = "if bnext (?B0 a) \<noteq> 0 \<and> bstate (?B0 (bnext (?B0 a))) = HEAP_FREE then absorb a (bnext (?B0 a)) ?B0 else ?B0"
  let ?B2 = "if bprev (?B1 a) \<noteq> 0 \<and> bstate (?B1 (bprev (?B1 a))) = HEAP_FREE then absorb (bprev (?B1 a)) a ?B1 else ?B1"
  have e0: "endp ?s (xs @ (a, cap, HEAP_FREE) # ys) = unat (heap_committed_end h)" using e by (simp add: bs)
  have ok0: "\<forall>b \<in> set (xs @ (a, cap, HEAP_FREE) # ys). blk_ok b" using ok by (auto simp: bs blk_ok_def)
  note adj0 = no_adj_mid(1,2) [OF adj[unfolded bs]]
  obtain sz1 ys1 where m1: "rep ?B1 0 ?s (xs @ (a, sz1, HEAP_FREE) # ys1) 0"
    "endp ?s (xs @ (a, sz1, HEAP_FREE) # ys1) = endp ?s (xs @ (a, cap, HEAP_FREE) # ys)"
    "\<forall>b \<in> set (xs @ (a, sz1, HEAP_FREE) # ys1). blk_ok b" "no_adj ((a, sz1, HEAP_USED) # ys1)" "ys1 = [] \<or> \<not> is_free (hd ys1)"
    "used_blks ys1 = used_blks ys"
    by (rule merge_next [OF rep_state [OF r(1)] r(2) _ ok0 adj0(2)]) (use e0 u64_bound in auto)
  have e1: "endp ?s (xs @ (a, sz1, HEAP_FREE) # ys1) < 2 ^ 64" using m1(2) e0 u64_bound by metis
  have adj1: "no_adj ys1" using m1(4) by (auto simp: successively_Cons)
  obtain bs2 where m2: "rep ?B2 0 ?s bs2 0" "endp ?s bs2 = endp ?s (xs @ (a, sz1, HEAP_FREE) # ys1)"
    "first bs2 0 = first (xs @ (a, sz1, HEAP_FREE) # ys1) 0" "\<forall>b \<in> set bs2. blk_ok b" "no_adj bs2"
    "used_blks bs2 = used_blks xs \<union> used_blks ys1"
    by (rule merge_prev [OF m1(1) r(2) e1 m1(3) adj0(1) adj1 m1(5)])
  have lim: "?s \<le> unat a" "unat a + 48 + unat cap \<le> unat (heap_committed_end h)" "16 \<le> unat cap"
    using a e ok endp_ge [of ?s xs] endp_ge [of "endp ?s xs + 48 + unat cap" ys] by (simp_all add: bs blk_ok_def)
  have a48: "unat (a + 48) = unat a + 48" using lim u64_bound [of "heap_committed_end h"] by (simp add: unat_word_ariths)
  have s48: "unat (heap_start h + 48) = ?s + 48" using lim u64_bound [of "heap_committed_end h"] by (simp add: unat_word_ariths)
  have guard: "heap_start h + 48 \<le> a + 48 \<and> a + 48 < heap_committed_end h" "a + 48 \<noteq> 0"
    using lim a48 s48 by (simp_all add: word_le_nat_alt word_less_nat_alt word_unat_eq_iff)
  have "16 dvd endp ?s xs" using endp_dvd [of ?s xs] r(3) ok by (auto simp: bs blk_ok_def)
  then have al16: "(a + 48) mod 16 = 0" using a a48 by (simp add: word_unat_eq_iff unat_mod mod_eq_0_iff_dvd)
  have c: "bmagic (blocks h a) = HEAP_MAGIC" "bstate (blocks h a) = HEAP_USED" using a by simp_all
  have free: "kfree (a + 48) h = Inr (h\<lparr>blocks := ?B2\<rparr>)"
    by (simp only: kfree_def Let_def add_diff_cancel_right' guard al16 c simp_thms if_True if_False)
  have "heap_rep (h\<lparr>blocks := ?B2\<rparr>) bs2" using m2 r(2-4) e0 m1(2) by (simp add: heap_rep_def bs)
  moreover have "used_blks bs2 = used_blks bs - {(a, cap)}"
  proof -
    have "a \<notin> addrs xs" "a \<notin> addrs ys" using rep_distinct [OF r(1)] by auto
    then have "(a, cap) \<notin> used_blks xs" "(a, cap) \<notin> used_blks ys" by (force simp: used_blks_def)+
    then show ?thesis using m2(6) m1(6) by (auto simp: bs)
  qed
  moreover have "bmagic (?B2 a) = HEAP_MAGIC \<and> bstate (?B2 a) = HEAP_FREE"
    using a by (simp add: absorb_keeps upd_blk_def)
  ultimately show thesis using that free by blast
qed

section \<open>The self-check\<close>

lemma rep_next_of_last:
  assumes "rep B 0 pos xs nx" "xs \<noteq> []"
  shows "bnext (B (lastp 0 xs)) = nx"
proof -
  obtain zs c where xs: "xs = zs @ [c]" using assms(2) by (cases xs rule: rev_cases) auto
  obtain a sz st where "c = (a, sz, st)" by (cases c) auto
  then show ?thesis using assms(1) by (simp add: xs rep_append)
qed

lemma verify_block_rep:
  assumes h: "heap_rep h (xs @ (a, sz, st) # ys)"
  shows "verify_block h a"
proof -
  let ?s = "unat (heap_start h)" and ?b = "blocks h a"
  have r: "rep (blocks h) 0 ?s (xs @ (a, sz, st) # ys) 0" "0 < ?s" "?s mod 16 = 0" "head h = first (xs @ (a, sz, st) # ys) 0"
    and e: "endp ?s (xs @ (a, sz, st) # ys) = unat (heap_committed_end h)"
    and ok: "\<forall>b \<in> set (xs @ (a, sz, st) # ys). blk_ok b" and adj: "no_adj (xs @ (a, sz, st) # ys)"
    using h unfolding heap_rep_def by blast+
  have a: "unat a = endp ?s xs" "?b = \<lparr>bmagic = HEAP_MAGIC, bsize = sz, bstate = st, bnext = first ys 0, bprev = lastp 0 xs\<rparr>"
    using rep_mid [OF r(1)] by simp_all
  have reps: "rep (blocks h) 0 ?s xs a" "rep (blocks h) a (endp ?s xs + 48 + unat sz) ys 0" using r(1) by (simp_all add: rep_append)
  have lim: "?s \<le> unat a" "unat a + 48 + unat sz \<le> unat (heap_committed_end h)"
    using a(1) e endp_ge [of ?s xs] endp_ge [of "endp ?s xs + 48 + unat sz" ys] by simp_all
  have ex: "unat (48 + sz) = 48 + unat sz" "unat (a + (48 + sz)) = unat a + 48 + unat sz" "unat (a + 48) = unat a + 48"
    using lim u64_bound [of "heap_committed_end h"] by (simp_all add: unat_word_ariths)
  have dv: "16 dvd unat sz" "16 dvd unat a" using endp_dvd [of ?s xs] r(3) ok a(1) by (auto simp: blk_ok_def mod_eq_0_iff_dvd)
  have "heap_start h \<le> a \<and> a < heap_committed_end h \<and> a + (48 + sz) \<le> heap_committed_end h"
    using lim ex by (simp add: word_le_nat_alt word_less_nat_alt)
  moreover have "(a + 48) mod 16 = 0 \<and> sz mod 16 = 0 \<and> (48 + sz) mod 16 = 0"
    using dv ex by (simp add: word_unat_eq_iff unat_mod mod_eq_0_iff_dvd)
  moreover have "if first ys 0 \<noteq> 0 then bprev (blocks h (first ys 0)) = a \<and> a + (48 + sz) = first ys 0
       else a + (48 + sz) = heap_committed_end h"
    using reps(2) e a(1) ex(2) by (cases ys) (auto simp: word_unat_eq_iff)
  moreover have "if lastp 0 xs \<noteq> 0 then bnext (blocks h (lastp 0 xs)) = a else a = head h"
    using rep_next_of_last [OF reps(1)] r(4) lastp_addrs [of xs 0] rep_addrs [OF reps(1), of "lastp 0 xs"] r(2)
    by (cases "xs = []") auto
  moreover have "st = HEAP_FREE \<and> first ys 0 \<noteq> 0 \<longrightarrow> bstate (blocks h (first ys 0)) = HEAP_USED"
    using adj ok reps(2) by (cases ys) (auto simp: successively_append_iff successively_Cons blk_ok_def)
  ultimately show ?thesis unfolding verify_block_def Let_def a(2) heap_block.simps by blast
qed

lemma verify_loop_rep:
  assumes h: "heap_rep h (xs @ ys)"
  shows "verify_loop h (first ys 0) (of_nat (endp (unat (heap_start h)) xs - unat (heap_start h))) = Some (Inr ())"
  using assms
proof (induction ys arbitrary: xs)
  case Nil
  let ?s = "unat (heap_start h)"
  have "endp ?s xs = unat (heap_committed_end h)" using Nil by (simp add: heap_rep_def)
  then have "of_nat (endp ?s xs - ?s) = heap_committed_end h - heap_start h"
    using endp_ge [of ?s xs] by (simp add: of_nat_diff)
  then show ?case by (simp add: verify_loop.simps)
next
  case (Cons b ys)
  let ?s = "unat (heap_start h)"
  obtain a sz st where b: "b = (a, sz, st)" by (cases b) auto
  have r: "rep (blocks h) 0 ?s (xs @ (a, sz, st) # ys) 0" "0 < ?s" using Cons.prems by (simp_all add: heap_rep_def b)
  have a: "unat a = endp ?s xs" "bsize (blocks h a) = sz" "bnext (blocks h a) = first ys 0" using rep_mid [OF r(1)] by simp_all
  have "a \<noteq> 0" using a(1) endp_ge [of ?s xs] r(2) by auto
  moreover have "verify_block h a" using verify_block_rep Cons.prems by (simp add: b)
  moreover have "of_nat (endp ?s (xs @ [b]) - ?s) = of_nat (endp ?s xs - ?s) + (48 + sz)"
    using endp_ge [of ?s xs] by (simp add: b of_nat_diff)
  ultimately show ?case using Cons.IH [of "xs @ [b]"] Cons.prems a
    by (subst verify_loop.simps) (simp add: b)
qed

section \<open>Properties\<close>

lemma blocks_disjoint:
  assumes "rep B p pos bs nx" "(a, sz, st) \<in> set bs" "(b, sz2, st2) \<in> set bs" "a \<noteq> b"
  shows "unat a + 48 + unat sz \<le> unat b \<or> unat b + 48 + unat sz2 \<le> unat a"
proof -
  have *: "unat x + 48 + unat z \<le> unat y"
    if "rep B p pos (xs @ (x, z, t) # ys) nx" "(y, z2, t2) \<in> set ys" for x z t xs ys y z2 t2
  proof -
    have "rep B x (endp pos xs + 48 + unat z) ys nx" "unat x = endp pos xs" using that(1) by (simp_all add: rep_append)
    then show ?thesis using rep_addrs [of B x _ ys nx y] that(2) by force
  qed
  obtain xs ys where bs: "bs = xs @ (a, sz, st) # ys" using split_list [OF assms(2)] by blast
  show ?thesis
  proof (cases "(b, sz2, st2) \<in> set ys")
    case True
    then show ?thesis using * assms(1) bs by blast
  next
    case False
    then have "(b, sz2, st2) \<in> set xs" using assms(3,4) by (auto simp: bs)
    then obtain us vs where "xs = us @ (b, sz2, st2) # vs" using split_list by metis
    then have "unat b + 48 + unat sz2 \<le> unat a"
      using * [of us b sz2 st2 "vs @ (a, sz, st) # ys" a sz st] assms(1) by (simp add: bs)
    then show ?thesis by blast
  qed
qed

lemma align_up_16:
  assumes "unat sz \<le> 2 ^ 44" "sz \<noteq> 0"
  shows "unat (align_up sz 16) = (unat sz + 15) div 16 * 16"
proof -
  have "(15 :: u64) = mask 4" by (simp add: mask_eq_exp_minus_1)
  moreover have "sz + 16 - 1 = sz + 15" by simp
  moreover have "(16 :: u64) - 1 = 15" by simp
  ultimately have "align_up sz 16 = (sz + 15) AND NOT (mask 4)" by (simp only: align_up_def)
  moreover have "unat (sz + 15) = unat sz + 15" using assms(1) by (simp add: unat_word_ariths)
  ultimately show ?thesis by (simp only: unat_and_not_mask) simp
qed

lemma used_block_facts:
  assumes h: "heap_rep h bs" and used: "(a, cap) \<in> used_blks bs"
  shows "unat (a + 48) = unat a + 48" and "(a + 48) mod 16 = 0" and "a + 48 \<noteq> 0" and "heap_start h + 48 \<le> a + 48"
    and "unat a + 48 + unat cap \<le> unat (heap_committed_end h)"
    and "(b, c) \<in> used_blks bs \<Longrightarrow> b \<noteq> a \<Longrightarrow> unat a + 48 + unat cap \<le> unat b \<or> unat b + 48 + unat c \<le> unat a"
    and "(b, c) \<in> used_blks bs \<Longrightarrow> b = a \<Longrightarrow> c = cap"
proof -
  let ?s = "unat (heap_start h)"
  have rep: "rep (blocks h) 0 ?s bs 0" and e: "endp ?s bs = unat (heap_committed_end h)"
    and s16: "?s mod 16 = 0" and ok: "\<forall>b \<in> set bs. blk_ok b" using h by (simp_all add: heap_rep_def)
  have mem: "(a, cap, HEAP_USED) \<in> set bs" using used by (simp add: used_blks_def)
  then obtain xs ys where bs: "bs = xs @ (a, cap, HEAP_USED) # ys" by (auto dest: split_list)
  have a: "unat a = endp ?s xs" using rep_mid [of "blocks h"] rep by (simp add: bs)
  show lim: "unat a + 48 + unat cap \<le> unat (heap_committed_end h)"
    using a e endp_ge [of "unat a + 48 + unat cap" ys] by (simp add: bs)
  show p: "unat (a + 48) = unat a + 48"
    using lim u64_bound [of "heap_committed_end h"] by (simp add: unat_word_ariths)
  have le: "?s \<le> unat a" using a endp_ge [of ?s xs] by simp
  have q: "unat (heap_start h + 48) = ?s + 48"
    using lim le u64_bound [of "heap_committed_end h"] by (simp add: unat_word_ariths)
  have "16 dvd unat a" using endp_dvd [of ?s xs] s16 ok a by (auto simp: bs blk_ok_def)
  then show "(a + 48) mod 16 = 0" using p by (simp add: word_unat_eq_iff unat_mod mod_eq_0_iff_dvd)
  show "a + 48 \<noteq> 0" "heap_start h + 48 \<le> a + 48" using p q le by (simp_all add: word_unat_eq_iff word_le_nat_alt)
  show "unat a + 48 + unat cap \<le> unat b \<or> unat b + 48 + unat c \<le> unat a" if "(b, c) \<in> used_blks bs" "b \<noteq> a"
    using blocks_disjoint [OF rep mem, of b c HEAP_USED] that by (auto simp: used_blks_def)
  show "c = cap" if "(b, c) \<in> used_blks bs" "b = a"
    using eq_key_imp_eq_value [OF rep_distinct [OF rep] mem, of "(c, HEAP_USED)"] that by (simp add: used_blks_def)
qed

text \<open>
  C13. \<open>kmalloc\<close> is a correct allocator for requests of up to 16 TiB. It always returns, and the heap
  stays a sound tiling of mapped pages. Either it answers NULL and no block in use changes, or it
  answers a 16-byte aligned payload of at least the requested size, inside the committed heap and
  disjoint from every block already in use, and exactly that block is added to the blocks in use.
\<close>

theorem kmalloc_correct:
  assumes "heap_inv h bs" and "sz \<noteq> 0" and "unat sz \<le> 2 ^ 44"
  shows "\<exists>p h' bs'. kmalloc sz h = Some (Inr (p, h')) \<and> heap_inv h' bs' \<and>
    (p = 0 \<and> used_blks bs' = used_blks bs \<or>
     p \<noteq> 0 \<and> p mod 16 = 0 \<and> (\<exists>cap. sz \<le> cap \<and> used_blks bs' = insert (p - 48, cap) (used_blks bs)
       \<and> heap_start h' + 48 \<le> p \<and> unat p + unat cap \<le> unat (heap_committed_end h')
       \<and> (\<forall>a c. (a, c) \<in> used_blks bs \<longrightarrow> unat p + unat cap \<le> unat a \<or> unat a + 48 + unat c \<le> unat p - 48)))"
proof -
  let ?al = "align_up sz 16"
  have al: "unat ?al = (unat sz + 15) div 16 * 16" by (rule align_up_16 [OF assms(3,2)])
  have "0 < unat sz" using assms(2) by (simp add: unat_gt_0)
  then have al1: "unat ?al mod 16 = 0" "unat ?al + 48 \<le> 2 ^ 45" "16 \<le> unat ?al" "sz \<le> ?al"
    using assms(3) by (simp_all add: al word_le_nat_alt)
  have k: "kmalloc sz h = kmalloc_loop ?al h" using assms(2) by (simp add: kmalloc_def)
  from assms(1) al1(1-3) show ?thesis
  proof (cases rule: kmalloc_loop_spec)
    case (null h' bs')
    then show ?thesis unfolding k by blast
  next
    case (block a cap h' bs')
    have "heap_rep h' bs'" "(a, cap) \<in> used_blks bs'" using block(2,3) by (simp_all add: heap_inv_def)
    note F = used_block_facts [OF this]
    have dis: "\<forall>b c. (b, c) \<in> used_blks bs \<longrightarrow> unat (a + 48) + unat cap \<le> unat b \<or> unat b + 48 + unat c \<le> unat (a + 48) - 48"
    proof (intro allI impI)
      fix b c assume u: "(b, c) \<in> used_blks bs"
      have u': "(b, c) \<in> used_blks bs'" using u block(3) by simp
      have "b \<noteq> a" using F(7) [OF u'] u block(5) by blast
      then show "unat (a + 48) + unat cap \<le> unat b \<or> unat b + 48 + unat c \<le> unat (a + 48) - 48"
        using F(6) [OF u'] F(1) by simp
    qed
    have "sz \<le> cap \<and> used_blks bs' = insert (a + 48 - 48, cap) (used_blks bs) \<and> heap_start h' + 48 \<le> a + 48
        \<and> unat (a + 48) + unat cap \<le> unat (heap_committed_end h')"
      using order_trans [OF al1(4) block(4)] block(3) F(1,4,5) by simp
    with dis F(2,3) block(1,2) show ?thesis unfolding k
      by (intro exI [of _ "a + 48"] exI [of _ h'] exI [of _ bs'] conjI disjI2 exI [of _ cap]) simp_all
  qed
qed

text \<open>
  C14. \<open>kfree\<close> releases exactly one block: given the payload address of a block in use it returns, the
  blocks still tile the heap with no two free neighbours, the released block alone has left the
  blocks in use, and releasing the same address again panics.
\<close>

theorem kfree_correct:
  assumes "heap_rep h bs" and "(a, cap) \<in> used_blks bs"
  shows "\<exists>B bs'. kfree (a + 48) h = Inr (h\<lparr>blocks := B\<rparr>) \<and> heap_rep (h\<lparr>blocks := B\<rparr>) bs'
    \<and> used_blks bs' = used_blks bs - {(a, cap)} \<and> (\<exists>msg. kfree (a + 48) (h\<lparr>blocks := B\<rparr>) = Inl (Panic msg))"
proof -
  obtain B bs' where k: "kfree (a + 48) h = Inr (h\<lparr>blocks := B\<rparr>)" "heap_rep (h\<lparr>blocks := B\<rparr>) bs'"
    "used_blks bs' = used_blks bs - {(a, cap)}" "bmagic (B a) = HEAP_MAGIC \<and> bstate (B a) = HEAP_FREE"
    by (rule kfree_spec [OF assms])
  have "\<exists>msg. kfree (a + 48) (h\<lparr>blocks := B\<rparr>) = Inl (Panic msg)"
    using used_block_facts(3) [OF assms] k(4) by (simp add: kfree_def Let_def)
  then show ?thesis using k by blast
qed

text \<open>
  C15. The heap's own consistency check never fires: on every heap that the operations can produce,
  \<open>kheap_verify\<close> walks the whole list and all its assertions hold.
\<close>

theorem kheap_verify_passes:
  assumes "heap_rep h bs"
  shows "kheap_verify h = Some (Inr ())"
  using verify_loop_rep [of h "[]" bs] assms by (auto simp: kheap_verify_def heap_rep_def)

text \<open>
  Requests close to the end of the address range are not handled: from \<open>2 ^ 64 - 4143\<close> to
  \<open>2 ^ 64 - 64\<close> the extent of the block rounds up to zero pages, the heap "grows" by nothing and the
  loop of \<open>kmalloc\<close> never ends.
\<close>

lemma kmalloc_huge_diverges:
  assumes "heap_rep h []" and "heap_committed_end h \<le> heap_reserved_end h"
  shows "kmalloc 0xFFFFFFFFFFFFFFC0 h = None"
proof -
  have al: "align_up 0xFFFFFFFFFFFFFFC0 16 = 0xFFFFFFFFFFFFFFC0" by (simp add: align_up_def)
  have ex: "expand_heap 0xFFFFFFFFFFFFFFF0 h = Inr (True, h)"
    using assms(2) by (simp add: expand_heap_def align_up_def)
  have gr: "grow_list (heap_committed_end h) 0 h = h" by (simp add: grow_list_def)
  have hd: "head h = 0" using assms(1) by (simp add: heap_rep_def)
  have ff: "find_fit (blocks h) 0xFFFFFFFFFFFFFFC0 0 0 = Some (0, 0)" by (simp add: find_fit.simps)
  have "\<not> (0xFFFFFFFFFFFFFFC0 = (0xFFFFFFFFFFFFFFC0 :: u64) \<and> h = h)" if "kmalloc_loop 0xFFFFFFFFFFFFFFC0 h = Some y" for y
    by (rule kmalloc_loop.raw_induct [where P = "\<lambda>al s y. \<not> (al = 0xFFFFFFFFFFFFFFC0 \<and> s = h)", OF _ that])
      (auto simp: hd ff ex gr, blast)
  then have "kmalloc_loop 0xFFFFFFFFFFFFFFC0 h = None" by (cases "kmalloc_loop 0xFFFFFFFFFFFFFFC0 h") blast+
  then show ?thesis by (simp add: kmalloc_def al)
qed



section \<open>A small heap\<close>

text \<open>An empty heap on the example machine, and a heap of one page with a block in use.\<close>

definition heap_empty :: heap where
  "heap_empty = kheap_init KERNEL_HEAP_BASE
     \<lparr>heap_start = 0, heap_committed_end = 0, heap_reserved_end = 0, head = 0,
      blocks = (\<lambda>_. \<lparr>bmagic = 0, bsize = 0, bstate = 0, bnext = 0, bprev = 0\<rparr>), vm = vmm_example, kroot = 0x2000\<rparr>"

definition heap_one :: heap where
  "heap_one = heap_empty\<lparr>heap_committed_end := KERNEL_HEAP_BASE + 4096, head := KERNEL_HEAP_BASE,
     blocks := (blocks heap_empty)(KERNEL_HEAP_BASE :=
       \<lparr>bmagic = HEAP_MAGIC, bsize = 4048, bstate = HEAP_USED, bnext = 0, bprev = 0\<rparr>)\<rparr>"

lemma heap_empty_inv: "heap_inv heap_empty []"
  using example_wf [OF example_pmm_used(1)]
  by (auto simp: heap_inv_def heap_rep_def heap_empty_def kheap_init_def)

lemma heap_one_rep: "heap_rep heap_one [(KERNEL_HEAP_BASE, 4048, HEAP_USED)]"
  by (simp add: heap_rep_def heap_one_def heap_empty_def kheap_init_def blk_ok_def)

theorem kmalloc_correct_witness:
  "\<exists>p h' bs'. kmalloc 100 heap_empty = Some (Inr (p, h')) \<and> heap_inv h' bs' \<and>
    (p = 0 \<and> used_blks bs' = used_blks [] \<or>
     p \<noteq> 0 \<and> p mod 16 = 0 \<and> (\<exists>cap. 100 \<le> cap \<and> used_blks bs' = insert (p - 48, cap) (used_blks [])
       \<and> heap_start h' + 48 \<le> p \<and> unat p + unat cap \<le> unat (heap_committed_end h')
       \<and> (\<forall>a c. (a, c) \<in> used_blks [] \<longrightarrow> unat p + unat cap \<le> unat a \<or> unat a + 48 + unat c \<le> unat p - 48)))"
  by (rule kmalloc_correct [OF heap_empty_inv]) simp_all

theorem kfree_correct_witness:
  "\<exists>B. kfree (KERNEL_HEAP_BASE + 48) heap_one = Inr (heap_one\<lparr>blocks := B\<rparr>)
     \<and> (\<exists>bs. heap_rep (heap_one\<lparr>blocks := B\<rparr>) bs \<and> used_blks bs = {})"
  using kfree_correct [OF heap_one_rep, of KERNEL_HEAP_BASE 4048] by fastforce

theorem kheap_verify_passes_witness: "kheap_verify heap_one = Some (Inr ())"
  by (rule kheap_verify_passes [OF heap_one_rep])


end
