(* ===== verification/Disk_Bytes.thy ===== *)
theory Disk_Bytes
  imports Kryos_Prelude
begin

unbundle bit_operations_syntax

text \<open>
  Byte buffers as the block and file system code uses them: a buffer is a list of bytes,
  \<open>patch\<close> is the effect of \<open>memcpy(buf + off, src, n)\<close>, \<open>slice\<close> what \<open>memcpy(dst, buf + off, n)\<close>
  copies out, and \<open>u32s\<close>/\<open>bytes32\<close> are the two readings of one buffer as bytes and as an array of
  little-endian \<open>uint32_t\<close>.
\<close>

section \<open>Definitions\<close>

definition patch :: "u8 list \<Rightarrow> nat \<Rightarrow> u8 list \<Rightarrow> u8 list" where
  "patch buf off src = take off buf @ src @ drop (off + length src) buf"

definition slice :: "nat \<Rightarrow> nat \<Rightarrow> 'a list \<Rightarrow> 'a list" where
  "slice off n buf = take n (drop off buf)"

definition le16 :: "u8 \<Rightarrow> u8 \<Rightarrow> u16" where
  "le16 a b = ucast a OR push_bit 8 (ucast b)"

definition le32 :: "u8 \<Rightarrow> u8 \<Rightarrow> u8 \<Rightarrow> u8 \<Rightarrow> u32" where
  "le32 a b c d = ucast a OR push_bit 8 (ucast b) OR push_bit 16 (ucast c) OR push_bit 24 (ucast d)"

definition bytes_of_u16 :: "u16 \<Rightarrow> u8 list" where
  "bytes_of_u16 w = [ucast w, ucast (drop_bit 8 w)]"

definition bytes_of_u32 :: "u32 \<Rightarrow> u8 list" where
  "bytes_of_u32 w = [ucast w, ucast (drop_bit 8 w), ucast (drop_bit 16 w), ucast (drop_bit 24 w)]"

fun u16s :: "u8 list \<Rightarrow> u16 list" where
  "u16s (a # b # r) = le16 a b # u16s r"
| "u16s _ = []"

fun u32s :: "u8 list \<Rightarrow> u32 list" where
  "u32s (a # b # c # d # r) = le32 a b c d # u32s r"
| "u32s _ = []"

definition bytes16 :: "u16 list \<Rightarrow> u8 list" where
  "bytes16 ws = concat (map bytes_of_u16 ws)"

definition bytes32 :: "u32 list \<Rightarrow> u8 list" where
  "bytes32 ws = concat (map bytes_of_u32 ws)"

text \<open>String literals as C has them, without the terminating zero.\<close>

definition cstr :: "string \<Rightarrow> u8 list" where
  "cstr s = map of_char s"

section \<open>Little-endian round trips\<close>

lemma le16_bytes [simp]: "le16 (ucast w) (ucast (drop_bit 8 w)) = w"
proof (rule bit_eqI)
  fix n assume "possible_bit TYPE(u16) n"
  then have "n < 16" by simp
  then consider "n < 8" | "8 \<le> n" "n < 16" by linarith
  then show "bit (le16 (ucast w) (ucast (drop_bit 8 w))) n \<longleftrightarrow> bit w n"
    by cases (auto simp: le16_def bit_or_iff bit_push_bit_iff bit_ucast_iff bit_drop_bit_eq)
qed

lemma le32_bytes [simp]:
  "le32 (ucast w) (ucast (drop_bit 8 w)) (ucast (drop_bit 16 w)) (ucast (drop_bit 24 w)) = w" (is "?l = w")
proof (rule bit_eqI)
  fix n assume "possible_bit TYPE(u32) n"
  then have "n < 32" by simp
  then consider "n < 8" | "8 \<le> n" "n < 16" | "16 \<le> n" "n < 24" | "24 \<le> n" "n < 32" by linarith
  then show "bit ?l n \<longleftrightarrow> bit w n"
    by cases (auto simp: le32_def bit_or_iff bit_push_bit_iff bit_ucast_iff bit_drop_bit_eq)
qed

lemma bytes_of_le16: "bytes_of_u16 (le16 a b) = [a, b]"
proof -
  have "ucast (le16 a b) = a"
    by (rule bit_eqI) (auto simp: le16_def bit_or_iff bit_push_bit_iff bit_ucast_iff)
  moreover have "ucast (drop_bit 8 (le16 a b)) = b"
    by (rule bit_eqI) (auto simp: le16_def bit_or_iff bit_push_bit_iff bit_ucast_iff bit_drop_bit_eq
      dest: bit_imp_le_length)
  ultimately show ?thesis by (simp add: bytes_of_u16_def)
qed

lemma bytes_of_le32: "bytes_of_u32 (le32 a b c d) = [a, b, c, d]"
proof -
  have "ucast (le32 a b c d) = a"
    by (rule bit_eqI) (auto simp: le32_def bit_or_iff bit_push_bit_iff bit_ucast_iff)
  moreover have "ucast (drop_bit 8 (le32 a b c d)) = b"
    by (rule bit_eqI) (auto simp: le32_def bit_or_iff bit_push_bit_iff bit_ucast_iff bit_drop_bit_eq
      dest: bit_imp_le_length)
  moreover have "ucast (drop_bit 16 (le32 a b c d)) = c"
    by (rule bit_eqI) (auto simp: le32_def bit_or_iff bit_push_bit_iff bit_ucast_iff bit_drop_bit_eq
      dest: bit_imp_le_length)
  moreover have "ucast (drop_bit 24 (le32 a b c d)) = d"
    by (rule bit_eqI) (auto simp: le32_def bit_or_iff bit_push_bit_iff bit_ucast_iff bit_drop_bit_eq
      dest: bit_imp_le_length)
  ultimately show ?thesis by (simp add: bytes_of_u32_def)
qed

lemma bytes16_simps [simp]:
  "bytes16 [] = []" "bytes16 (w # ws) = bytes_of_u16 w @ bytes16 ws" "bytes16 (us @ vs) = bytes16 us @ bytes16 vs"
  by (simp_all add: bytes16_def)

lemma bytes32_simps [simp]:
  "bytes32 [] = []" "bytes32 (w # ws) = bytes_of_u32 w @ bytes32 ws" "bytes32 (us @ vs) = bytes32 us @ bytes32 vs"
  by (simp_all add: bytes32_def)

lemma length_bytes_of [simp]: "length (bytes_of_u16 w) = 2" "length (bytes_of_u32 v) = 4"
  by (simp_all add: bytes_of_u16_def bytes_of_u32_def)

lemma length_bytes16 [simp]: "length (bytes16 ws) = 2 * length ws"
  by (induction ws) simp_all

lemma length_bytes32 [simp]: "length (bytes32 ws) = 4 * length ws"
  by (induction ws) simp_all

lemma u16s_bytes16 [simp]: "u16s (bytes16 ws) = ws"
  by (induction ws) (simp_all add: bytes_of_u16_def)

lemma u32s_bytes32 [simp]: "u32s (bytes32 ws) = ws"
  by (induction ws) (simp_all add: bytes_of_u32_def)

lemma u32s_bytes32_append: "u32s (bytes32 ws @ r) = ws @ u32s r"
  by (induction ws) (simp_all add: bytes_of_u32_def)

lemma bytes16_u16s: "even (length bs) \<Longrightarrow> bytes16 (u16s bs) = bs"
  by (induction bs rule: u16s.induct) (simp_all add: bytes_of_le16)

lemma length_u16s [simp]: "length (u16s bs) = length bs div 2"
  by (induction bs rule: u16s.induct) simp_all

lemma length_u32s [simp]: "length (u32s bs) = length bs div 4"
  by (induction bs rule: u32s.induct) simp_all

lemma bytes32_u32s: "4 dvd length bs \<Longrightarrow> bytes32 (u32s bs) = bs"
proof (induction bs rule: u32s.induct)
  case (1 a b c d r)
  then have "4 dvd length r" by (simp, presburger)
  with 1 show ?case by (simp add: bytes_of_le32)
qed (simp_all add: dvd_def, presburger+)

lemma u32s_replicate_0: "u32s (replicate (4 * n) 0) = replicate n 0"
proof (induction n)
  case (Suc n)
  have "replicate (4 * Suc n) (0 :: u8) = 0 # 0 # 0 # 0 # replicate (4 * n) 0"
    by (simp add: numeral_eq_Suc)
  with Suc show ?case by (simp add: le32_def)
qed simp

section \<open>Patches and slices\<close>

lemma length_patch [simp]: "off + length src \<le> length buf \<Longrightarrow> length (patch buf off src) = length buf"
  by (simp add: patch_def)

lemma nth_patch:
  assumes "off + length src \<le> length buf" and "i < length buf"
  shows "patch buf off src ! i = (if off \<le> i \<and> i < off + length src then src ! (i - off) else buf ! i)"
  using assms by (auto simp: patch_def nth_append)

lemma patch_whole: "length src = length buf \<Longrightarrow> patch buf 0 src = src"
  by (simp add: patch_def)

lemma patch_Nil [simp]: "patch buf off [] = buf"
  by (simp add: patch_def)

lemma patch_patch:
  assumes "off + length a + length b \<le> length buf"
  shows "patch (patch buf off a) (off + length a) b = patch buf off (a @ b)"
  using assms by (intro nth_equalityI) (auto simp: nth_patch nth_append)

lemma length_slice [simp]: "length (slice off n xs) = min n (length xs - off)"
  by (simp add: slice_def)

lemma nth_slice: "off + i < length xs \<Longrightarrow> i < n \<Longrightarrow> slice off n xs ! i = xs ! (off + i)"
  by (simp add: slice_def)

lemma slice_patch_same: "off + length src \<le> length buf \<Longrightarrow> slice off (length src) (patch buf off src) = src"
  by (simp add: slice_def patch_def)

lemma slice_patch_other:
  assumes "off + length src \<le> length buf" and "o2 + n \<le> off \<or> off + length src \<le> o2" and "o2 + n \<le> length buf"
  shows "slice o2 n (patch buf off src) = slice o2 n buf"
  using assms by (intro nth_equalityI) (auto simp: nth_slice nth_patch)

end
