(* ===== verification/Vnode.thy ===== *)
theory Vnode
  imports Disk_Bytes
begin

text \<open>
  The types of \<open>include/vfs.h\<close> that every file system shares: vnodes, open files, directory
  entries, open flags and error codes. A vnode's \<open>ops\<close> pointer is the name of a static operation
  table (\<open>None\<close> for a NULL pointer); the tables themselves are in \<open>VFS\<close>.
\<close>

abbreviation ENOENT :: int where "ENOENT \<equiv> 2"
abbreviation EIO :: int where "EIO \<equiv> 5"
abbreviation EBADF :: int where "EBADF \<equiv> 9"
abbreviation ENOMEM :: int where "ENOMEM \<equiv> 12"
abbreviation EACCES :: int where "EACCES \<equiv> 13"
abbreviation EFAULT :: int where "EFAULT \<equiv> 14"
abbreviation EEXIST :: int where "EEXIST \<equiv> 17"
abbreviation ENOTDIR :: int where "ENOTDIR \<equiv> 20"
abbreviation EISDIR :: int where "EISDIR \<equiv> 21"
abbreviation EINVAL :: int where "EINVAL \<equiv> 22"
abbreviation EFBIG :: int where "EFBIG \<equiv> 27"
abbreviation ENOSPC :: int where "ENOSPC \<equiv> 28"
abbreviation ENAMETOOLONG :: int where "ENAMETOOLONG \<equiv> 36"
abbreviation ENOTEMPTY :: int where "ENOTEMPTY \<equiv> 39"
abbreviation ENOTSUP :: int where "ENOTSUP \<equiv> 95"

abbreviation O_WRONLY :: u64 where "O_WRONLY \<equiv> 0x0001"
abbreviation O_RDWR :: u64 where "O_RDWR \<equiv> 0x0002"
abbreviation O_CREAT :: u64 where "O_CREAT \<equiv> 0x0040"
abbreviation O_EXCL :: u64 where "O_EXCL \<equiv> 0x0080"
abbreviation O_TRUNC :: u64 where "O_TRUNC \<equiv> 0x0200"
abbreviation O_APPEND :: u64 where "O_APPEND \<equiv> 0x0400"

abbreviation DT_REG :: u64 where "DT_REG \<equiv> 1"
abbreviation DT_DIR :: u64 where "DT_DIR \<equiv> 2"
abbreviation VNODE_TYPE_FILE :: u32 where "VNODE_TYPE_FILE \<equiv> 1"
abbreviation VNODE_TYPE_DIR :: u32 where "VNODE_TYPE_DIR \<equiv> 2"

record 'k vnode =
  ops :: "'k option"
  fs_private :: u64
  vtype :: u32

record kfile =
  offset :: u64
  flags :: u64

record dirent =
  d_ino :: u64
  d_type :: u64
  d_reclen :: u64
  d_name :: "u8 list"

abbreviation DIRENT_SIZE :: int where "DIRENT_SIZE \<equiv> 280"

section \<open>The mounted root\<close>

record 'k vfs =
  root_vnode :: "'k vnode option"

definition vfs_init :: "'k vfs \<Rightarrow> 'k vfs" where
  "vfs_init v = v\<lparr>root_vnode := None\<rparr>"

definition vfs_mount_root :: "'k vnode \<Rightarrow> 'k vfs \<Rightarrow> int \<times> 'k vfs" where
  "vfs_mount_root root v =
     (if root_vnode v \<noteq> None then (- EINVAL, v) else (0, v\<lparr>root_vnode := Some root\<rparr>))"

end
