(* ===== verification/Block_Device.thy ===== *)
theory Block_Device
  imports Vnode
begin

text \<open>
  The block layer of \<open>kernel/fs/blk.c\<close>: the device registry and the byte-granular view of a
  device that \<open>/dev/hda\<close> gives. A driver is a record of two functions, as \<open>struct blk_dev\<close> is;
  reading and writing may change the driver's own state, may fail with a code and may never
  return. The locale \<open>block_device\<close> is what the layers above rely on: sectors in range read back
  what was last written.
\<close>

section \<open>Devices and the registry\<close>

abbreviation BLK_SECTOR_SIZE :: nat where "BLK_SECTOR_SIZE \<equiv> 512"
abbreviation MAX_BLK_DEVS :: nat where "MAX_BLK_DEVS \<equiv> 8"

record 'd blk_dev =
  blk_name :: "u8 list"
  sector_count :: u64
  read_sectors :: "'d \<Rightarrow> u64 \<Rightarrow> u32 \<Rightarrow> (int \<times> u8 list \<times> 'd) outcome"
  write_sectors :: "'d \<Rightarrow> u64 \<Rightarrow> u32 \<Rightarrow> u8 list \<Rightarrow> (int \<times> 'd) outcome"
  priv :: 'd

text \<open>
  \<open>registered_devs\<close> holds addresses of devices, 0 for NULL; \<open>blk_devs\<close> is the store they point to.
\<close>

record 'd blk =
  registered_devs :: "u64 list"
  num_devs :: nat
  blk_devs :: "u64 \<Rightarrow> 'd blk_dev"

definition blk_init :: "'d blk \<Rightarrow> 'd blk" where
  "blk_init b = b\<lparr>num_devs := 0, registered_devs := replicate MAX_BLK_DEVS 0\<rparr>"

definition blk_register :: "u64 \<Rightarrow> 'd blk \<Rightarrow> 'd blk" where
  "blk_register dev b =
     (if num_devs b \<ge> MAX_BLK_DEVS then b
      else b\<lparr>registered_devs := (registered_devs b)[num_devs b := dev], num_devs := num_devs b + 1\<rparr>)"

fun get_dev_loop :: "('a \<Rightarrow> u8 list) \<Rightarrow> u8 list \<Rightarrow> 'a list \<Rightarrow> 'a option" where
  "get_dev_loop nm n [] = None"
| "get_dev_loop nm n (p # ps) = (if nm p = n then Some p else get_dev_loop nm n ps)"

definition blk_get_dev :: "u8 list \<Rightarrow> 'd blk \<Rightarrow> u64 option" where
  "blk_get_dev name b =
     get_dev_loop (\<lambda>p. blk_name (blk_devs b p)) name (take (num_devs b) (registered_devs b))"

text \<open>\<open>kmalloc_ok\<close> says whether the allocation of the vnode succeeds; \<open>k\<close> names the table \<open>blk_ops\<close>.\<close>

definition blk_get_vnode :: "'k \<Rightarrow> bool \<Rightarrow> u8 list \<Rightarrow> 'd blk \<Rightarrow> 'k vnode option" where
  "blk_get_vnode k kmalloc_ok name b =
     (case blk_get_dev name b of
        None \<Rightarrow> None
      | Some dev \<Rightarrow> if \<not> kmalloc_ok then None
          else Some \<lparr>ops = Some k, fs_private = dev, vtype = VNODE_TYPE_FILE\<rparr>)"

section \<open>Reading and writing a device as a byte array\<close>

text \<open>The loop of \<open>blk_vnode_read\<close>; \<open>acc\<close> is what has been copied to the caller's buffer.\<close>

function (sequential) blk_read_loop ::
  "'d blk_dev \<Rightarrow> kfile \<Rightarrow> u64 \<Rightarrow> nat \<Rightarrow> nat \<Rightarrow> u8 list \<Rightarrow> (u8 list \<times> kfile \<times> 'd blk_dev) outcome" where
  "blk_read_loop dev f lba off count acc =
     (if \<not> (0 < count \<and> lba < sector_count dev) then Inr (acc, f, dev)
      else (case read_sectors dev (priv dev) lba 1 of
          Inl e \<Rightarrow> Inl e
        | Inr (err, bounce, d) \<Rightarrow>
           if err \<noteq> 0 then Inr (acc, f, dev\<lparr>priv := d\<rparr>)
           else blk_read_loop (dev\<lparr>priv := d\<rparr>)
                  (f\<lparr>offset := offset f + of_nat (min (BLK_SECTOR_SIZE - off) count)\<rparr>) (lba + 1) 0
                  (count - min (BLK_SECTOR_SIZE - off) count)
                  (acc @ slice off (min (BLK_SECTOR_SIZE - off) count) bounce)))"
  by pat_completeness auto
termination
  by (relation "measures [\<lambda>(_, _, _, _, count, _). count, \<lambda>(_, _, _, off, _, _). off]") auto

definition blk_vnode_read ::
  "'k vnode \<Rightarrow> kfile \<Rightarrow> nat \<Rightarrow> 'd blk \<Rightarrow> (int \<times> u8 list \<times> kfile \<times> 'd blk) outcome" where
  "blk_vnode_read vn f count b =
     (if fs_private vn = 0 then Inr (- 1, [], f, b)
      else bindF (blk_read_loop (blk_devs b (fs_private vn)) f (offset f div 512) (unat (offset f mod 512)) count [])
        (\<lambda>(out, f', dev). Inr (0, out, f', b\<lparr>blk_devs := (blk_devs b)(fs_private vn := dev)\<rparr>)))"

text \<open>The loop of \<open>blk_vnode_write\<close>; \<open>src\<close> is what remains to be written.\<close>

function (sequential) blk_write_loop ::
  "'d blk_dev \<Rightarrow> kfile \<Rightarrow> u64 \<Rightarrow> nat \<Rightarrow> u8 list \<Rightarrow> nat \<Rightarrow> (nat \<times> kfile \<times> 'd blk_dev) outcome" where
  "blk_write_loop dev f lba off src tw =
     (if \<not> (0 < length src \<and> lba < sector_count dev) then Inr (tw, f, dev)
      else (case (if 0 < off \<or> length src < BLK_SECTOR_SIZE then read_sectors dev (priv dev) lba 1
                 else Inr (0, replicate BLK_SECTOR_SIZE 0, priv dev)) of
          Inl e \<Rightarrow> Inl e
        | Inr (err, bounce, d) \<Rightarrow>
           if err \<noteq> 0 then Inr (tw, f, dev\<lparr>priv := d\<rparr>)
           else (case write_sectors dev d lba 1 (patch bounce off (take (BLK_SECTOR_SIZE - off) src)) of
               Inl e \<Rightarrow> Inl e
             | Inr (werr, d') \<Rightarrow>
                if werr \<noteq> 0 then Inr (tw, f, dev\<lparr>priv := d'\<rparr>)
                else blk_write_loop (dev\<lparr>priv := d'\<rparr>)
                       (f\<lparr>offset := offset f + of_nat (min (BLK_SECTOR_SIZE - off) (length src))\<rparr>) (lba + 1) 0
                       (drop (BLK_SECTOR_SIZE - off) src)
                       (tw + min (BLK_SECTOR_SIZE - off) (length src)))))"
  by pat_completeness auto
termination
  by (relation "measures [\<lambda>(_, _, _, _, src, _). length src, \<lambda>(_, _, _, off, _, _). off]")
    (auto, rule ccontr, simp)

definition blk_vnode_write ::
  "'k vnode \<Rightarrow> kfile \<Rightarrow> u8 list \<Rightarrow> 'd blk \<Rightarrow> (int \<times> nat \<times> kfile \<times> 'd blk) outcome" where
  "blk_vnode_write vn f buf b =
     (if fs_private vn = 0 then Inr (- 1, 0, f, b)
      else bindF (blk_write_loop (blk_devs b (fs_private vn)) f (offset f div 512) (unat (offset f mod 512)) buf 0)
        (\<lambda>(n, f', dev). Inr (0, n, f', b\<lparr>blk_devs := (blk_devs b)(fs_private vn := dev)\<rparr>)))"

definition blk_vnode_close :: "'k vnode \<Rightarrow> kfile \<Rightarrow> 'd blk \<Rightarrow> 'd blk" where
  "blk_vnode_close vn f b = b"

declare blk_read_loop.simps [simp del] blk_write_loop.simps [simp del]

section \<open>What a driver promises\<close>

text \<open>The medium as one array of bytes.\<close>

definition disk_bytes :: "(nat \<Rightarrow> u8 list) \<Rightarrow> nat \<Rightarrow> u8 list" where
  "disk_bytes V n = concat (map V [0 ..< n])"

text \<open>
  \<open>sectors\<close> is the content of the medium, \<open>nsec\<close> its size, \<open>ready\<close> the driver's invariant between
  calls. Requests outside the medium are left open.
\<close>

locale block_device =
  fixes rd :: "'d \<Rightarrow> u64 \<Rightarrow> u32 \<Rightarrow> (int \<times> u8 list \<times> 'd) outcome"
    and wr :: "'d \<Rightarrow> u64 \<Rightarrow> u32 \<Rightarrow> u8 list \<Rightarrow> (int \<times> 'd) outcome"
    and sectors :: "'d \<Rightarrow> nat \<Rightarrow> u8 list"
    and nsec :: nat
    and ready :: "'d \<Rightarrow> bool"
  assumes rd_ok: "ready d \<Longrightarrow> unat lba + unat n \<le> nsec \<Longrightarrow>
      \<exists>d'. rd d lba n = Inr (0, concat (map (sectors d) [unat lba ..< unat lba + unat n]), d')
        \<and> ready d' \<and> sectors d' = sectors d"
    and wr_ok: "ready d \<Longrightarrow> unat lba < nsec \<Longrightarrow> length b = BLK_SECTOR_SIZE \<Longrightarrow>
      \<exists>d'. wr d lba 1 b = Inr (0, d') \<and> ready d' \<and> sectors d' = (sectors d)(unat lba := b)"
    and sector_len: "ready d \<Longrightarrow> i < nsec \<Longrightarrow> length (sectors d i) = BLK_SECTOR_SIZE"
    and nsec_bound: "nsec < 2 ^ 55"
begin

lemma rd_one:
  assumes "ready d" and "unat lba < nsec"
  obtains d' where "rd d lba 1 = Inr (0, sectors d (unat lba), d')" and "ready d'" and "sectors d' = sectors d"
  using rd_ok [OF assms(1), of lba 1] assms(2) by auto

definition flat :: "'d \<Rightarrow> u8 list" where
  "flat d = disk_bytes (sectors d) nsec"

lemma length_flat [simp]: "ready d \<Longrightarrow> length (flat d) = 512 * nsec"
proof -
  assume "ready d"
  then have "length (concat (map (sectors d) [0 ..< n])) = 512 * n" if "n \<le> nsec" for n
    using that by (induction n) (simp_all add: sector_len)
  then show ?thesis by (simp add: flat_def disk_bytes_def)
qed

lemma nth_flat:
  assumes "ready d" and "i < 512 * nsec"
  shows "flat d ! i = sectors d (i div 512) ! (i mod 512)"
proof -
  have "concat (map (sectors d) [0 ..< n]) ! i = sectors d (i div 512) ! (i mod 512)"
    if "n \<le> nsec" and "i < 512 * n" for n
    using that
  proof (induction n)
    case (Suc n)
    have len: "length (concat (map (sectors d) [0 ..< n])) = 512 * n"
      using Suc.prems(1) assms(1) by (induction n) (simp_all add: sector_len)
    show ?case
    proof (cases "i < 512 * n")
      case True
      with Suc len show ?thesis by (simp add: nth_append)
    next
      case False
      then have n: "i div 512 = n" using Suc.prems(2) by auto
      then have "i mod 512 = i - 512 * n" by (simp flip: minus_mult_div_eq_mod)
      note n this
      with False len show ?thesis by (simp add: nth_append)
    qed
  qed simp
  then show ?thesis using assms(2) by (simp add: flat_def disk_bytes_def)
qed

lemma flat_cong: "sectors d = sectors d' \<Longrightarrow> flat d = flat d'"
  by (simp add: flat_def disk_bytes_def)

text \<open>One sector of the array, in front of the rest.\<close>

lemma drop_flat:
  assumes "ready d" and "k < nsec"
  shows "drop (512 * k) (flat d) = sectors d k @ drop (512 * (k + 1)) (flat d)"
proof (rule nth_equalityI)
  show "length (drop (512 * k) (flat d)) = length (sectors d k @ drop (512 * (k + 1)) (flat d))"
    using assms sector_len [OF assms] by (simp add: algebra_simps) 
  fix i assume "i < length (drop (512 * k) (flat d))"
  with assms have i: "512 * k + i < 512 * nsec" by (simp add: less_diff_conv add.commute)
  have "(512 * k + i) div 512 = k \<and> (512 * k + i) mod 512 = i" if "i < 512" using that by simp
  moreover have "512 * (k + 1) + (i - 512) = 512 * k + i" if "\<not> i < 512" using that by simp
  ultimately show "drop (512 * k) (flat d) ! i = (sectors d k @ drop (512 * (k + 1)) (flat d)) ! i"
    using assms sector_len [OF assms] nth_flat [OF assms(1) i] i by (simp add: nth_append)
qed

lemma flat_update:
  assumes "ready d" and "ready d'" and "sectors d' = (sectors d)(k := patch (sectors d k) off src)"
    and "k < nsec" and "off + length src \<le> 512"
  shows "flat d' = patch (flat d) (512 * k + off) src"
proof (rule nth_equalityI)
  have kk: "512 * k + off + length src \<le> length (flat d)" 
    using assms by (simp add: length_flat) 
  then show len: "length (flat d') = length (patch (flat d) (512 * k + off) src)"
    using assms by simp
  fix i assume "i < length (flat d')"
  then have i: "i < 512 * nsec" using assms by simp
  have i2: "i < length (flat d)" using i assms by simp
  show "flat d' ! i = patch (flat d) (512 * k + off) src ! i"
  proof (cases "i div 512 = k")
    case True
    then have "i = 512 * k + i mod 512" by (metis mult_div_mod_eq)
    with True show ?thesis
      using nth_flat [OF assms(2) i] nth_flat [OF assms(1) i] assms(3,5) kk i2 sector_len [OF assms(1,4)]
      by (simp add: nth_patch) (metis (no_types, lifting) add_diff_cancel_left add_less_cancel_left add_le_cancel_left group_cancel.add1)
  next
    case False
    then have "\<not> (512 * k + off \<le> i \<and> i < 512 * k + off + length src)"
      using assms(5) by auto
    with False show ?thesis
      using nth_flat [OF assms(2) i] nth_flat [OF assms(1) i] assms(3) kk i2 by (auto simp: nth_patch)
  qed
qed

lemma blk_read_loop_spec:
  assumes "ready (priv dev)" and "read_sectors dev = rd" and "sector_count dev = of_nat nsec" and "off < 512"
  shows "\<exists>d'. blk_read_loop dev f lba off count acc
      = Inr (acc @ take count (drop (512 * unat lba + off) (flat (priv dev))),
             f\<lparr>offset := offset f + of_nat (min count (512 * nsec - (512 * unat lba + off)))\<rparr>, dev\<lparr>priv := d'\<rparr>)
    \<and> ready d' \<and> sectors d' = sectors (priv dev)"
  using assms
proof (induction count arbitrary: dev f lba off acc rule: less_induct)
  case (less count)
  have lt: "lba < sector_count dev \<longleftrightarrow> unat lba < nsec"
    using less.prems(3) nsec_bound by (simp add: word_less_nat_alt unat_of_nat)
  show ?case
  proof (cases "0 < count \<and> unat lba < nsec")
    case False
    then have "take count (drop (512 * unat lba + off) (flat (priv dev))) = []"
      and "min count (512 * nsec - (512 * unat lba + off)) = 0"
      using less.prems(1) by auto
    with False lt less.prems(1) show ?thesis
      by (subst blk_read_loop.simps) (auto intro!: exI [of _ "priv dev"])
  next
    case True
    obtain d where d: "rd (priv dev) lba 1 = Inr (0, sectors (priv dev) (unat lba), d)" "ready d" "sectors d = sectors (priv dev)"
      using rd_one [OF less.prems(1)] True by blast
    define n where "n = min (512 - off) count"
    define pos where "pos = 512 * unat lba + off"
    have n: "0 < n" "n \<le> count" "off + n \<le> 512" using True less.prems(4) by (auto simp: n_def)
    have next_lba: "unat (lba + 1) = unat lba + 1" using True nsec_bound by (intro unat_plus_1) simp
    have D: "drop pos (flat (priv dev)) = drop off (sectors (priv dev) (unat lba)) @ drop (512 * (unat lba + 1)) (flat (priv dev))"
    proof -
      have "drop pos (flat (priv dev)) = drop off (drop (512 * unat lba) (flat (priv dev)))"
        by (simp add: pos_def add.commute)
      then show ?thesis
        using drop_flat [OF less.prems(1), of "unat lba"] True less.prems(4) sector_len [OF less.prems(1), of "unat lba"]
        by simp
    qed
    have sl: "slice off n (sectors (priv dev) (unat lba)) @ take (count - n) (drop (512 * (unat lba + 1)) (flat (priv dev)))
        = take count (drop pos (flat (priv dev)))"
      using True sector_len [OF less.prems(1), of "unat lba"] n less.prems(4)
      by (auto simp: D slice_def n_def min_def)
    have cnt: "n + min (count - n) (512 * nsec - 512 * (unat lba + 1)) = min count (512 * nsec - pos)"
      using True n less.prems(4) unfolding pos_def n_def by (auto simp: min_def)
    obtain d' where d': "blk_read_loop (dev\<lparr>priv := d\<rparr>) (f\<lparr>offset := offset f + of_nat n\<rparr>) (lba + 1) 0 (count - n)
          (acc @ slice off n (sectors (priv dev) (unat lba)))
        = Inr ((acc @ slice off n (sectors (priv dev) (unat lba))) @ take (count - n) (drop (512 * (unat lba + 1)) (flat d)),
             f\<lparr>offset := offset f + of_nat n + of_nat (min (count - n) (512 * nsec - 512 * (unat lba + 1)))\<rparr>,
             dev\<lparr>priv := d'\<rparr>)" "ready d'" "sectors d' = sectors d"
      using less.IH [of "count - n" "dev\<lparr>priv := d\<rparr>" 0 "f\<lparr>offset := offset f + of_nat n\<rparr>" "lba + 1"
        "acc @ slice off n (sectors (priv dev) (unat lba))"] n True d(2)
        less.prems(2,3) next_lba by auto
    show ?thesis
      using True lt d d' sl less.prems(2) flat_cong [OF d(3)] cnt [symmetric]
      by (subst blk_read_loop.simps) (auto simp: n_def [symmetric] pos_def [symmetric] add.assoc)
  qed
qed

lemma blk_write_loop_spec:
  assumes "ready (priv dev)" and "read_sectors dev = rd" and "write_sectors dev = wr"
    and "sector_count dev = of_nat nsec" and "off < 512"
  shows "\<exists>d'. blk_write_loop dev f lba off src tw
      = Inr (tw + min (length src) (512 * nsec - (512 * unat lba + off)),
             f\<lparr>offset := offset f + of_nat (min (length src) (512 * nsec - (512 * unat lba + off)))\<rparr>, dev\<lparr>priv := d'\<rparr>)
    \<and> ready d'
    \<and> flat d' = patch (flat (priv dev)) (512 * unat lba + off) (take (512 * nsec - (512 * unat lba + off)) src)"
  using assms
proof (induction "length src" arbitrary: dev f lba off src tw rule: less_induct)
  case less
  define pos where "pos = 512 * unat lba + off"
  have lt: "lba < sector_count dev \<longleftrightarrow> unat lba < nsec"
    using less.prems(4) nsec_bound by (simp add: word_less_nat_alt unat_of_nat)
  show ?case
  proof (cases "src \<noteq> [] \<and> unat lba < nsec")
    case False
    then have z: "take (512 * nsec - pos) src = []" "min (length src) (512 * nsec - pos) = 0"
      by (auto simp: pos_def)
    with False lt less.prems(1) show ?thesis
      by (subst blk_write_loop.simps) (auto intro!: exI [of _ "priv dev"] simp: patch_def pos_def)
  next
    case True
    define sec where "sec = sectors (priv dev) (unat lba)"
    define n where "n = min (512 - off) (length src)"
    define new where "new = patch sec off (take n src)"
    have sec: "length sec = 512" using sector_len [OF less.prems(1)] True by (simp add: sec_def)
    have n: "0 < n" "n \<le> length src" "off + n \<le> 512" using True less.prems(5) by (auto simp: n_def)
    have tn: "take (512 - off) src = take n src" "drop (512 - off) src = drop n src"
      by (simp_all add: n_def min_def)
    have next_lba: "unat (lba + 1) = unat lba + 1" using True nsec_bound by (intro unat_plus_1) simp
    obtain d1 where d1: "rd (priv dev) lba 1 = Inr (0, sec, d1)" "ready d1" "sectors d1 = sectors (priv dev)"
      using rd_one [OF less.prems(1)] True sec_def by blast
    obtain bounce d2 where d2: "(if 0 < off \<or> length src < 512 then rd (priv dev) lba 1
          else Inr (0, replicate 512 0, priv dev)) = Inr (0, bounce, d2)" "ready d2" "sectors d2 = sectors (priv dev)"
        "patch bounce off (take n src) = new"
    proof (cases "0 < off \<or> length src < 512")
      case True
      with d1 that show thesis by (simp add: new_def)
    next
      case False
      then have "patch (replicate 512 0) off (take n src) = new"
        by (simp add: new_def patch_whole n_def sec)
      with False less.prems(1) that show thesis by auto
    qed
    have "length new = 512" using n sec by (simp add: new_def)
    then obtain d3 where d3: "wr d2 lba 1 new = Inr (0, d3)" "ready d3" "sectors d3 = (sectors d2)(unat lba := new)"
      using wr_ok [OF d2(2)] True by blast
    have F: "flat d3 = patch (flat (priv dev)) pos (take n src)"
      unfolding pos_def
      by (rule flat_update) (use less.prems(1) d3 d2(3) True n in \<open>simp_all add: new_def sec_def\<close>)
    define m where "m = min (length src - n) (512 * nsec - 512 * (unat lba + 1))"
    have cnt: "n + m = min (length src) (512 * nsec - pos)"
      using True n less.prems(5) unfolding pos_def n_def m_def by (auto simp: min_def)
    obtain d' where d': "blk_write_loop (dev\<lparr>priv := d3\<rparr>) (f\<lparr>offset := offset f + of_nat n\<rparr>) (lba + 1) 0 (drop n src) (tw + n)
        = Inr (tw + n + m, f\<lparr>offset := offset f + of_nat n + of_nat m\<rparr>, dev\<lparr>priv := d'\<rparr>)" "ready d'"
      "flat d' = patch (flat d3) (512 * (unat lba + 1)) (take (512 * nsec - 512 * (unat lba + 1)) (drop n src))"
      using less.hyps [of "drop n src" "dev\<lparr>priv := d3\<rparr>" 0 "f\<lparr>offset := offset f + of_nat n\<rparr>" "lba + 1" "tw + n"]
        n True d3(2) less.prems(2-4) next_lba by (auto simp: m_def)
    have split: "take (512 * nsec - pos) src = take n src @ take (512 * nsec - 512 * (unat lba + 1)) (drop n src)"
    proof (cases "off + n = 512")
      case True
      then have "512 * nsec - pos = n + (512 * nsec - 512 * (unat lba + 1))"
        using \<open>src \<noteq> [] \<and> unat lba < nsec\<close> unfolding pos_def by simp
      then show ?thesis by (simp only: take_add)
    next
      case False
      then have "length src = n" using n(3) by (simp add: n_def min_def split: if_splits)
      moreover have "n \<le> 512 * nsec - pos"
        using n(3) \<open>src \<noteq> [] \<and> unat lba < nsec\<close> unfolding pos_def by linarith
      ultimately show ?thesis by simp
    qed
    have "flat d' = patch (flat (priv dev)) pos (take (512 * nsec - pos) src)"
    proof (cases "off + n = 512")
      case True
      then have e: "512 * (unat lba + 1) = pos + length (take n src)" using n by (simp add: pos_def)
      moreover have "512 * (unat lba + 1) \<le> 512 * nsec" using \<open>src \<noteq> [] \<and> unat lba < nsec\<close> by simp
      ultimately have "pos + length (take n src) + length (take (512 * nsec - 512 * (unat lba + 1)) (drop n src))
          \<le> length (flat (priv dev))"
        using less.prems(1) by (simp add: length_take)
      from patch_patch [OF this] show ?thesis unfolding d'(3) F split e by simp
    next
      case False
      then have "drop n src = []" using n by (simp add: n_def)
      then show ?thesis using d'(3) F split by simp
    qed
    moreover have "blk_write_loop dev f lba off src tw
        = blk_write_loop (dev\<lparr>priv := d3\<rparr>) (f\<lparr>offset := offset f + of_nat n\<rparr>) (lba + 1) 0 (drop n src) (tw + n)"
      using True lt d2(4) d3(1)
      by (subst blk_write_loop.simps, unfold less.prems(2,3) d2(1)) (simp add: tn n_def [symmetric])
    ultimately show ?thesis
      using d'(1,2) cnt by (auto simp: pos_def [symmetric] add.assoc simp flip: of_nat_add)
  qed
qed

end

section \<open>A device in memory\<close>

text \<open>The reference implementation of the contract: \<open>n\<close> sectors in an array, no failures inside it.\<close>

definition ram_read :: "nat \<Rightarrow> (nat \<Rightarrow> u8 list) \<Rightarrow> u64 \<Rightarrow> u32 \<Rightarrow> (int \<times> u8 list \<times> (nat \<Rightarrow> u8 list)) outcome" where
  "ram_read n d lba k =
     (if unat lba + unat k \<le> n then Inr (0, concat (map d [unat lba ..< unat lba + unat k]), d)
      else Inr (- 1, [], d))"

definition ram_write :: "nat \<Rightarrow> (nat \<Rightarrow> u8 list) \<Rightarrow> u64 \<Rightarrow> u32 \<Rightarrow> u8 list \<Rightarrow> (int \<times> (nat \<Rightarrow> u8 list)) outcome" where
  "ram_write n d lba k b =
     (if unat lba + unat k \<le> n
      then Inr (0, \<lambda>i. if unat lba \<le> i \<and> i < unat lba + unat k then slice (512 * (i - unat lba)) 512 b else d i)
      else Inr (- 1, d))"

definition ram_ready :: "nat \<Rightarrow> (nat \<Rightarrow> u8 list) \<Rightarrow> bool" where
  "ram_ready n d \<longleftrightarrow> (\<forall>i < n. length (d i) = BLK_SECTOR_SIZE)"

lemma ram_block_device:
  assumes "n < 2 ^ 55"
  shows "block_device (ram_read n) (ram_write n) id n (ram_ready n)"
proof
  fix d :: "nat \<Rightarrow> u8 list" and lba :: u64 and b :: "u8 list"
  assume d: "ram_ready n d" "unat lba < n" "length b = BLK_SECTOR_SIZE"
  then have "(\<lambda>i. if unat lba \<le> i \<and> i < unat lba + 1 then slice (512 * (i - unat lba)) 512 b else d i) = d(unat lba := b)"
    by (auto simp: slice_def fun_eq_iff)
  with d show "\<exists>d'. ram_write n d lba 1 b = Inr (0, d') \<and> ram_ready n d' \<and> id d' = (id d)(unat lba := b)"
    by (auto simp: ram_write_def ram_ready_def)
qed (use assms in \<open>auto simp: ram_read_def ram_ready_def\<close>)

section \<open>The byte-granular view is an array\<close>

text \<open>\<open>dev\<close> is driven by the functions of a \<open>block_device\<close> and announces the size of the medium.\<close>

definition blk_drives ::
  "('d \<Rightarrow> u64 \<Rightarrow> u32 \<Rightarrow> (int \<times> u8 list \<times> 'd) outcome) \<Rightarrow> ('d \<Rightarrow> u64 \<Rightarrow> u32 \<Rightarrow> u8 list \<Rightarrow> (int \<times> 'd) outcome)
    \<Rightarrow> nat \<Rightarrow> ('d \<Rightarrow> bool) \<Rightarrow> 'd blk_dev \<Rightarrow> bool" where
  "blk_drives rd wr n ready dev \<longleftrightarrow> read_sectors dev = rd \<and> write_sectors dev = wr
     \<and> sector_count dev = of_nat n \<and> ready (priv dev)"

lemma unat_div_mod_512: "512 * unat (x div 512 :: u64) + unat (x mod 512) = unat x"
proof -
  have "unat (x div 512) = unat x div 512" "unat (x mod 512) = unat x mod 512"
    by (simp_all add: unat_div unat_mod)
  then show ?thesis by (simp only: mult_div_mod_eq)
qed

lemma unat_mod_512_less: "unat (x mod 512 :: u64) < 512"
  by (simp add: unat_mod)

text \<open>
  C18. Reading \<open>/dev/hda\<close>: on a device that keeps its contract, \<open>blk_vnode_read\<close> returns exactly the
  bytes of the medium from the file offset on, as many as were asked for or as there are, moves
  the offset by that number and leaves the medium as it was.
\<close>

theorem blk_vnode_read_correct:
  assumes "block_device rd wr sectors n ready" and "fs_private vn \<noteq> 0"
    and "blk_drives rd wr n ready (blk_devs b (fs_private vn))"
  shows "\<exists>d'. blk_vnode_read vn f count b
      = Inr (0, slice (unat (offset f)) count (disk_bytes (sectors (priv (blk_devs b (fs_private vn)))) n),
          f\<lparr>offset := offset f + of_nat (min count (512 * n - unat (offset f)))\<rparr>,
          b\<lparr>blk_devs := (blk_devs b)(fs_private vn := (blk_devs b (fs_private vn))\<lparr>priv := d'\<rparr>)\<rparr>)
    \<and> ready d' \<and> sectors d' = sectors (priv (blk_devs b (fs_private vn)))"
proof -
  from block_device.blk_read_loop_spec [OF assms(1), of "blk_devs b (fs_private vn)" "unat (offset f mod 512)" f
      "offset f div 512" count "[]"]
  show ?thesis
    using assms(2,3)
    by (auto simp: blk_vnode_read_def blk_drives_def unat_div_mod_512 unat_mod_512_less slice_def
        block_device.flat_def [OF assms(1)])
qed

theorem blk_vnode_read_correct_witness:
  "\<exists>d'. blk_vnode_read \<lparr>ops = Some (), fs_private = 1, vtype = VNODE_TYPE_FILE\<rparr> \<lparr>offset = 1022, flags = 0\<rparr> 10
      \<lparr>registered_devs = [1], num_devs = 1, blk_devs = (\<lambda>_. \<lparr>blk_name = [], sector_count = 2,
        read_sectors = ram_read 2, write_sectors = ram_write 2, priv = (\<lambda>i. replicate 512 7)\<rparr>)\<rparr>
    = Inr (0, slice 1022 10 (disk_bytes (\<lambda>i. replicate 512 7) 2), \<lparr>offset = 1024, flags = 0\<rparr>,
      \<lparr>registered_devs = [1], num_devs = 1, blk_devs = (\<lambda>_. \<lparr>blk_name = [], sector_count = 2,
        read_sectors = ram_read 2, write_sectors = ram_write 2, priv = (\<lambda>i. replicate 512 7)\<rparr>)
        (1 := \<lparr>blk_name = [], sector_count = 2,
        read_sectors = ram_read 2, write_sectors = ram_write 2, priv = d'\<rparr>)\<rparr>)"
  using blk_vnode_read_correct [OF ram_block_device [of 2],
    where vn = "\<lparr>ops = Some (), fs_private = 1, vtype = VNODE_TYPE_FILE\<rparr>"
      and f = "\<lparr>offset = 1022, flags = 0\<rparr>" and count = 10
      and b = "\<lparr>registered_devs = [1], num_devs = 1, blk_devs = (\<lambda>_. \<lparr>blk_name = [], sector_count = 2,
        read_sectors = ram_read 2, write_sectors = ram_write 2, priv = (\<lambda>i. replicate 512 7)\<rparr>)\<rparr>"]
  by (auto simp: blk_drives_def ram_ready_def)

text \<open>
  C17. Writing \<open>/dev/hda\<close>: on a device that keeps its contract, \<open>blk_vnode_write\<close> overwrites the bytes
  of the medium from the file offset on with the caller's, up to the end of the medium, changes no
  other byte, and reports and advances by the number written.
\<close>

theorem blk_vnode_write_correct:
  assumes "block_device rd wr sectors n ready" and "fs_private vn \<noteq> 0"
    and "blk_drives rd wr n ready (blk_devs b (fs_private vn))"
  shows "\<exists>d'. blk_vnode_write vn f buf b
      = Inr (0, min (length buf) (512 * n - unat (offset f)),
          f\<lparr>offset := offset f + of_nat (min (length buf) (512 * n - unat (offset f)))\<rparr>,
          b\<lparr>blk_devs := (blk_devs b)(fs_private vn := (blk_devs b (fs_private vn))\<lparr>priv := d'\<rparr>)\<rparr>)
    \<and> ready d'
    \<and> disk_bytes (sectors d') n = patch (disk_bytes (sectors (priv (blk_devs b (fs_private vn)))) n)
        (unat (offset f)) (take (512 * n - unat (offset f)) buf)"
proof -
  from block_device.blk_write_loop_spec [OF assms(1), of "blk_devs b (fs_private vn)" "unat (offset f mod 512)" f
      "offset f div 512" buf 0]
  show ?thesis
    using assms(2,3)
    by (auto simp: blk_vnode_write_def blk_drives_def unat_div_mod_512 unat_mod_512_less
        block_device.flat_def [OF assms(1)])
qed

theorem blk_vnode_write_correct_witness:
  "\<exists>d'. blk_vnode_write \<lparr>ops = Some (), fs_private = 1, vtype = VNODE_TYPE_FILE\<rparr> \<lparr>offset = 511, flags = 0\<rparr> [1, 2, 3]
      \<lparr>registered_devs = [1], num_devs = 1, blk_devs = (\<lambda>_. \<lparr>blk_name = [], sector_count = 2,
        read_sectors = ram_read 2, write_sectors = ram_write 2, priv = (\<lambda>i. replicate 512 7)\<rparr>)\<rparr>
    = Inr (0, 3, \<lparr>offset = 514, flags = 0\<rparr>,
      \<lparr>registered_devs = [1], num_devs = 1, blk_devs = (\<lambda>_. \<lparr>blk_name = [], sector_count = 2,
        read_sectors = ram_read 2, write_sectors = ram_write 2, priv = (\<lambda>i. replicate 512 7)\<rparr>)
        (1 := \<lparr>blk_name = [], sector_count = 2,
        read_sectors = ram_read 2, write_sectors = ram_write 2, priv = d'\<rparr>)\<rparr>)
    \<and> disk_bytes d' 2 = patch (disk_bytes (\<lambda>i. replicate 512 7) 2) 511 [1, 2, 3]"
  using blk_vnode_write_correct [OF ram_block_device [of 2],
    where vn = "\<lparr>ops = Some (), fs_private = 1, vtype = VNODE_TYPE_FILE\<rparr>"
      and f = "\<lparr>offset = 511, flags = 0\<rparr>" and buf = "[1, 2, 3]"
      and b = "\<lparr>registered_devs = [1], num_devs = 1, blk_devs = (\<lambda>_. \<lparr>blk_name = [], sector_count = 2,
        read_sectors = ram_read 2, write_sectors = ram_write 2, priv = (\<lambda>i. replicate 512 7)\<rparr>)\<rparr>"]
  by (auto simp: blk_drives_def ram_ready_def)

end
