(* ===== verification/ATA.thy ===== *)
theory ATA
  imports Block_Device
begin

unbundle bit_operations_syntax

text \<open>
  The driver of \<open>kernel/drivers/ata.c\<close>: sector transfers by programmed I/O. The I/O ports are a
  parameter, the record \<open>ports\<close> of what \<open>in\<close> and \<open>out\<close> instructions do to the hardware. What an ATA
  drive documents of its registers is the locale \<open>ata_drive\<close>; on such a drive the driver is a
  \<open>block_device\<close>.
\<close>

section \<open>The driver\<close>

record 'h ports =
  inb :: "u16 \<Rightarrow> 'h \<Rightarrow> u8 \<times> 'h"
  inw :: "u16 \<Rightarrow> 'h \<Rightarrow> u16 \<times> 'h"
  outb :: "u16 \<Rightarrow> u8 \<Rightarrow> 'h \<Rightarrow> 'h"
  outw :: "u16 \<Rightarrow> u16 \<Rightarrow> 'h \<Rightarrow> 'h"

abbreviation ATA_PRIMARY_IO :: u16 where "ATA_PRIMARY_IO \<equiv> 0x1F0"
abbreviation ATA_REG_DATA :: u16 where "ATA_REG_DATA \<equiv> 0x00"
abbreviation ATA_REG_FEATURES :: u16 where "ATA_REG_FEATURES \<equiv> 0x01"
abbreviation ATA_REG_SECCOUNT :: u16 where "ATA_REG_SECCOUNT \<equiv> 0x02"
abbreviation ATA_REG_LBA0 :: u16 where "ATA_REG_LBA0 \<equiv> 0x03"
abbreviation ATA_REG_LBA1 :: u16 where "ATA_REG_LBA1 \<equiv> 0x04"
abbreviation ATA_REG_LBA2 :: u16 where "ATA_REG_LBA2 \<equiv> 0x05"
abbreviation ATA_REG_HDDEVSEL :: u16 where "ATA_REG_HDDEVSEL \<equiv> 0x06"
abbreviation ATA_REG_COMMAND :: u16 where "ATA_REG_COMMAND \<equiv> 0x07"
abbreviation ATA_REG_STATUS :: u16 where "ATA_REG_STATUS \<equiv> 0x07"
abbreviation ATA_CMD_READ_PIO :: u8 where "ATA_CMD_READ_PIO \<equiv> 0x20"
abbreviation ATA_CMD_WRITE_PIO :: u8 where "ATA_CMD_WRITE_PIO \<equiv> 0x30"
abbreviation ATA_CMD_IDENTIFY :: u8 where "ATA_CMD_IDENTIFY \<equiv> 0xEC"
abbreviation ATA_SR_BSY :: u8 where "ATA_SR_BSY \<equiv> 0x80"
abbreviation ATA_SR_DF :: u8 where "ATA_SR_DF \<equiv> 0x20"
abbreviation ATA_SR_DRQ :: u8 where "ATA_SR_DRQ \<equiv> 0x08"
abbreviation ATA_SR_ERR :: u8 where "ATA_SR_ERR \<equiv> 0x01"

text \<open>The two polling loops; \<open>None\<close> when the drive keeps them waiting for ever.\<close>

partial_function (option) ata_wait_ready :: "'h ports \<Rightarrow> 'h \<Rightarrow> (int \<times> 'h) option" where
  "ata_wait_ready P h =
     (case inb P (ATA_PRIMARY_IO + ATA_REG_STATUS) h of (status, h1) \<Rightarrow>
        if status AND ATA_SR_ERR \<noteq> 0 then Some (- 1, h1)
        else if status AND ATA_SR_DF \<noteq> 0 then Some (- 1, h1)
        else if status AND ATA_SR_BSY = 0 \<and> status AND ATA_SR_DRQ \<noteq> 0 then Some (0, h1)
        else ata_wait_ready P h1)"

partial_function (option) ata_wait_busy :: "'h ports \<Rightarrow> 'h \<Rightarrow> (int \<times> 'h) option" where
  "ata_wait_busy P h =
     (case inb P (ATA_PRIMARY_IO + ATA_REG_STATUS) h of (status, h1) \<Rightarrow>
        if status AND ATA_SR_ERR \<noteq> 0 then Some (- 1, h1)
        else if status AND ATA_SR_DF \<noteq> 0 then Some (- 1, h1)
        else if status AND ATA_SR_BSY = 0 then Some (0, h1)
        else ata_wait_busy P h1)"

fun ata_in_words :: "'h ports \<Rightarrow> nat \<Rightarrow> 'h \<Rightarrow> u16 list \<times> 'h" where
  "ata_in_words P 0 h = ([], h)"
| "ata_in_words P (Suc n) h =
     (case inw P (ATA_PRIMARY_IO + ATA_REG_DATA) h of (w, h1) \<Rightarrow>
        case ata_in_words P n h1 of (ws, h2) \<Rightarrow> (w # ws, h2))"

fun ata_out_words :: "'h ports \<Rightarrow> u16 list \<Rightarrow> 'h \<Rightarrow> 'h" where
  "ata_out_words P [] h = h"
| "ata_out_words P (w # ws) h = ata_out_words P ws (outw P (ATA_PRIMARY_IO + ATA_REG_DATA) w h)"

text \<open>The register writes that both transfer functions start with.\<close>

definition ata_command :: "'h ports \<Rightarrow> u64 \<Rightarrow> u8 \<Rightarrow> 'h \<Rightarrow> 'h" where
  "ata_command P lba cmd h =
     (let h = outb P (ATA_PRIMARY_IO + ATA_REG_HDDEVSEL) (ucast (0xE0 OR (drop_bit 24 lba AND 0x0F))) h;
          h = outb P (ATA_PRIMARY_IO + ATA_REG_FEATURES) 0 h;
          h = outb P (ATA_PRIMARY_IO + ATA_REG_SECCOUNT) 1 h;
          h = outb P (ATA_PRIMARY_IO + ATA_REG_LBA0) (ucast lba) h;
          h = outb P (ATA_PRIMARY_IO + ATA_REG_LBA1) (ucast (drop_bit 8 lba)) h;
          h = outb P (ATA_PRIMARY_IO + ATA_REG_LBA2) (ucast (drop_bit 16 lba)) h
      in outb P (ATA_PRIMARY_IO + ATA_REG_COMMAND) cmd h)"

fun ata_read_loop :: "'h ports \<Rightarrow> nat \<Rightarrow> u64 \<Rightarrow> 'h \<Rightarrow> (int \<times> u8 list \<times> 'h) outcome" where
  "ata_read_loop P 0 lba h = Inr (0, [], h)"
| "ata_read_loop P (Suc n) lba h =
     (case ata_wait_ready P (ata_command P lba ATA_CMD_READ_PIO h) of
        None \<Rightarrow> Inl Diverges
      | Some (err, h1) \<Rightarrow>
          if err \<noteq> 0 then Inr (- 1, [], h1)
          else (case ata_in_words P 256 h1 of (ws, h2) \<Rightarrow>
            bindF (ata_read_loop P n (lba + 1) h2) (\<lambda>(r, bs, h3). Inr (r, bytes16 ws @ bs, h3))))"

definition ata_read_sectors_impl :: "'h ports \<Rightarrow> 'h \<Rightarrow> u64 \<Rightarrow> u32 \<Rightarrow> (int \<times> u8 list \<times> 'h) outcome" where
  "ata_read_sectors_impl P h lba count = ata_read_loop P (unat count) lba h"

fun ata_write_loop :: "'h ports \<Rightarrow> nat \<Rightarrow> u64 \<Rightarrow> u16 list \<Rightarrow> 'h \<Rightarrow> (int \<times> 'h) outcome" where
  "ata_write_loop P 0 lba ptr h = Inr (0, h)"
| "ata_write_loop P (Suc n) lba ptr h =
     (case ata_wait_ready P (ata_command P lba ATA_CMD_WRITE_PIO h) of
        None \<Rightarrow> Inl Diverges
      | Some (err, h1) \<Rightarrow>
          if err \<noteq> 0 then Inr (- 1, h1)
          else (case ata_wait_busy P (ata_out_words P (take 256 ptr) h1) of
             None \<Rightarrow> Inl Diverges
           | Some (err2, h2) \<Rightarrow>
               if err2 \<noteq> 0 then Inr (- 1, h2)
               else ata_write_loop P n (lba + 1) (drop 256 ptr) h2))"

definition ata_write_sectors_impl :: "'h ports \<Rightarrow> 'h \<Rightarrow> u64 \<Rightarrow> u32 \<Rightarrow> u8 list \<Rightarrow> (int \<times> 'h) outcome" where
  "ata_write_sectors_impl P h lba count buf = ata_write_loop P (unat count) lba (u16s buf) h"

definition hda_dev :: "'h ports \<Rightarrow> 'h \<Rightarrow> 'h blk_dev" where
  "hda_dev P h = \<lparr>blk_name = cstr ''hda'', sector_count = 0, read_sectors = ata_read_sectors_impl P,
     write_sectors = ata_write_sectors_impl P, priv = h\<rparr>"

text \<open>\<open>hda\<close> is the address of the static \<open>hda_dev\<close>; console output is left out.\<close>

definition ata_init :: "'h ports \<Rightarrow> u64 \<Rightarrow> 'h \<Rightarrow> 'h blk \<Rightarrow> ('h \<times> 'h blk) outcome" where
  "ata_init P hda h b =
     (let h = outb P (ATA_PRIMARY_IO + ATA_REG_HDDEVSEL) 0xA0 h;
          h = outb P (ATA_PRIMARY_IO + ATA_REG_SECCOUNT) 0 h;
          h = outb P (ATA_PRIMARY_IO + ATA_REG_LBA0) 0 h;
          h = outb P (ATA_PRIMARY_IO + ATA_REG_LBA1) 0 h;
          h = outb P (ATA_PRIMARY_IO + ATA_REG_LBA2) 0 h;
          h = outb P (ATA_PRIMARY_IO + ATA_REG_COMMAND) ATA_CMD_IDENTIFY h;
          (status, h) = inb P (ATA_PRIMARY_IO + ATA_REG_STATUS) h
      in if status = 0 then Inr (h, b)
         else case ata_wait_ready P h of
             None \<Rightarrow> Inl Diverges
           | Some (err, h1) \<Rightarrow>
               if err \<noteq> 0 then Inr (h1, b)
               else let (identify, h2) = ata_in_words P 256 h1;
                        sectors_28 = (ucast (identify ! 60) :: u32) OR push_bit 16 (ucast (identify ! 61))
                    in if 0 < sectors_28
                       then Inr (h2, blk_register hda
                         (b\<lparr>blk_devs := (blk_devs b)(hda := (hda_dev P h2)\<lparr>sector_count := ucast sectors_28\<rparr>)\<rparr>))
                       else Inr (h2, b))"

section \<open>What an ATA drive documents\<close>

text \<open>
  The command block registers, the transfer in progress and the medium. \<open>DataIn\<close> holds the words
  the host still has to read, \<open>DataOut\<close> the sector addressed and the words received so far.
\<close>

datatype ata_phase = Idle | DataIn "u16 list" | DataOut nat "u16 list"

record ata_state =
  seccount :: u8
  lba0 :: u8
  lba1 :: u8
  lba2 :: u8
  devsel :: u8
  phase :: ata_phase
  medium :: "nat \<Rightarrow> u8 list"

definition set_reg :: "u16 \<Rightarrow> u8 \<Rightarrow> ata_state \<Rightarrow> ata_state" where
  "set_reg p v s =
     (if p = 0x1F2 then s\<lparr>seccount := v\<rparr> else if p = 0x1F3 then s\<lparr>lba0 := v\<rparr>
      else if p = 0x1F4 then s\<lparr>lba1 := v\<rparr> else if p = 0x1F5 then s\<lparr>lba2 := v\<rparr>
      else if p = 0x1F6 then s\<lparr>devsel := v\<rparr> else s)"

text \<open>The 28-bit sector address in the registers.\<close>

definition sel_lba :: "ata_state \<Rightarrow> nat" where
  "sel_lba s = unat (lba0 s) + 2 ^ 8 * unat (lba1 s) + 2 ^ 16 * unat (lba2 s) + 2 ^ 24 * (unat (devsel s) mod 16)"

text \<open>Master drive, LBA mode, one sector, an address on the medium.\<close>

definition cmd_ok :: "nat \<Rightarrow> ata_state \<Rightarrow> bool" where
  "cmd_ok n s \<longleftrightarrow> phase s = Idle \<and> devsel s AND 0xF0 = 0xE0 \<and> seccount s = 1 \<and> sel_lba s < n"

text \<open>Between two calls of the driver.\<close>

definition ata_ready :: "('h \<Rightarrow> ata_state) \<Rightarrow> ('h \<Rightarrow> nat) \<Rightarrow> nat \<Rightarrow> 'h \<Rightarrow> bool" where
  "ata_ready st busy n h \<longleftrightarrow> busy h = 0 \<and> phase (st h) = Idle \<and> (\<forall>i < n. length (medium (st h) i) = 512)"

lemma devsel_bits:
  fixes lba :: u64
  defines "v \<equiv> ucast (0xE0 OR (drop_bit 24 lba AND 0x0F)) :: u8"
  shows "v AND 0xF0 = 0xE0" and "unat v mod 16 = unat (drop_bit 24 lba) mod 16"
proof -
  have m: "(0x0F :: u64) = mask 4" "(0xF0 :: u8) = mask 8 AND NOT (mask 4)" "(0xE0 :: u8) = push_bit 5 (mask 3)"
      "(0xE0 :: u64) = push_bit 5 (mask 3)"
    by (simp_all add: mask_eq_exp_minus_1 push_bit_eq_mult)
  show "v AND 0xF0 = 0xE0"
    unfolding v_def m
    by (rule bit_eqI) (auto simp: bit_simps)
  have "take_bit 4 v = ucast (take_bit 4 (drop_bit 24 lba))"
    unfolding v_def m by (rule bit_eqI) (auto simp: bit_simps)
  then have "unat (take_bit 4 v) = unat (ucast (take_bit 4 (drop_bit 24 lba)) :: u8)" by simp
  then show "unat v mod 16 = unat (drop_bit 24 lba) mod 16"
    by (simp add: unsigned_ucast_eq take_bit_eq_mod unat_mod)
qed

lemma regs_lba:
  fixes lba :: u64
  assumes "unat lba < 2 ^ 28"
  shows "unat (ucast lba :: u8) + 2 ^ 8 * unat (ucast (drop_bit 8 lba) :: u8)
    + 2 ^ 16 * unat (ucast (drop_bit 16 lba) :: u8)
    + 2 ^ 24 * (unat (ucast (0xE0 OR (drop_bit 24 lba AND 0x0F)) :: u8) mod 16) = unat lba"
proof -
  define n where "n = unat lba"
  have "n mod (2^8 * 2^8) = 2^8 * (n div 2^8 mod 2^8) + n mod 2^8"
    and "n mod (2^16 * 2^8) = 2^16 * (n div 2^16 mod 2^8) + n mod 2^16"
    and "n mod (2^24 * 2^4) = 2^24 * (n div 2^24 mod 2^4) + n mod 2^24"
    by (rule mod_mult2_eq)+
  moreover have "n mod (2^24 * 2^4) = n" using assms by (simp add: n_def)
  ultimately have "n mod 2^8 + 2^8 * (n div 2^8 mod 2^8) + 2^16 * (n div 2^16 mod 2^8) + 2^24 * (n div 2^24 mod 16) = n"
    by simp
  moreover have "unat (ucast lba :: u8) = n mod 2 ^ 8"
    and "unat (ucast (drop_bit 8 lba) :: u8) = n div 2 ^ 8 mod 2 ^ 8"
    and "unat (ucast (drop_bit 16 lba) :: u8) = n div 2 ^ 16 mod 2 ^ 8"
    and "unat (drop_bit 24 lba) = n div 2 ^ 24"
    by (simp_all add: n_def unsigned_ucast_eq take_bit_eq_mod drop_bit_eq_div unat_div)
  ultimately show ?thesis using devsel_bits(2) [of lba] by (simp only: n_def)
qed

text \<open>
  \<open>busy\<close> bounds the number of status reads that still find BSY set; \<open>st\<close> is the documented state of
  the drive. Neither is visible to the driver except through the ports.
\<close>

locale ata_drive =
  fixes P :: "'h ports"
    and st :: "'h \<Rightarrow> ata_state"
    and busy :: "'h \<Rightarrow> nat"
    and nsec :: nat
  assumes nsec_28: "nsec \<le> 2 ^ 28"
    and outb_reg: "busy h = 0 \<Longrightarrow> phase (st h) = Idle \<Longrightarrow> 0x1F1 \<le> p \<Longrightarrow> p \<le> 0x1F6 \<Longrightarrow>
      st (outb P p v h) = set_reg p v (st h) \<and> busy (outb P p v h) = 0"
    and outb_read: "busy h = 0 \<Longrightarrow> cmd_ok nsec (st h) \<Longrightarrow>
      st (outb P 0x1F7 ATA_CMD_READ_PIO h) = (st h)\<lparr>phase := DataIn (u16s (medium (st h) (sel_lba (st h))))\<rparr>"
    and outb_write: "busy h = 0 \<Longrightarrow> cmd_ok nsec (st h) \<Longrightarrow>
      st (outb P 0x1F7 ATA_CMD_WRITE_PIO h) = (st h)\<lparr>phase := DataOut (sel_lba (st h)) []\<rparr>"
    and status_busy: "0 < busy h \<Longrightarrow> \<exists>v h'. inb P 0x1F7 h = (v, h') \<and> v AND ATA_SR_BSY \<noteq> 0
      \<and> v AND ATA_SR_ERR = 0 \<and> v AND ATA_SR_DF = 0 \<and> st h' = st h \<and> busy h' < busy h"
    and status_ready: "busy h = 0 \<Longrightarrow> \<exists>v h'. inb P 0x1F7 h = (v, h') \<and> v AND ATA_SR_BSY = 0
      \<and> v AND ATA_SR_ERR = 0 \<and> v AND ATA_SR_DF = 0 \<and> (v AND ATA_SR_DRQ \<noteq> 0 \<longleftrightarrow> phase (st h) \<noteq> Idle)
      \<and> st h' = st h \<and> busy h' = 0"
    and inw_data: "busy h = 0 \<Longrightarrow> phase (st h) = DataIn (w # ws) \<Longrightarrow> \<exists>h'. inw P 0x1F0 h = (w, h')
      \<and> st h' = (st h)\<lparr>phase := (if ws = [] then Idle else DataIn ws)\<rparr> \<and> busy h' = 0"
    and outw_data: "busy h = 0 \<Longrightarrow> phase (st h) = DataOut k ws \<Longrightarrow> length ws < 255 \<Longrightarrow>
      st (outw P 0x1F0 w h) = (st h)\<lparr>phase := DataOut k (ws @ [w])\<rparr> \<and> busy (outw P 0x1F0 w h) = 0"
    and outw_last: "busy h = 0 \<Longrightarrow> phase (st h) = DataOut k ws \<Longrightarrow> length ws = 255 \<Longrightarrow>
      st (outw P 0x1F0 w h) = (st h)\<lparr>phase := Idle, medium := (medium (st h))(k := bytes16 (ws @ [w]))\<rparr>"
begin

lemma wait_ready:
  assumes "phase (st h) \<noteq> Idle"
  shows "\<exists>h'. ata_wait_ready P h = Some (0, h') \<and> st h' = st h \<and> busy h' = 0"
  using assms
proof (induction "busy h" arbitrary: h rule: less_induct)
  case less
  show ?case
  proof (cases "busy h = 0")
    case True
    from status_ready [OF this] less.prems show ?thesis
      by (subst ata_wait_ready.simps) auto
  next
    case False
    with status_busy obtain v h' where h': "inb P 0x1F7 h = (v, h')" "v AND ATA_SR_BSY \<noteq> 0" "v AND ATA_SR_ERR = 0"
      "v AND ATA_SR_DF = 0" "st h' = st h" "busy h' < busy h" by blast
    with less.hyps [of h'] less.prems show ?thesis by (subst ata_wait_ready.simps) auto
  qed
qed

lemma wait_busy: "\<exists>h'. ata_wait_busy P h = Some (0, h') \<and> st h' = st h \<and> busy h' = 0"
proof (induction "busy h" arbitrary: h rule: less_induct)
  case less
  show ?case
  proof (cases "busy h = 0")
    case True
    from status_ready [OF this] show ?thesis by (subst ata_wait_busy.simps) auto
  next
    case False
    with status_busy obtain v h' where h': "inb P 0x1F7 h = (v, h')" "v AND ATA_SR_BSY \<noteq> 0" "v AND ATA_SR_ERR = 0"
      "v AND ATA_SR_DF = 0" "st h' = st h" "busy h' < busy h" by blast
    with less.hyps [of h'] show ?thesis by (subst ata_wait_busy.simps) auto
  qed
qed

lemma in_words:
  assumes "busy h = 0" and "phase (st h) = (if ws = [] then Idle else DataIn ws)"
  shows "\<exists>h'. ata_in_words P (length ws) h = (ws, h') \<and> st h' = (st h)\<lparr>phase := Idle\<rparr> \<and> busy h' = 0"
  using assms
proof (induction ws arbitrary: h)
  case (Cons w ws)
  then obtain h1 where h1: "inw P 0x1F0 h = (w, h1)"
    "st h1 = (st h)\<lparr>phase := (if ws = [] then Idle else DataIn ws)\<rparr>" "busy h1 = 0"
    using inw_data [of h w ws] by auto
  with Cons.IH [of h1] show ?case by auto
qed auto

lemma out_words:
  assumes "busy h = 0" and "phase (st h) = DataOut k us" and "length us + length ws = 256" and "ws \<noteq> []"
  shows "st (ata_out_words P ws h) = (st h)\<lparr>phase := Idle, medium := (medium (st h))(k := bytes16 (us @ ws))\<rparr>"
  using assms
proof (induction ws arbitrary: h us)
  case (Cons w ws)
  show ?case
  proof (cases "ws = []")
    case True
    with Cons.prems show ?thesis using outw_last [of h k us w] by (simp add: fun_upd_def)
  next
    case False
    with Cons.prems have "st (outw P 0x1F0 w h) = (st h)\<lparr>phase := DataOut k (us @ [w])\<rparr>" "busy (outw P 0x1F0 w h) = 0"
      using outw_data [of h k us w] by (cases ws; simp)+
    with Cons.IH [of "outw P 0x1F0 w h" "us @ [w]"] Cons.prems False show ?thesis by simp
  qed
qed simp

definition idle :: "'h \<Rightarrow> bool" where
  "idle h \<longleftrightarrow> busy h = 0 \<and> phase (st h) = Idle"

lemma outb_idle:
  assumes "idle h" and "0x1F1 \<le> p" and "p \<le> 0x1F6"
  shows "idle (outb P p v h)" and "st (outb P p v h) = set_reg p v (st h)"
  using outb_reg [of h p v] assms by (simp_all add: idle_def set_reg_def)

lemma command_spec:
  assumes "idle h" and "unat lba < nsec"
  shows "\<exists>s. cmd_ok nsec s \<and> sel_lba s = unat lba \<and> medium s = medium (st h)
    \<and> st (ata_command P lba ATA_CMD_READ_PIO h) = s\<lparr>phase := DataIn (u16s (medium (st h) (unat lba)))\<rparr>
    \<and> st (ata_command P lba ATA_CMD_WRITE_PIO h) = s\<lparr>phase := DataOut (unat lba) []\<rparr>"
proof -
  define v where "v = (ucast (0xE0 OR (drop_bit 24 lba AND 0x0F)) :: u8)"
  define h6 where "h6 = outb P 0x1F5 (ucast (drop_bit 16 lba)) (outb P 0x1F4 (ucast (drop_bit 8 lba))
    (outb P 0x1F3 (ucast lba) (outb P 0x1F2 1 (outb P 0x1F1 0 (outb P 0x1F6 v h)))))"
  have i: "idle h6"
    and s: "st h6 = (st h)\<lparr>devsel := v, seccount := 1, lba0 := ucast lba, lba1 := ucast (drop_bit 8 lba),
      lba2 := ucast (drop_bit 16 lba)\<rparr>"
    by (simp_all add: h6_def outb_idle assms(1) set_reg_def)
  have sel: "sel_lba (st h6) = unat lba"
    using regs_lba [of lba] assms(2) nsec_28 by (simp add: sel_lba_def s v_def)
  then have ok: "cmd_ok nsec (st h6)"
    using assms i devsel_bits(1) [of lba] by (simp add: cmd_ok_def idle_def s v_def)
  have "ata_command P lba c h = outb P 0x1F7 c h6" for c
    by (simp add: ata_command_def h6_def v_def)
  with outb_read [of h6] outb_write [of h6] ok i sel s show ?thesis
    by (intro exI [of _ "st h6"]) (simp add: idle_def)
qed

abbreviation ready :: "'h \<Rightarrow> bool" where
  "ready \<equiv> ata_ready st busy nsec"

lemma read_loop:
  assumes "ready h" and "unat lba + n \<le> nsec"
  shows "\<exists>h'. ata_read_loop P n lba h = Inr (0, concat (map (medium (st h)) [unat lba ..< unat lba + n]), h')
    \<and> ready h' \<and> medium (st h') = medium (st h)"
  using assms
proof (induction n arbitrary: lba h)
  case (Suc n)
  define sec where "sec = medium (st h) (unat lba)"
  have len: "length sec = 512" using Suc.prems by (simp add: ata_ready_def idle_def sec_def)
  obtain s where s: "medium s = medium (st h)" "st (ata_command P lba ATA_CMD_READ_PIO h) = s\<lparr>phase := DataIn (u16s sec)\<rparr>"
    using command_spec [of h lba] Suc.prems by (auto simp: ata_ready_def idle_def sec_def)
  then obtain h1 where h1: "ata_wait_ready P (ata_command P lba ATA_CMD_READ_PIO h) = Some (0, h1)"
    "st h1 = s\<lparr>phase := DataIn (u16s sec)\<rparr>" "busy h1 = 0"
    using wait_ready [of "ata_command P lba ATA_CMD_READ_PIO h"] by auto
  have "u16s sec \<noteq> []" using length_u16s [of sec] len by (cases "u16s sec") simp_all
  then obtain h2 where h2: "ata_in_words P 256 h1 = (u16s sec, h2)" "st h2 = s\<lparr>phase := Idle\<rparr>" "busy h2 = 0"
    using in_words [of h1 "u16s sec"] h1 len by auto
  have r2: "ready h2" using Suc.prems(1) h2 s by (simp add: ata_ready_def idle_def)
  have next_lba: "unat (lba + 1) = unat lba + 1"
    using Suc.prems(2) nsec_28 by (intro unat_plus_1) simp
  from Suc.IH [OF r2, of "lba + 1"] Suc.prems(2) obtain h3 where
    h3: "ata_read_loop P n (lba + 1) h2 = Inr (0, concat (map (medium s) [Suc (unat lba) ..< Suc (unat lba) + n]), h3)"
      "ready h3" "medium (st h3) = medium s"
    by (auto simp: next_lba h2)
  have "[unat lba ..< unat lba + Suc n] = unat lba # [Suc (unat lba) ..< Suc (unat lba) + n]"
    by (subst upt_conv_Cons) simp_all
  with h1 h2 h3 s len show ?case by (simp add: bytes16_u16s sec_def [symmetric])
qed auto

lemma write_one:
  assumes "ready h" and "unat lba < nsec" and "length b = 512"
  shows "\<exists>h'. ata_write_loop P 1 lba (u16s b) h = Inr (0, h') \<and> ready h'
    \<and> medium (st h') = (medium (st h))(unat lba := b)"
proof -
  obtain s where s: "medium s = medium (st h)" "st (ata_command P lba ATA_CMD_WRITE_PIO h) = s\<lparr>phase := DataOut (unat lba) []\<rparr>"
    using command_spec [of h lba] assms by (auto simp: ata_ready_def idle_def)
  then obtain h1 where h1: "ata_wait_ready P (ata_command P lba ATA_CMD_WRITE_PIO h) = Some (0, h1)"
    "st h1 = s\<lparr>phase := DataOut (unat lba) []\<rparr>" "busy h1 = 0"
    using wait_ready [of "ata_command P lba ATA_CMD_WRITE_PIO h"] by auto
  have l: "length (u16s b) = 256" using assms(3) by simp
  then have ne: "u16s b \<noteq> []" by (cases "u16s b") simp_all
  from out_words [OF h1(3), of "unat lba" "[]" "u16s b"] ne l h1(2) s
  have st: "st (ata_out_words P (u16s b) h1) = s\<lparr>phase := Idle, medium := (medium (st h))(unat lba := b)\<rparr>"
    by (simp add: bytes16_u16s assms(3))
  obtain h2 where h2: "ata_wait_busy P (ata_out_words P (u16s b) h1) = Some (0, h2)"
    "st h2 = st (ata_out_words P (u16s b) h1)" "busy h2 = 0"
    using wait_busy by blast
  have "ready h2" using assms h2 st by (auto simp: ata_ready_def idle_def)
  then show ?thesis using h1 h2 st l by simp
qed

end

sublocale ata_drive \<subseteq> blk: block_device "ata_read_sectors_impl P" "ata_write_sectors_impl P"
  "\<lambda>h. medium (st h)" nsec "ata_ready st busy nsec"
proof
  fix d and lba :: u64 and n :: u32
  assume "ready d" "unat lba + unat n \<le> nsec"
  then show "\<exists>d'. ata_read_sectors_impl P d lba n
      = Inr (0, concat (map (medium (st d)) [unat lba ..< unat lba + unat n]), d')
      \<and> ready d' \<and> medium (st d') = medium (st d)"
    unfolding ata_read_sectors_impl_def by (rule read_loop)
next
  fix d and lba :: u64 and b :: "u8 list"
  assume "ready d" "unat lba < nsec" "length b = BLK_SECTOR_SIZE"
  from write_one [OF this] show "\<exists>d'. ata_write_sectors_impl P d lba 1 b = Inr (0, d')
      \<and> ready d' \<and> medium (st d') = (medium (st d))(unat lba := b)"
    by (simp add: ata_write_sectors_impl_def)
next
  show "nsec < 2 ^ 55" using nsec_28 by simp
qed (simp add: ata_ready_def idle_def)


context ata_drive
begin

lemma is_block_device:
  "block_device (ata_read_sectors_impl P) (ata_write_sectors_impl P) (\<lambda>h. medium (st h)) nsec (ata_ready st busy nsec)"
  by (rule blk.block_device_axioms)

end

section \<open>A drive\<close>

text \<open>
  A drive of \<open>n\<close> sectors that stays busy for \<open>lat\<close> status reads after every command and after every
  sector received, and ignores what the driver must not do.
\<close>

definition drive_ports :: "nat \<Rightarrow> nat \<Rightarrow> (ata_state \<times> nat) ports" where
  "drive_ports n lat = \<lparr>
     inb = (\<lambda>p (s, b). if p \<noteq> 0x1F7 then (0, s, b)
        else if 0 < b then (ATA_SR_BSY, s, b - 1)
        else (if phase s = Idle then 0x40 else 0x48, s, b)),
     inw = (\<lambda>p (s, b). case phase s of
          DataIn (w # ws) \<Rightarrow> (w, s\<lparr>phase := (if ws = [] then Idle else DataIn ws)\<rparr>, b)
        | _ \<Rightarrow> (0, s, b)),
     outb = (\<lambda>p v (s, b). if p \<noteq> 0x1F7 then (set_reg p v s, b)
        else if v = ATA_CMD_READ_PIO \<and> cmd_ok n s then (s\<lparr>phase := DataIn (u16s (medium s (sel_lba s)))\<rparr>, lat)
        else if v = ATA_CMD_WRITE_PIO \<and> cmd_ok n s then (s\<lparr>phase := DataOut (sel_lba s) []\<rparr>, lat)
        else (s, b)),
     outw = (\<lambda>p w (s, b). case phase s of
          DataOut k ws \<Rightarrow>
            if length ws < 255 then (s\<lparr>phase := DataOut k (ws @ [w])\<rparr>, b)
            else (s\<lparr>phase := Idle, medium := (medium s)(k := bytes16 (ws @ [w]))\<rparr>, lat)
        | _ \<Rightarrow> (s, b))\<rparr>"

lemma drive_ports_drive:
  assumes "n \<le> 2 ^ 28"
  shows "ata_drive (drive_ports n lat) fst snd n"
  using assms by unfold_locales (auto simp: drive_ports_def cmd_ok_def)

text \<open>The 16 MiB disk the kernel is shipped with.\<close>

interpretation hda: ata_drive "drive_ports 32768 4" fst snd 32768
  by (rule drive_ports_drive) simp

section \<open>Transfers\<close>



end
