(* ===== verification/KFS.thy ===== *)
theory KFS
  imports Block_Device
begin

unbundle bit_operations_syntax

text \<open>
  The file system of \<open>kernel/fs/kfs.c\<close>: superblock, inode table, block and inode bitmaps, block
  mapping with ten direct and one indirect block, file reads and writes, and directories. The
  static variables of the C file are the record \<open>kfs\<close>; an operation takes and returns it.
\<close>

section \<open>On-disk structures\<close>

abbreviation KFS_MAGIC :: u32 where "KFS_MAGIC \<equiv> 0x4B465331"
abbreviation KFS_BLOCK_SIZE :: nat where "KFS_BLOCK_SIZE \<equiv> 512"
abbreviation KFS_SUPERBLOCK_BLK :: u64 where "KFS_SUPERBLOCK_BLK \<equiv> 64"
abbreviation KFS_TYPE_FILE :: u32 where "KFS_TYPE_FILE \<equiv> 1"
abbreviation KFS_TYPE_DIR :: u32 where "KFS_TYPE_DIR \<equiv> 2"

record kfs_superblock =
  magic :: u32
  total_blocks :: u32
  inode_count :: u32
  block_bitmap_start :: u32
  block_bitmap_blks :: u32
  inode_bitmap_start :: u32
  inode_bitmap_blks :: u32
  inode_table_start :: u32
  inode_table_blks :: u32
  data_blocks_start :: u32
  root_inode :: u32

record kfs_inode =
  i_size :: u32
  i_type :: u32
  direct :: "u32 list"
  indirect :: u32
  link_count :: u32
  pad :: "u32 list"

definition superblock_of :: "u8 list \<Rightarrow> kfs_superblock" where
  "superblock_of bs =
     (let w = u32s bs
      in \<lparr>magic = w ! 0, total_blocks = w ! 1, inode_count = w ! 2, block_bitmap_start = w ! 3,
          block_bitmap_blks = w ! 4, inode_bitmap_start = w ! 5, inode_bitmap_blks = w ! 6,
          inode_table_start = w ! 7, inode_table_blks = w ! 8, data_blocks_start = w ! 9, root_inode = w ! 10\<rparr>)"

definition inode_of :: "u8 list \<Rightarrow> kfs_inode" where
  "inode_of bs =
     (let w = u32s bs
      in \<lparr>i_size = w ! 0, i_type = w ! 1, direct = slice 2 10 w, indirect = w ! 12, link_count = w ! 13,
          pad = slice 14 2 w\<rparr>)"

definition bytes_of_inode :: "kfs_inode \<Rightarrow> u8 list" where
  "bytes_of_inode i =
     bytes32 ([i_size i, i_type i] @ direct i @ [indirect i, link_count i] @ pad i)"

text \<open>\<open>memset(&inode, 0, sizeof(inode))\<close>\<close>

definition zero_inode :: kfs_inode where
  "zero_inode = \<lparr>i_size = 0, i_type = 0, direct = replicate 10 0, indirect = 0, link_count = 0, pad = [0, 0]\<rparr>"

section \<open>State and sequencing\<close>

text \<open>
  \<open>sb\<close> is NULL until a superblock has been read. \<open>kmem\<close> says which calls of \<open>kmalloc\<close> find memory
  and \<open>kcalls\<close> counts them; a request of 0 bytes always gets NULL.
\<close>

record 'd kfs =
  sb :: "kfs_superblock option"
  kfs_blk :: "'d blk_dev"
  block_bitmap :: "u8 list"
  inode_bitmap :: "u8 list"
  kmem :: "nat \<Rightarrow> bool"
  kcalls :: nat

text \<open>
  An operation returns a negative code (\<open>Inl\<close>) or a value (\<open>Inr\<close>) and the new state, or ends in a
  fault. \<open>seqK\<close> is the \<open>if (err < 0) return err;\<close> of the C code, \<open>catchK\<close> looks at the code.
\<close>

type_synonym ('d, 'a) kfs_op = "'d kfs \<Rightarrow> ((int + 'a) \<times> 'd kfs) outcome"

definition retK :: "'a \<Rightarrow> ('d, 'a) kfs_op" where
  "retK x s = Inr (Inr x, s)"

definition failK :: "int \<Rightarrow> ('d, 'a) kfs_op" where
  "failK e s = Inr (Inl e, s)"

definition liftK :: "'a outcome \<Rightarrow> ('d, 'a) kfs_op" where
  "liftK r s = (case r of Inl e \<Rightarrow> Inl e | Inr x \<Rightarrow> Inr (Inr x, s))"

definition catchK :: "('d, 'a) kfs_op \<Rightarrow> (int + 'a \<Rightarrow> ('d, 'b) kfs_op) \<Rightarrow> ('d, 'b) kfs_op" where
  "catchK m k s = (case m s of Inl e \<Rightarrow> Inl e | Inr (r, s') \<Rightarrow> k r s')"

definition seqK :: "('d, 'a) kfs_op \<Rightarrow> ('a \<Rightarrow> ('d, 'b) kfs_op) \<Rightarrow> ('d, 'b) kfs_op" where
  "seqK m k = catchK m (\<lambda>r. case r of Inl err \<Rightarrow> failK err | Inr x \<Rightarrow> k x)"

definition ignoreK :: "('d, 'a) kfs_op \<Rightarrow> ('d, unit) kfs_op" where
  "ignoreK m = catchK m (\<lambda>_. retK ())"

definition getK :: "('d kfs \<Rightarrow> 'a) \<Rightarrow> ('a \<Rightarrow> ('d, 'b) kfs_op) \<Rightarrow> ('d, 'b) kfs_op" where
  "getK g k s = k (g s) s"

definition updK :: "('d kfs \<Rightarrow> 'd kfs) \<Rightarrow> ('d, unit) kfs_op" where
  "updK u s = Inr (Inr (), u s)"

text \<open>Reading through the superblock pointer.\<close>

definition sbK :: "(kfs_superblock \<Rightarrow> ('d, 'b) kfs_op) \<Rightarrow> ('d, 'b) kfs_op" where
  "sbK k s = (case sb s of None \<Rightarrow> Inl OutOfBounds | Some S \<Rightarrow> k S s)"

definition kmallocK :: "nat \<Rightarrow> ('d, bool) kfs_op" where
  "kmallocK n s =
     (if n = 0 then Inr (Inr False, s) else Inr (Inr (kmem s (kcalls s)), s\<lparr>kcalls := kcalls s + 1\<rparr>))"

lemma catchK_cong [fundef_cong]: "m = m' \<Longrightarrow> (\<And>r. k r = k' r) \<Longrightarrow> catchK m k = catchK m' k'"
  by (metis ext)

lemma seqK_cong [fundef_cong]: "m = m' \<Longrightarrow> (\<And>x. k x = k' x) \<Longrightarrow> seqK m k = seqK m' k'"
  by (metis ext)

text \<open>\<open>kfs_blk->read_sectors\<close> and \<open>kfs_blk->write_sectors\<close>, first with the code they return.\<close>

definition read_blk :: "u64 \<Rightarrow> u32 \<Rightarrow> ('d, int \<times> u8 list) kfs_op" where
  "read_blk lba n s =
     (case read_sectors (kfs_blk s) (priv (kfs_blk s)) lba n of
        Inl e \<Rightarrow> Inl e
      | Inr (err, buf, d) \<Rightarrow> Inr (Inr (err, buf), s\<lparr>kfs_blk := (kfs_blk s)\<lparr>priv := d\<rparr>\<rparr>))"

definition write_blk :: "u64 \<Rightarrow> u8 list \<Rightarrow> ('d, int) kfs_op" where
  "write_blk lba buf s =
     (case write_sectors (kfs_blk s) (priv (kfs_blk s)) lba 1 buf of
        Inl e \<Rightarrow> Inl e
      | Inr (err, d) \<Rightarrow> Inr (Inr err, s\<lparr>kfs_blk := (kfs_blk s)\<lparr>priv := d\<rparr>\<rparr>))"

definition readK :: "u64 \<Rightarrow> ('d, u8 list) kfs_op" where
  "readK lba = seqK (read_blk lba 1) (\<lambda>(err, buf). if err < 0 then failK err else retK buf)"

definition writeK :: "u64 \<Rightarrow> u8 list \<Rightarrow> ('d, unit) kfs_op" where
  "writeK lba buf = seqK (write_blk lba buf) (\<lambda>err. if err < 0 then failK err else retK ())"

section \<open>Mounting\<close>

definition kfs_read_superblock :: "('d, unit) kfs_op" where
  "kfs_read_superblock =
     seqK (kmallocK KFS_BLOCK_SIZE) (\<lambda>ok.
     if \<not> ok then seqK (updK (\<lambda>s. s\<lparr>sb := None\<rparr>)) (\<lambda>_. failK (- ENOMEM))
     else seqK (readK KFS_SUPERBLOCK_BLK) (\<lambda>buf.
     if magic (superblock_of buf) \<noteq> KFS_MAGIC
     then seqK (updK (\<lambda>s. s\<lparr>sb := None\<rparr>)) (\<lambda>_. failK (- EINVAL))
     else updK (\<lambda>s. s\<lparr>sb := Some (superblock_of buf)\<rparr>)))"

text \<open>
  One bitmap: the buffer has \<open>blks * KFS_BLOCK_SIZE\<close> bytes computed in 32 bits, the driver fills
  \<open>blks\<close> sectors.
\<close>

definition load_bitmap :: "u32 \<Rightarrow> u32 \<Rightarrow> ('d, u8 list) kfs_op" where
  "load_bitmap start blks =
     seqK (kmallocK (unat (blks * 512))) (\<lambda>ok.
     if \<not> ok then failK (- ENOMEM)
     else seqK (read_blk (ucast start) blks) (\<lambda>(err, buf).
     if err < 0 then failK err
     else if unat (blks * 512) < length buf then liftK (Inl OutOfBounds)
     else retK buf))"

definition kfs_load_bitmaps :: "('d, unit) kfs_op" where
  "kfs_load_bitmaps =
     sbK (\<lambda>S.
     seqK (load_bitmap (block_bitmap_start S) (block_bitmap_blks S)) (\<lambda>bm.
     seqK (updK (\<lambda>s. s\<lparr>block_bitmap := bm\<rparr>)) (\<lambda>_.
     seqK (load_bitmap (inode_bitmap_start S) (inode_bitmap_blks S)) (\<lambda>im.
     updK (\<lambda>s. s\<lparr>inode_bitmap := im\<rparr>)))))"

definition kfs_mount :: "'k \<Rightarrow> 'd blk_dev \<Rightarrow> 'k vfs \<Rightarrow> ('d, int \<times> 'k vfs) kfs_op" where
  "kfs_mount k dev v =
     seqK (updK (\<lambda>s. s\<lparr>kfs_blk := dev\<rparr>)) (\<lambda>_.
     seqK kfs_read_superblock (\<lambda>_.
     sbK (\<lambda>S.
     if total_blocks S = 0 \<or> 1000000 < total_blocks S then failK (- EINVAL)
     else if block_bitmap_blks S = 0 then failK (- EINVAL)
     else seqK kfs_load_bitmaps (\<lambda>_.
     seqK (kmallocK 24) (\<lambda>ok.
     if \<not> ok then failK (- ENOMEM)
     else retK (vfs_mount_root
       \<lparr>ops = Some k, fs_private = ucast (root_inode S), vtype = VNODE_TYPE_DIR\<rparr> v))))))"

section \<open>Inodes and blocks\<close>

text \<open>\<open>bitmap[i / 8] & (1 << (i % 8))\<close> on the array as long as it is.\<close>

definition bm_get :: "u8 list \<Rightarrow> nat \<Rightarrow> bool outcome" where
  "bm_get bm i = (if i div 8 < length bm then Inr (bm_test bm i) else Inl OutOfBounds)"

definition kfs_read_inode :: "u32 \<Rightarrow> ('d, kfs_inode) kfs_op" where
  "kfs_read_inode ino =
     sbK (\<lambda>S. if ino \<ge> inode_count S then failK (- EINVAL)
     else getK inode_bitmap (\<lambda>im. seqK (liftK (bm_get im (unat ino))) (\<lambda>used.
     if \<not> used then failK (- ENOENT)
     else seqK (readK (ucast (inode_table_start S + ino div 8))) (\<lambda>buf.
     retK (inode_of (slice (64 * unat (ino mod 8)) 64 buf))))))"

definition kfs_write_inode :: "u32 \<Rightarrow> kfs_inode \<Rightarrow> ('d, unit) kfs_op" where
  "kfs_write_inode ino inode =
     sbK (\<lambda>S. if ino \<ge> inode_count S then failK (- EINVAL)
     else seqK (readK (ucast (inode_table_start S + ino div 8))) (\<lambda>buf.
     writeK (ucast (inode_table_start S + ino div 8))
       (patch buf (64 * unat (ino mod 8)) (bytes_of_inode inode))))"

text \<open>The search of the two allocators: the first clear bit from \<open>i\<close> on, below \<open>n\<close>.\<close>

function first_clear :: "u8 list \<Rightarrow> nat \<Rightarrow> nat \<Rightarrow> nat option outcome" where
  "first_clear bm i n =
     (if i < n then
        (case bm_get bm i of
           Inl e \<Rightarrow> Inl e
         | Inr used \<Rightarrow> if \<not> used then Inr (Some i) else first_clear bm (i + 1) n)
      else Inr None)"
  by pat_completeness auto
termination
  by (relation "measure (\<lambda>(bm, i, n). n - i)") auto

declare first_clear.simps [simp del]

text \<open>Writing back the sector of a bitmap that holds bit \<open>i\<close>.\<close>

definition bitmap_sector :: "u8 list \<Rightarrow> nat \<Rightarrow> u8 list" where
  "bitmap_sector bm i = slice (i div 8 div 512 * 512) 512 bm"

definition sync_bitmap :: "u32 \<Rightarrow> u8 list \<Rightarrow> nat \<Rightarrow> ('d, unit) kfs_op" where
  "sync_bitmap start bm i = writeK (ucast (start + of_nat (i div 8 div 512))) (bitmap_sector bm i)"

definition kfs_alloc_inode :: "u32 \<Rightarrow> ('d, u32) kfs_op" where
  "kfs_alloc_inode ty =
     sbK (\<lambda>S. getK inode_bitmap (\<lambda>im.
     seqK (liftK (first_clear im 1 (unat (inode_count S)))) (\<lambda>r. case r of
       None \<Rightarrow> failK (- ENOSPC)
     | Some i \<Rightarrow>
         seqK (updK (\<lambda>s. s\<lparr>inode_bitmap := bm_set im i\<rparr>)) (\<lambda>_.
         seqK (sync_bitmap (inode_bitmap_start S) (bm_set im i) i) (\<lambda>_.
         seqK (kfs_write_inode (of_nat i) (zero_inode\<lparr>i_type := ty, link_count := 1\<rparr>)) (\<lambda>_.
         retK (of_nat i)))))))"

definition kfs_free_inode :: "u32 \<Rightarrow> ('d, unit) kfs_op" where
  "kfs_free_inode ino =
     sbK (\<lambda>S. if ino = 0 \<or> ino \<ge> inode_count S then failK (- EINVAL)
     else getK inode_bitmap (\<lambda>im. seqK (liftK (bm_get im (unat ino))) (\<lambda>_.
     seqK (updK (\<lambda>s. s\<lparr>inode_bitmap := bm_clear im (unat ino)\<rparr>)) (\<lambda>_.
     sync_bitmap (inode_bitmap_start S) (bm_clear im (unat ino)) (unat ino)))))"

definition kfs_alloc_block :: "('d, u32) kfs_op" where
  "kfs_alloc_block =
     sbK (\<lambda>S. getK block_bitmap (\<lambda>bm.
     seqK (liftK (first_clear bm (unat (data_blocks_start S)) (unat (total_blocks S)))) (\<lambda>r. case r of
       None \<Rightarrow> failK (- ENOSPC)
     | Some i \<Rightarrow>
         seqK (updK (\<lambda>s. s\<lparr>block_bitmap := bm_set bm i\<rparr>)) (\<lambda>_.
         seqK (sync_bitmap (block_bitmap_start S) (bm_set bm i) i) (\<lambda>_.
         seqK (writeK (ucast (of_nat i :: u32)) (replicate KFS_BLOCK_SIZE 0)) (\<lambda>_.
         retK (of_nat i)))))))"

definition kfs_free_block :: "u32 \<Rightarrow> ('d, unit) kfs_op" where
  "kfs_free_block blk =
     sbK (\<lambda>S. if blk < data_blocks_start S \<or> blk \<ge> total_blocks S then failK (- EINVAL)
     else getK block_bitmap (\<lambda>bm. seqK (liftK (bm_get bm (unat blk))) (\<lambda>_.
     seqK (updK (\<lambda>s. s\<lparr>block_bitmap := bm_clear bm (unat blk)\<rparr>)) (\<lambda>_.
     sync_bitmap (block_bitmap_start S) (bm_clear bm (unat blk)) (unat blk)))))"

text \<open>
  \<open>kfs_map_or_alloc_block\<close> returns its code together with the inode and the dirty flag, which the
  caller sees changed even when the code is negative.
\<close>

definition kfs_map_or_alloc_block ::
  "kfs_inode \<Rightarrow> u32 \<Rightarrow> bool \<Rightarrow> ('d, int \<times> u32 \<times> kfs_inode \<times> bool) kfs_op" where
  "kfs_map_or_alloc_block inode lblk dirty =
     (if lblk < 10 then
        if direct inode ! unat lblk = 0 then
          catchK kfs_alloc_block (\<lambda>r. case r of
            Inl err \<Rightarrow> retK (err, 0, inode, dirty)
          | Inr b \<Rightarrow> retK (0, b, inode\<lparr>direct := (direct inode)[unat lblk := b]\<rparr>, True))
        else retK (0, direct inode ! unat lblk, inode, dirty)
      else if lblk - 10 \<ge> 128 then retK (- EFBIG, 0, inode, dirty)
      else catchK (if indirect inode = 0 then kfs_alloc_block else retK (indirect inode)) (\<lambda>r. case r of
          Inl err \<Rightarrow> retK (err, 0, inode, dirty)
        | Inr ind \<Rightarrow>
            let dirty1 = (dirty \<or> indirect inode = 0); inode1 = inode\<lparr>indirect := ind\<rparr>
            in catchK (readK (ucast ind)) (\<lambda>r. case r of
                 Inl err \<Rightarrow> retK (err, 0, inode1, dirty1)
               | Inr buf \<Rightarrow>
                   if u32s buf ! unat (lblk - 10) = 0 then
                     catchK kfs_alloc_block (\<lambda>r. case r of
                       Inl err \<Rightarrow> retK (err, 0, inode1, dirty1)
                     | Inr b \<Rightarrow>
                         catchK (writeK (ucast ind) (bytes32 ((u32s buf)[unat (lblk - 10) := b]))) (\<lambda>r. case r of
                           Inl err \<Rightarrow> retK (err, 0, inode1, dirty1)
                         | Inr _ \<Rightarrow> retK (0, b, inode1, dirty1)))
                   else retK (0, u32s buf ! unat (lblk - 10), inode1, dirty1))))"

definition kfs_map_block :: "kfs_inode \<Rightarrow> u32 \<Rightarrow> ('d, u32) kfs_op" where
  "kfs_map_block inode lblk =
     (if lblk < 10 then
        if direct inode ! unat lblk = 0 then failK (- ENOENT) else retK (direct inode ! unat lblk)
      else if indirect inode = 0 then failK (- ENOENT)
      else if lblk - 10 \<ge> 128 then failK (- EINVAL)
      else seqK (readK (ucast (indirect inode))) (\<lambda>buf.
        if u32s buf ! unat (lblk - 10) = 0 then failK (- ENOENT) else retK (u32s buf ! unat (lblk - 10))))"

section \<open>File contents\<close>

lemma read_chunk_less:
  assumes "to_read \<noteq> 0"
  shows "unat (to_read - min (512 - x mod 512) to_read) < unat (to_read :: u64)"
proof -
  have "x mod 512 \<noteq> 512" using word_mod_less_divisor [of 512 x] by auto
  then have "min (512 - x mod 512) to_read \<noteq> 0" using assms by (simp add: min_def)
  moreover have "min (512 - x mod 512) to_read \<le> to_read" by simp
  ultimately show ?thesis using assms by (simp add: unat_sub unat_gt_0 del: min_le_iff_disj)
qed

text \<open>The loop of \<open>kfs_vnode_read\<close>; \<open>acc\<close> is what has been copied out. The offset moves even on errors.\<close>

function kfs_read_loop ::
  "kfs_inode \<Rightarrow> kfile \<Rightarrow> u64 \<Rightarrow> u8 list \<Rightarrow> ('d, int \<times> kfile \<times> u8 list) kfs_op" where
  "kfs_read_loop inode f to_read acc =
     (if to_read = 0 then retK (0, f, acc)
      else catchK (kfs_map_block inode (ucast (offset f div 512))) (\<lambda>r. case r of
          Inl err \<Rightarrow> retK (err, f, acc)
        | Inr phys \<Rightarrow>
            catchK (readK (ucast phys)) (\<lambda>r. case r of
              Inl err \<Rightarrow> retK (err, f, acc)
            | Inr blk_buf \<Rightarrow>
                kfs_read_loop inode (f\<lparr>offset := offset f + min (512 - offset f mod 512) to_read\<rparr>)
                  (to_read - min (512 - offset f mod 512) to_read)
                  (acc @ slice (unat (offset f mod 512)) (unat (min (512 - offset f mod 512) to_read)) blk_buf))))"
  by pat_completeness auto
termination
  by (relation "measure (\<lambda>(_, _, to_read, _). unat to_read)") (auto simp: read_chunk_less)

declare kfs_read_loop.simps [simp del]

definition kfs_vnode_read :: "'k vnode \<Rightarrow> kfile \<Rightarrow> u64 \<Rightarrow> ('d, int \<times> kfile \<times> u8 list) kfs_op" where
  "kfs_vnode_read vn f count =
     catchK (kfs_read_inode (ucast (fs_private vn))) (\<lambda>r. case r of
       Inl err \<Rightarrow> retK (err, f, [])
     | Inr inode \<Rightarrow>
         if offset f \<ge> ucast (i_size inode) then retK (0, f, [])
         else kfs_read_loop inode f
           (if offset f + count > ucast (i_size inode) then ucast (i_size inode) - offset f else count) [])"

text \<open>Leaving the loop of \<open>kfs_vnode_write\<close> early: \<open>break\<close> once something is written, else \<open>return err\<close>.\<close>

definition stop_write ::
  "int \<Rightarrow> kfs_inode \<Rightarrow> kfile \<Rightarrow> nat \<Rightarrow> bool \<Rightarrow> ('d, int option \<times> kfs_inode \<times> kfile \<times> nat \<times> bool) kfs_op" where
  "stop_write err inode f tw dirty = retK (if 0 < tw then None else Some err, inode, f, tw, dirty)"

text \<open>
  The loop: \<open>src\<close> is what remains to be written, \<open>tw\<close> what has been. A first component
  \<open>Some err\<close> is a return from within the loop.
\<close>

function kfs_write_loop ::
  "kfs_inode \<Rightarrow> kfile \<Rightarrow> u8 list \<Rightarrow> nat \<Rightarrow> bool
    \<Rightarrow> ('d, int option \<times> kfs_inode \<times> kfile \<times> nat \<times> bool) kfs_op" where
  "kfs_write_loop inode f src tw dirty =
     (if src = [] then retK (None, inode, f, tw, dirty)
      else let off = unat (offset f mod 512); chunk = min (KFS_BLOCK_SIZE - off) (length src)
      in seqK (kfs_map_or_alloc_block inode (ucast (offset f div 512)) dirty) (\<lambda>(err, phys, inode1, dirty1).
           if err < 0 then stop_write err inode1 f tw dirty1
           else seqK (if 0 < off \<or> chunk < KFS_BLOCK_SIZE then read_blk (ucast phys) 1
                      else retK (0, replicate KFS_BLOCK_SIZE 0)) (\<lambda>(err, blk_buf).
           if err < 0 then stop_write err inode1 f tw dirty1
           else seqK (write_blk (ucast phys) (patch blk_buf off (take chunk src))) (\<lambda>err.
           if err < 0 then stop_write err inode1 f tw dirty1
           else if offset f + of_nat chunk > ucast (i_size inode1)
           then kfs_write_loop (inode1\<lparr>i_size := ucast (offset f + of_nat chunk)\<rparr>)
                  (f\<lparr>offset := offset f + of_nat chunk\<rparr>) (drop chunk src) (tw + chunk) True
           else kfs_write_loop inode1
                  (f\<lparr>offset := offset f + of_nat chunk\<rparr>) (drop chunk src) (tw + chunk) dirty1))))"
  by pat_completeness auto
termination
  by (relation "measure (\<lambda>(_, _, src, _, _). length src)") (auto simp: Let_def unat_mod_512_less)

declare kfs_write_loop.simps [simp del]

definition kfs_vnode_write :: "'k vnode \<Rightarrow> kfile \<Rightarrow> u8 list \<Rightarrow> ('d, int \<times> kfile \<times> nat) kfs_op" where
  "kfs_vnode_write vn f buf =
     (if flags f AND (O_WRONLY OR O_RDWR) = 0 then retK (- EINVAL, f, 0)
      else if buf = [] then retK (0, f, 0)
      else catchK (kfs_read_inode (ucast (fs_private vn))) (\<lambda>r. case r of
          Inl err \<Rightarrow> retK (err, f, 0)
        | Inr inode \<Rightarrow>
            let f1 = (if flags f AND O_APPEND \<noteq> 0 then f\<lparr>offset := ucast (i_size inode)\<rparr> else f)
            in seqK (kfs_write_loop inode f1 buf 0 False) (\<lambda>(ret, inode2, f2, tw, dirty). case ret of
                 Some err \<Rightarrow> retK (err, f2, 0)
               | None \<Rightarrow>
                   if dirty then
                     catchK (kfs_write_inode (ucast (fs_private vn)) inode2) (\<lambda>r. case r of
                       Inl err \<Rightarrow> retK (err, f2, 0)
                     | Inr _ \<Rightarrow> retK (0, f2, tw))
                   else retK (0, f2, tw))))"

text \<open>\<open>kfs_free_block\<close> on every pointer that is not 0, with its result ignored.\<close>

fun free_ptrs :: "u32 list \<Rightarrow> ('d, unit) kfs_op" where
  "free_ptrs [] = retK ()"
| "free_ptrs (p # ps) =
     seqK (if p \<noteq> 0 then ignoreK (kfs_free_block p) else retK ()) (\<lambda>_. free_ptrs ps)"

definition kfs_free_inode_blocks :: "kfs_inode \<Rightarrow> ('d, kfs_inode) kfs_op" where
  "kfs_free_inode_blocks inode =
     seqK (free_ptrs (direct inode)) (\<lambda>_.
     let inode1 = inode\<lparr>direct := map (\<lambda>_. 0) (direct inode)\<rparr>
     in if indirect inode = 0 then retK inode1
        else seqK (read_blk (ucast (indirect inode)) 1) (\<lambda>(err, buf).
             seqK (if err = 0 then free_ptrs (take 128 (u32s buf)) else retK ()) (\<lambda>_.
             seqK (ignoreK (kfs_free_block (indirect inode))) (\<lambda>_.
             retK (inode1\<lparr>indirect := 0\<rparr>)))))"

definition kfs_vnode_truncate :: "'k vnode \<Rightarrow> ('d, unit) kfs_op" where
  "kfs_vnode_truncate vn =
     seqK (kfs_read_inode (ucast (fs_private vn))) (\<lambda>inode.
     seqK (kfs_free_inode_blocks inode) (\<lambda>inode1.
     kfs_write_inode (ucast (fs_private vn)) (inode1\<lparr>i_size := 0\<rparr>)))"

section \<open>Directories\<close>

text \<open>
  Fields of the \<open>struct kfs_dirent\<close> at an offset of the directory's data. Reading past the buffer
  is a fault. \<open>cmp_name\<close> is \<open>strcmp(ent->name, name) == 0\<close>, \<open>None\<close> if it runs off the buffer.
\<close>

definition ent_inode :: "u8 list \<Rightarrow> nat \<Rightarrow> u32" where
  "ent_inode data off = le32 (data ! off) (data ! (off + 1)) (data ! (off + 2)) (data ! (off + 3))"

definition ent_type :: "u8 list \<Rightarrow> nat \<Rightarrow> u8" where
  "ent_type data off = data ! (off + 6)"

definition ent_reclen :: "u8 list \<Rightarrow> nat \<Rightarrow> u16 outcome" where
  "ent_reclen data off =
     (if off + 6 \<le> length data then Inr (le16 (data ! (off + 4)) (data ! (off + 5))) else Inl OutOfBounds)"

fun cmp_name :: "u8 list \<Rightarrow> u8 list \<Rightarrow> bool option" where
  "cmp_name [] name = None"
| "cmp_name (x # xs) [] = Some (x = 0)"
| "cmp_name (x # xs) (n # ns) = (if x = n then cmp_name xs ns else Some False)"

definition ent_is :: "u8 list \<Rightarrow> nat \<Rightarrow> u8 list \<Rightarrow> bool outcome" where
  "ent_is data off name =
     (case cmp_name (drop (off + 7) data) name of None \<Rightarrow> Inl OutOfBounds | Some b \<Rightarrow> Inr b)"

text \<open>The search loop of \<open>lookup\<close>, \<open>unlink\<close> and \<open>rmdir\<close>: the offset of the first record of that name.\<close>

function find_dirent :: "u8 list \<Rightarrow> u8 list \<Rightarrow> nat \<Rightarrow> nat option outcome" where
  "find_dirent data name off =
     (if off < length data then
        (case ent_reclen data off of
           Inl e \<Rightarrow> Inl e
         | Inr reclen \<Rightarrow>
             if reclen = 0 \<or> reclen mod 4 \<noteq> 0 then Inr None
             else (case ent_is data off name of
                 Inl e \<Rightarrow> Inl e
               | Inr same \<Rightarrow> if same then Inr (Some off) else find_dirent data name (off + unat reclen)))
      else Inr None)"
  by pat_completeness auto
termination
  by (relation "measure (\<lambda>(data, name, off). length data - off)")
    (auto simp: unat_gt_0 intro!: diff_less_mono2)

declare find_dirent.simps [simp del]

abbreviation VNODE_SIZE :: nat where "VNODE_SIZE \<equiv> 24"

text \<open>A fresh vnode in front of an inode, with the operations of its directory.\<close>

definition new_vnode :: "'k vnode \<Rightarrow> u64 \<Rightarrow> u32 \<Rightarrow> ('d, 'k vnode) kfs_op" where
  "new_vnode vn private ty =
     seqK (kmallocK VNODE_SIZE) (\<lambda>ok.
     if \<not> ok then failK (- ENOMEM) else retK \<lparr>ops = ops vn, fs_private = private, vtype = ty\<rparr>)"

text \<open>Reading a whole directory into a buffer of its size.\<close>

definition read_dir :: "'k vnode \<Rightarrow> kfs_inode \<Rightarrow> ('d, u8 list) kfs_op" where
  "read_dir vn inode =
     seqK (kmallocK (unat (i_size inode))) (\<lambda>ok.
     if \<not> ok then failK (- ENOMEM)
     else seqK (kfs_vnode_read vn \<lparr>offset = 0, flags = 0\<rparr> (ucast (i_size inode))) (\<lambda>(err, _, data).
     if err < 0 then failK err else retK data))"

definition kfs_vnode_lookup :: "'k vnode \<Rightarrow> u8 list \<Rightarrow> ('d, 'k vnode) kfs_op" where
  "kfs_vnode_lookup vn name =
     seqK (kfs_read_inode (ucast (fs_private vn))) (\<lambda>inode.
     if i_type inode \<noteq> KFS_TYPE_DIR then failK (- ENOTDIR)
     else if name = cstr ''.'' then new_vnode vn (fs_private vn) VNODE_TYPE_DIR
     else sbK (\<lambda>S.
     if ucast (fs_private vn) = root_inode S \<and> name = cstr ''..'' then new_vnode vn (fs_private vn) VNODE_TYPE_DIR
     else seqK (read_dir vn inode) (\<lambda>data.
     seqK (liftK (find_dirent data name 0)) (\<lambda>r. case r of
       None \<Rightarrow> failK (- ENOENT)
     | Some off \<Rightarrow> new_vnode vn (ucast (ent_inode data off))
         (if ucast (ent_type data off) = KFS_TYPE_DIR then VNODE_TYPE_DIR else VNODE_TYPE_FILE)))))"

text \<open>\<open>strncpy(dst, src, n)\<close> followed by a terminating zero at \<open>dst[n]\<close>, on a buffer of known length.\<close>

fun copy_name :: "nat \<Rightarrow> u8 list \<Rightarrow> u8 list outcome" where
  "copy_name 0 bs = Inr []"
| "copy_name (Suc n) [] = Inl OutOfBounds"
| "copy_name (Suc n) (b # bs) = (if b = 0 then Inr [] else bindF (copy_name n bs) (\<lambda>r. Inr (b # r)))"

definition kfs_vnode_getdents ::
  "'k vnode \<Rightarrow> kfile \<Rightarrow> u64 \<Rightarrow> ('d, int \<times> kfile \<times> dirent option) kfs_op" where
  "kfs_vnode_getdents vn f count =
     (if count = 0 then failK (- EINVAL)
      else seqK (kfs_read_inode (ucast (fs_private vn))) (\<lambda>inode.
      if i_type inode \<noteq> KFS_TYPE_DIR then failK (- ENOTDIR)
      else if offset f \<ge> ucast (i_size inode) then retK (0, f, None)
      else seqK (read_dir vn inode) (\<lambda>data.
      seqK (liftK (ent_reclen data (unat (offset f)))) (\<lambda>reclen.
      if reclen = 0 \<or> offset f + ucast reclen > ucast (i_size inode) then failK (- EIO)
      else seqK (liftK (copy_name 255 (drop (unat (offset f) + 7) data))) (\<lambda>name.
      retK (DIRENT_SIZE, f\<lparr>offset := offset f + ucast reclen\<rparr>,
        Some \<lparr>d_ino = ucast (ent_inode data (unat (offset f))),
          d_type = (if ucast (ent_type data (unat (offset f))) = KFS_TYPE_DIR then DT_DIR else DT_REG),
          d_reclen = 280, d_name = name\<rparr>))))))"

definition kfs_vnode_close :: "'k vnode \<Rightarrow> kfile \<Rightarrow> ('d, unit) kfs_op" where
  "kfs_vnode_close vn f = retK ()"

subsection \<open>Removing an entry\<close>

text \<open>The first loop of \<open>kfs_remove_dirent\<close>: giving back blocks past the new end.\<close>

fun drop_blocks :: "nat list \<Rightarrow> kfs_inode \<Rightarrow> ('d, kfs_inode) kfs_op" where
  "drop_blocks [] inode = retK inode"
| "drop_blocks (b # bs) inode =
     (if b < 10 then
        if direct inode ! b \<noteq> 0 then
          seqK (ignoreK (kfs_free_block (direct inode ! b))) (\<lambda>_.
          drop_blocks bs (inode\<lparr>direct := (direct inode)[b := 0]\<rparr>))
        else drop_blocks bs inode
      else if indirect inode \<noteq> 0 then
        seqK (read_blk (ucast (indirect inode)) 1) (\<lambda>(err, buf).
        if err \<noteq> 0 then drop_blocks bs inode
        else if length (u32s buf) \<le> b - 10 then liftK (Inl OutOfBounds)
        else if u32s buf ! (b - 10) = 0 then drop_blocks bs inode
        else seqK (ignoreK (kfs_free_block (u32s buf ! (b - 10)))) (\<lambda>_.
             seqK (write_blk (ucast (indirect inode)) (bytes32 ((u32s buf)[b - 10 := 0]))) (\<lambda>_.
             drop_blocks bs inode)))
      else drop_blocks bs inode)"

text \<open>The second loop: writing the remaining records back, one block at a time.\<close>

definition dir_block :: "u8 list \<Rightarrow> nat \<Rightarrow> nat \<Rightarrow> u8 list" where
  "dir_block data new_size b =
     patch (replicate KFS_BLOCK_SIZE 0) 0
       (slice (b * KFS_BLOCK_SIZE) (min KFS_BLOCK_SIZE (new_size - b * KFS_BLOCK_SIZE)) data)"

fun write_back :: "nat list \<Rightarrow> kfs_inode \<Rightarrow> nat \<Rightarrow> u8 list \<Rightarrow> ('d, unit) kfs_op" where
  "write_back [] inode new_size data = retK ()"
| "write_back (b # bs) inode new_size data =
     (if b < 10 then
        seqK (write_blk (ucast (direct inode ! b)) (dir_block data new_size b)) (\<lambda>_.
        write_back bs inode new_size data)
      else
        seqK (read_blk (ucast (indirect inode)) 1) (\<lambda>(_, buf).
        if length (u32s buf) \<le> b - 10 then liftK (Inl OutOfBounds)
        else seqK (write_blk (ucast (u32s buf ! (b - 10))) (dir_block data new_size b)) (\<lambda>_.
        write_back bs inode new_size data)))"

definition kfs_remove_dirent :: "'k vnode \<Rightarrow> kfs_inode \<Rightarrow> u32 \<Rightarrow> u16 \<Rightarrow> u8 list \<Rightarrow> ('d, unit) kfs_op" where
  "kfs_remove_dirent dir_vn dir_inode target_offset reclen data =
     (let size = i_size dir_inode;
          next = target_offset + ucast reclen;
          remaining = size - next;
          new_size = size - ucast reclen;
          old_blocks = (size + 511) div 512;
          new_blocks = (new_size + 511) div 512
      in if 0 < remaining \<and> length data < unat next + unat remaining then liftK (Inl OutOfBounds)
         else let moved = patch data (unat target_offset) (slice (unat next) (unat remaining) data)
         in seqK (drop_blocks [unat new_blocks ..< unat old_blocks] dir_inode) (\<lambda>inode1.
            seqK (if new_blocks \<le> 10 \<and> indirect inode1 \<noteq> 0
                  then seqK (ignoreK (kfs_free_block (indirect inode1))) (\<lambda>_. retK (inode1\<lparr>indirect := 0\<rparr>))
                  else retK inode1) (\<lambda>inode2.
            seqK (write_back [0 ..< unat new_blocks] inode2 (unat new_size) moved) (\<lambda>_.
            kfs_write_inode (ucast (fs_private dir_vn)) (inode2\<lparr>i_size := new_size\<rparr>)))))"

text \<open>
  The common start of \<open>kfs_vnode_unlink\<close> and \<open>kfs_vnode_rmdir\<close>: the directory's inode and data, the
  offset of the entry and the inode it names.
\<close>

definition find_target :: "'k vnode \<Rightarrow> u8 list \<Rightarrow> ('d, kfs_inode \<times> u8 list \<times> nat \<times> kfs_inode) kfs_op" where
  "find_target vn name =
     (if name = cstr ''.'' \<or> name = cstr ''..'' then failK (- EINVAL)
      else seqK (kfs_read_inode (ucast (fs_private vn))) (\<lambda>dir_inode.
      if i_type dir_inode \<noteq> KFS_TYPE_DIR then failK (- ENOTDIR)
      else if i_size dir_inode = 0 then failK (- ENOENT)
      else seqK (read_dir vn dir_inode) (\<lambda>data.
      seqK (liftK (find_dirent data name 0)) (\<lambda>r. case r of
        None \<Rightarrow> failK (- ENOENT)
      | Some off \<Rightarrow> seqK (kfs_read_inode (ent_inode data off)) (\<lambda>target.
          retK (dir_inode, data, off, target))))))"

text \<open>Their common end: giving back the inode and its blocks and taking the entry out.\<close>

definition remove_target :: "'k vnode \<Rightarrow> kfs_inode \<Rightarrow> u8 list \<Rightarrow> nat \<Rightarrow> kfs_inode \<Rightarrow> ('d, unit) kfs_op" where
  "remove_target vn dir_inode data off target =
     seqK (kfs_free_inode_blocks target) (\<lambda>t.
     seqK (ignoreK (kfs_write_inode (ent_inode data off) (t\<lparr>i_size := 0, i_type := 0, link_count := 0\<rparr>))) (\<lambda>_.
     seqK (ignoreK (kfs_free_inode (ent_inode data off))) (\<lambda>_.
     seqK (liftK (ent_reclen data off)) (\<lambda>reclen.
     kfs_remove_dirent vn dir_inode (of_nat off) reclen data))))"

definition kfs_vnode_unlink :: "'k vnode \<Rightarrow> u8 list \<Rightarrow> ('d, unit) kfs_op" where
  "kfs_vnode_unlink vn name =
     seqK (find_target vn name) (\<lambda>(dir_inode, data, off, target).
     if i_type target = KFS_TYPE_DIR then failK (- EISDIR)
     else remove_target vn dir_inode data off target)"

text \<open>The loop that looks for entries other than \<open>.\<close> and \<open>..\<close>.\<close>

function dir_is_empty :: "u8 list \<Rightarrow> nat \<Rightarrow> bool outcome" where
  "dir_is_empty data off =
     (if off < length data then
        (case ent_reclen data off of
           Inl e \<Rightarrow> Inl e
         | Inr reclen \<Rightarrow>
             if reclen = 0 \<or> reclen mod 4 \<noteq> 0 then Inr True
             else (case ent_is data off (cstr ''.'') of
                 Inl e \<Rightarrow> Inl e
               | Inr True \<Rightarrow> dir_is_empty data (off + unat reclen)
               | Inr False \<Rightarrow>
                   (case ent_is data off (cstr ''..'') of
                      Inl e \<Rightarrow> Inl e
                    | Inr same \<Rightarrow> if same then dir_is_empty data (off + unat reclen) else Inr False)))
      else Inr True)"
  by pat_completeness auto
termination
  by (relation "measure (\<lambda>(data, off). length data - off)")
    (auto simp: unat_gt_0 intro!: diff_less_mono2)

declare dir_is_empty.simps [simp del]

definition kfs_vnode_rmdir :: "'k vnode \<Rightarrow> u8 list \<Rightarrow> ('d, unit) kfs_op" where
  "kfs_vnode_rmdir vn name =
     seqK (find_target vn name) (\<lambda>(dir_inode, data, off, target).
     if i_type target \<noteq> KFS_TYPE_DIR then failK (- ENOTDIR)
     else seqK (if i_size target = 0 then retK True
                else seqK (read_dir (vn\<lparr>fs_private := ucast (ent_inode data off), vtype := VNODE_TYPE_DIR\<rparr>) target)
                       (\<lambda>sub_data. liftK (dir_is_empty sub_data 0))) (\<lambda>empty.
     if \<not> empty then failK (- ENOTEMPTY)
     else remove_target vn dir_inode data off target))"

subsection \<open>Creating an entry\<close>

text \<open>A directory record: inode number, record length, type, name with its zero, padded with zeros.\<close>

definition dirent_bytes :: "u32 \<Rightarrow> nat \<Rightarrow> u8 \<Rightarrow> u8 list \<Rightarrow> u8 list" where
  "dirent_bytes ino reclen ty name =
     patch (replicate reclen 0) 0 (bytes_of_u32 ino @ bytes_of_u16 (of_nat reclen) @ [ty] @ name @ [0])"

definition reclen_of :: "u8 list \<Rightarrow> nat" where
  "reclen_of name = (8 + length name + 3) div 4 * 4"

text \<open>The block of a new directory, with its entries \<open>.\<close> and \<open>..\<close>.\<close>

definition new_dir_block :: "u32 \<Rightarrow> u32 \<Rightarrow> u8 list" where
  "new_dir_block new_ino dir_ino =
     patch (replicate KFS_BLOCK_SIZE 0) 0
       (dirent_bytes new_ino 12 2 (cstr ''.'') @ dirent_bytes dir_ino 12 2 (cstr ''..''))"

definition make_dir :: "u32 \<Rightarrow> u32 \<Rightarrow> ('d, unit) kfs_op" where
  "make_dir new_ino dir_ino =
     catchK kfs_alloc_block (\<lambda>r. case r of
       Inl err \<Rightarrow> seqK (ignoreK (kfs_free_inode new_ino)) (\<lambda>_. failK err)
     | Inr dir_blk \<Rightarrow>
         catchK (seqK (writeK (ucast dir_blk) (new_dir_block new_ino dir_ino)) (\<lambda>_.
           kfs_write_inode new_ino (zero_inode\<lparr>i_type := KFS_TYPE_DIR, i_size := 24,
             direct := (replicate 10 0)[0 := dir_blk], link_count := 2\<rparr>))) (\<lambda>r. case r of
           Inl err \<Rightarrow> seqK (ignoreK (kfs_free_block dir_blk)) (\<lambda>_.
             seqK (ignoreK (kfs_free_inode new_ino)) (\<lambda>_. failK err))
         | Inr _ \<Rightarrow> retK ()))"

text \<open>Undoing a creation whose entry could not be stored.\<close>

definition undo_create :: "u32 \<Rightarrow> u32 \<Rightarrow> int \<Rightarrow> ('d, 'a) kfs_op" where
  "undo_create kfs_type new_ino err =
     seqK (if kfs_type = KFS_TYPE_DIR then
             catchK (kfs_read_inode new_ino) (\<lambda>r. case r of
               Inl _ \<Rightarrow> retK ()
             | Inr t \<Rightarrow> if direct t ! 0 \<noteq> 0 then ignoreK (kfs_free_block (direct t ! 0)) else retK ())
           else retK ()) (\<lambda>_.
     seqK (ignoreK (kfs_free_inode new_ino)) (\<lambda>_. failK err))"

text \<open>The last part of \<open>kfs_vnode_create\<close>: appending the record of the new inode to the directory.\<close>

definition append_entry :: "'k vnode \<Rightarrow> u8 list \<Rightarrow> u32 \<Rightarrow> kfs_inode \<Rightarrow> u32 \<Rightarrow> ('d, 'k vnode) kfs_op" where
  "append_entry vn name kfs_type dir_inode new_ino =
     seqK (kmallocK (reclen_of name)) (\<lambda>ok.
     if \<not> ok then undo_create kfs_type new_ino (- ENOMEM)
     else catchK (kfs_read_inode (ucast (fs_private vn))) (\<lambda>r.
       let dir2 = (case r of Inl _ \<Rightarrow> dir_inode | Inr i \<Rightarrow> i)
       in seqK (kfs_vnode_write vn \<lparr>offset = ucast (i_size dir2), flags = O_WRONLY\<rparr>
            (dirent_bytes new_ino (reclen_of name) (ucast kfs_type) name)) (\<lambda>(err, _, _).
          if err < 0 then undo_create kfs_type new_ino err
          else new_vnode vn (ucast new_ino)
            (if kfs_type = KFS_TYPE_DIR then VNODE_TYPE_DIR else VNODE_TYPE_FILE))))"

definition kfs_vnode_create :: "'k vnode \<Rightarrow> u8 list \<Rightarrow> u32 \<Rightarrow> ('d, 'k vnode) kfs_op" where
  "kfs_vnode_create vn name ty =
     (let dir_ino = ucast (fs_private vn); kfs_type = (if ty = VNODE_TYPE_DIR then KFS_TYPE_DIR else KFS_TYPE_FILE)
      in seqK (kfs_read_inode dir_ino) (\<lambda>dir_inode.
         if i_type dir_inode \<noteq> KFS_TYPE_DIR then failK (- ENOTDIR)
         else if name = [] \<or> 255 < length name then failK (- EINVAL)
         else if name = cstr ''.'' \<or> name = cstr ''..'' then failK (- EEXIST)
         else catchK (kfs_vnode_lookup vn name) (\<lambda>r. case r of
           Inr existing \<Rightarrow> if ty = VNODE_TYPE_DIR then failK (- EEXIST) else retK existing
         | Inl _ \<Rightarrow>
             seqK (kfs_alloc_inode kfs_type) (\<lambda>new_ino.
             seqK (if kfs_type = KFS_TYPE_DIR then make_dir new_ino dir_ino else retK ()) (\<lambda>_.
             append_entry vn name kfs_type dir_inode new_ino)))))"

end
