(* ===== verification/KFS_Logic.thy ===== *)
theory KFS_Logic
  imports KFS
begin

unbundle bit_operations_syntax

text \<open>
  Reasoning about file system operations on a device that keeps its contract: \<open>mounted_on\<close> relates a
  state of the model to what is stored (superblock, sector contents, the two bitmaps in memory),
  and \<open>yields\<close> says that an operation returns a given result and leaves such a state.
\<close>

section \<open>Results of operations\<close>

definition yields :: "('d, 'a) kfs_op \<Rightarrow> 'd kfs \<Rightarrow> (int + 'a) \<Rightarrow> ('d kfs \<Rightarrow> bool) \<Rightarrow> bool" where
  "yields m s r Q \<longleftrightarrow> (\<exists>s'. m s = Inr (r, s') \<and> Q s')"

lemma yields_ret [intro]: "Q s \<Longrightarrow> yields (retK x) s (Inr x) Q"
  by (simp add: yields_def retK_def)

lemma yields_fail [intro]: "Q s \<Longrightarrow> yields (failK e) s (Inl e) Q"
  by (simp add: yields_def failK_def)

lemma yields_lift: "Q s \<Longrightarrow> r = Inr x \<Longrightarrow> yields (liftK r) s (Inr x) Q"
  by (simp add: yields_def liftK_def)

lemma yields_upd: "Q (u s) \<Longrightarrow> yields (updK u) s (Inr ()) Q"
  by (simp add: yields_def updK_def)

lemma yields_get [simp]: "yields (getK g k) s r Q \<longleftrightarrow> yields (k (g s)) s r Q"
  by (simp add: yields_def getK_def)

lemma yields_catch:
  assumes "yields m s x P" and "\<And>s'. P s' \<Longrightarrow> yields (k x) s' r Q"
  shows "yields (catchK m k) s r Q"
  using assms by (fastforce simp: yields_def catchK_def)

lemma yields_seq:
  assumes "yields m s (Inr x) P" and "\<And>s'. P s' \<Longrightarrow> yields (k x) s' r Q"
  shows "yields (seqK m k) s r Q"
  unfolding seqK_def by (rule yields_catch [OF assms(1)]) (simp add: assms(2))

lemma yields_step:
  "m s = Inr (x, t) \<Longrightarrow> yields (catchK m k) s r Q \<longleftrightarrow> yields (k x) t r Q"
  "m s = Inr (Inr y, t) \<Longrightarrow> yields (seqK m k') s r Q \<longleftrightarrow> yields (k' y) t r Q"
  by (simp_all add: yields_def seqK_def catchK_def)

lemma yields_seq_fail:
  assumes "yields m s (Inl e) Q"
  shows "yields (seqK m k) s (Inl e) Q"
  unfolding seqK_def by (rule yields_catch [OF assms]) auto

lemma yields_ignore:
  assumes "yields m s x Q"
  shows "yields (ignoreK m) s (Inr ()) Q"
  unfolding ignoreK_def by (rule yields_catch [OF assms]) auto

lemma seqK_simps [simp]:
  "seqK (retK x) k = k x" "seqK (failK e) k = failK e" "seqK (liftK (Inr x)) k = k x"
  "catchK (retK x) k' = k' (Inr x)" "catchK (failK e) k' = k' (Inl e)"
  by (simp_all add: seqK_def catchK_def retK_def failK_def liftK_def fun_eq_iff)

lemma yields_seq_upd [simp]: "yields (seqK (updK u) k) s r Q \<longleftrightarrow> yields (k ()) (u s) r Q"
  by (simp add: yields_def seqK_def catchK_def updK_def)

lemma yields_weaken: "yields m s r P \<Longrightarrow> (\<And>s'. P s' \<Longrightarrow> Q s') \<Longrightarrow> yields m s r Q"
  by (auto simp: yields_def)

lemma yields_if: "yields (if b then m else m') s r Q \<longleftrightarrow> (if b then yields m s r Q else yields m' s r Q)"
  by simp

section \<open>Mounted states\<close>

definition mounted_on ::
  "('d \<Rightarrow> u64 \<Rightarrow> u32 \<Rightarrow> (int \<times> u8 list \<times> 'd) outcome) \<Rightarrow> ('d \<Rightarrow> u64 \<Rightarrow> u32 \<Rightarrow> u8 list \<Rightarrow> (int \<times> 'd) outcome)
    \<Rightarrow> ('d \<Rightarrow> nat \<Rightarrow> u8 list) \<Rightarrow> ('d \<Rightarrow> bool)
    \<Rightarrow> kfs_superblock \<Rightarrow> (nat \<Rightarrow> u8 list) \<Rightarrow> u8 list \<Rightarrow> u8 list \<Rightarrow> 'd kfs \<Rightarrow> bool" where
  "mounted_on rd wr sectors ready S V bb ib s \<longleftrightarrow>
     sb s = Some S \<and> read_sectors (kfs_blk s) = rd \<and> write_sectors (kfs_blk s) = wr
     \<and> ready (priv (kfs_blk s)) \<and> sectors (priv (kfs_blk s)) = V
     \<and> block_bitmap s = bb \<and> inode_bitmap s = ib \<and> (\<forall>k. kmem s k)"

text \<open>Where the parts of the file system are on the medium of \<open>n\<close> sectors: in order, without overlap.\<close>

definition layout :: "kfs_superblock \<Rightarrow> nat \<Rightarrow> bool" where
  "layout S n \<longleftrightarrow>
     unat (total_blocks S) \<le> n
     \<and> unat (total_blocks S) \<le> 4096 * unat (block_bitmap_blks S)
     \<and> unat (inode_count S) \<le> 4096 * unat (inode_bitmap_blks S)
     \<and> unat (block_bitmap_start S) + unat (block_bitmap_blks S) \<le> unat (inode_bitmap_start S)
     \<and> unat (inode_bitmap_start S) + unat (inode_bitmap_blks S) \<le> unat (inode_table_start S)
     \<and> unat (inode_table_start S) + (unat (inode_count S) + 7) div 8 \<le> unat (data_blocks_start S)
     \<and> unat (data_blocks_start S) \<le> unat (total_blocks S)
     \<and> 0 < unat (data_blocks_start S)"

text \<open>A bitmap in memory and its copy on the medium agree.\<close>

definition synced :: "nat \<Rightarrow> u8 list \<Rightarrow> (nat \<Rightarrow> u8 list) \<Rightarrow> bool" where
  "synced start bm V \<longleftrightarrow> (\<forall>k. 512 * k < length bm \<longrightarrow> V (start + k) = slice (512 * k) 512 bm)"

definition meta_ok :: "kfs_superblock \<Rightarrow> nat \<Rightarrow> (nat \<Rightarrow> u8 list) \<Rightarrow> u8 list \<Rightarrow> u8 list \<Rightarrow> bool" where
  "meta_ok S n V bb ib \<longleftrightarrow> layout S n
     \<and> length bb = 512 * unat (block_bitmap_blks S) \<and> length ib = 512 * unat (inode_bitmap_blks S)
     \<and> synced (unat (block_bitmap_start S)) bb V \<and> synced (unat (inode_bitmap_start S)) ib V
     \<and> (\<forall>i < n. length (V i) = 512)"

text \<open>The inode stored in the table.\<close>

definition inodeV :: "kfs_superblock \<Rightarrow> (nat \<Rightarrow> u8 list) \<Rightarrow> nat \<Rightarrow> kfs_inode" where
  "inodeV S V ino = inode_of (slice (64 * (ino mod 8)) 64 (V (unat (inode_table_start S) + ino div 8)))"

definition table_sector :: "kfs_superblock \<Rightarrow> nat \<Rightarrow> nat" where
  "table_sector S ino = unat (inode_table_start S) + ino div 8"

text \<open>The table after storing an inode.\<close>

definition put_inode :: "kfs_superblock \<Rightarrow> nat \<Rightarrow> kfs_inode \<Rightarrow> (nat \<Rightarrow> u8 list) \<Rightarrow> (nat \<Rightarrow> u8 list)" where
  "put_inode S ino i V =
     V(table_sector S ino := patch (V (table_sector S ino)) (64 * (ino mod 8)) (bytes_of_inode i))"

definition inode_wf :: "kfs_inode \<Rightarrow> bool" where
  "inode_wf i \<longleftrightarrow> length (direct i) = 10 \<and> length (pad i) = 2"

lemma inode_roundtrip:
  assumes "inode_wf i"
  shows "inode_of (bytes_of_inode i) = i"
proof -
  have l: "length (direct i) = 10" "length (pad i) = 2" using assms by (simp_all add: inode_wf_def)
  have "slice 2 10 ([i_size i, i_type i] @ direct i @ [indirect i, link_count i] @ pad i) = direct i"
    "slice 14 2 ([i_size i, i_type i] @ direct i @ [indirect i, link_count i] @ pad i) = pad i"
    using l by (simp_all add: slice_def numeral_eq_Suc)
  moreover have "([i_size i, i_type i] @ direct i @ [indirect i, link_count i] @ pad i) ! 12 = indirect i"
    "([i_size i, i_type i] @ direct i @ [indirect i, link_count i] @ pad i) ! 13 = link_count i"
    using l by (simp_all add: nth_append nth_Cons')
  ultimately show ?thesis
    unfolding inode_of_def bytes_of_inode_def u32s_bytes32 Let_def by (simp add: kfs_inode.equality)
qed

lemma length_bytes_of_inode: "inode_wf i \<Longrightarrow> length (bytes_of_inode i) = 64"
  by (simp add: bytes_of_inode_def inode_wf_def)

lemma inode_wf_inode_of: "length bs = 64 \<Longrightarrow> inode_wf (inode_of bs)"
  by (simp add: inode_wf_def inode_of_def Let_def)

context block_device
begin

abbreviation kst :: "kfs_superblock \<Rightarrow> (nat \<Rightarrow> u8 list) \<Rightarrow> u8 list \<Rightarrow> u8 list \<Rightarrow> 'd kfs \<Rightarrow> bool" where
  "kst \<equiv> mounted_on rd wr sectors ready"

lemma yields_sb:
  assumes "kst S V bb ib s" and "yields (k S) s r Q"
  shows "yields (sbK k) s r Q"
  using assms by (simp add: yields_def sbK_def mounted_on_def)

lemma yields_kmalloc:
  assumes "kst S V bb ib s" and "0 < n"
  shows "yields (kmallocK n) s (Inr True) (kst S V bb ib)"
  using assms by (auto simp: yields_def kmallocK_def mounted_on_def)

lemma yields_read_blk:
  assumes "kst S V bb ib s" and "unat lba < nsec"
  shows "yields (read_blk lba 1) s (Inr (0, V (unat lba))) (kst S V bb ib)"
proof -
  from rd_one [of "priv (kfs_blk s)" lba] assms obtain d where
    "rd (priv (kfs_blk s)) lba 1 = Inr (0, V (unat lba), d)" "ready d" "sectors d = V"
    by (auto simp: mounted_on_def)
  with assms(1) show ?thesis by (auto simp: yields_def read_blk_def mounted_on_def)
qed

lemma yields_write_blk:
  assumes "kst S V bb ib s" and "unat lba < nsec" and "length b = 512"
  shows "yields (write_blk lba b) s (Inr 0) (kst S (V(unat lba := b)) bb ib)"
proof -
  from wr_ok [of "priv (kfs_blk s)" lba b] assms obtain d where
    "wr (priv (kfs_blk s)) lba 1 b = Inr (0, d)" "ready d" "sectors d = V(unat lba := b)"
    by (auto simp: mounted_on_def)
  with assms(1) show ?thesis by (auto simp: yields_def write_blk_def mounted_on_def)
qed

lemma yields_read:
  assumes "kst S V bb ib s" and "unat lba < nsec"
  shows "yields (readK lba) s (Inr (V (unat lba))) (kst S V bb ib)"
  unfolding readK_def by (rule yields_seq [OF yields_read_blk [OF assms]]) auto

lemma yields_write:
  assumes "kst S V bb ib s" and "unat lba < nsec" and "length b = 512"
  shows "yields (writeK lba b) s (Inr ()) (kst S (V(unat lba := b)) bb ib)"
  unfolding writeK_def by (rule yields_seq [OF yields_write_blk [OF assms]]) auto

end

end
