(* ===== verification/KFS_Blocks.thy ===== *)
theory KFS_Blocks
  imports KFS_Logic
begin

unbundle bit_operations_syntax

text \<open>
  The lowest layer of the file system on a device that keeps its contract: reading and writing
  inodes of the table, allocating and freeing inodes and blocks. Every operation is described by the
  state it leaves, and every such state keeps the bitmaps on the medium equal to those in memory.
\<close>

section \<open>The inode table\<close>

lemma unat_ucast_u32 [simp]: "unat (ucast (x :: u32) :: u64) = unat x"
  using u32_bound [of x] by (simp add: unsigned_ucast_eq take_bit_nat_eq_self_iff)

lemma unat_ucast_u16 [simp]: "unat (ucast (x :: u16) :: u64) = unat x" "unat (ucast (x :: u16) :: u32) = unat x"
proof -
  have "(unsigned x :: nat) < 2 ^ LENGTH(16)" by (rule unsigned_less)
  then have "unat x < 65536" by simp
  then show "unat (ucast x :: u64) = unat x" "unat (ucast x :: u32) = unat x"
    by (simp_all add: unsigned_ucast_eq take_bit_nat_eq_self_iff)
qed

lemma layout_bounds:
  assumes "layout S n"
  shows "unat (block_bitmap_start S) + unat (block_bitmap_blks S) \<le> n"
    and "unat (inode_bitmap_start S) + unat (inode_bitmap_blks S) \<le> n"
    and "unat (inode_table_start S) + (unat (inode_count S) + 7) div 8 \<le> n"
  using assms unfolding layout_def by linarith+

lemma unat_add_u32: "unat a + n < 2 ^ 32 \<Longrightarrow> unat ((a :: u32) + of_nat n) = unat a + n"
  by (simp add: unat_word_ariths unat_of_nat)

lemma table_lba:
  assumes "layout S n" and "ino < inode_count S"
  shows "unat (ucast (inode_table_start S + ino div 8) :: u64) = table_sector S (unat ino)"
    and "table_sector S (unat ino) < n" and "table_sector S (unat ino) < unat (data_blocks_start S)"
    and "unat (inode_table_start S) \<le> table_sector S (unat ino)"
proof -
  have "unat ino < unat (inode_count S)" using assms(2) by (simp add: word_less_nat_alt)
  then have d: "unat ino div 8 < (unat (inode_count S) + 7) div 8" by linarith
  then show lt: "table_sector S (unat ino) < n" and "table_sector S (unat ino) < unat (data_blocks_start S)"
    and "unat (inode_table_start S) \<le> table_sector S (unat ino)"
    using assms(1) layout_bounds(3) [OF assms(1)] unfolding layout_def table_sector_def by linarith+
  then have "table_sector S (unat ino) < 2 ^ 32" using u32_bound [of "data_blocks_start S"] by linarith
  then have "unat (inode_table_start S + ino div 8) = table_sector S (unat ino)"
    by (simp add: table_sector_def unat_word_ariths unat_div)
  then show "unat (ucast (inode_table_start S + ino div 8) :: u64) = table_sector S (unat ino)"
    by simp
qed

lemma inodeV_put_same:
  assumes "length (V (table_sector S ino)) = 512" and "inode_wf i"
  shows "inodeV S (put_inode S ino i V) ino = i"
proof -
  have "64 * (ino mod 8) + 64 \<le> 512" by (simp add: algebra_simps) 
  then show ?thesis
    using slice_patch_same [of "64 * (ino mod 8)" "bytes_of_inode i" "V (table_sector S ino)"]
      assms length_bytes_of_inode [OF assms(2)]
    by (simp add: inodeV_def put_inode_def table_sector_def inode_roundtrip)
qed

lemma inodeV_put_other:
  assumes "length (V (table_sector S ino)) = 512" and "inode_wf i" and "j \<noteq> ino"
  shows "inodeV S (put_inode S ino i V) j = inodeV S V j"
proof (cases "j div 8 = ino div 8")
  case True
  then have "j mod 8 \<noteq> ino mod 8" using assms(3) div_mod_8_eq by blast
  then have "64 * (j mod 8) + 64 \<le> 64 * (ino mod 8) \<or> 64 * (ino mod 8) + 64 \<le> 64 * (j mod 8)" by linarith
  moreover have "64 * (ino mod 8) + 64 \<le> 512" "64 * (j mod 8) + 64 \<le> 512" by simp_all
  ultimately show ?thesis
    using slice_patch_other [of "64 * (ino mod 8)" "bytes_of_inode i" "V (table_sector S ino)" "64 * (j mod 8)" 64]
      True assms length_bytes_of_inode [OF assms(2)]
    by (simp add: inodeV_def put_inode_def table_sector_def)
next
  case False
  then show ?thesis by (simp add: inodeV_def put_inode_def table_sector_def)
qed

lemma put_inode_other: "k \<noteq> table_sector S ino \<Longrightarrow> put_inode S ino i V k = V k"
  by (simp add: put_inode_def)

lemma length_put_inode:
  assumes "length (V (table_sector S ino)) = 512" and "inode_wf i" and "length (V k) = 512"
  shows "length (put_inode S ino i V k) = 512"
proof -
  have "64 * (ino mod 8) + 64 \<le> 512" by simp
  then show ?thesis using assms by (simp add: put_inode_def length_bytes_of_inode)
qed

lemma inodeV_wf:
  assumes "length (V (table_sector S ino)) = 512"
  shows "inode_wf (inodeV S V ino)"
proof -
  have "64 * (ino mod 8) + 64 \<le> 512" by simp
  then show ?thesis using assms unfolding inodeV_def
    by (intro inode_wf_inode_of) (simp add: table_sector_def)
qed

section \<open>The bitmaps\<close>

lemma first_clear_spec:
  assumes "n \<le> 8 * length bm"
  shows "first_clear bm i n = Inr (find (\<lambda>j. \<not> bm_test bm j) [i ..< n])"
proof (induction "n - i" arbitrary: i)
  case 0
  then show ?case by (subst first_clear.simps) simp
next
  case (Suc k)
  then have "i < n" by simp
  then have "bm_get bm i = Inr (bm_test bm i)" using assms by (auto simp: bm_get_def)
  with Suc(1) [of "i + 1"] Suc(2) \<open>i < n\<close> show ?case
    by (subst first_clear.simps) (simp add: upt_conv_Cons)
qed

definition put_bitmap :: "nat \<Rightarrow> u8 list \<Rightarrow> nat \<Rightarrow> (nat \<Rightarrow> u8 list) \<Rightarrow> (nat \<Rightarrow> u8 list)" where
  "put_bitmap start bm i V = V(start + i div 4096 := bitmap_sector bm i)"

lemma bm_set_nth: "k \<noteq> i div 8 \<Longrightarrow> bm_set bm i ! k = bm ! k"
  by (simp add: bm_set_def)

lemma bm_clear_nth: "k \<noteq> i div 8 \<Longrightarrow> bm_clear bm i ! k = bm ! k"
  by (simp add: bm_clear_def)

lemma synced_put:
  assumes "synced start bm V" and "length bm' = length bm" and "\<And>k. k \<noteq> i div 8 \<Longrightarrow> bm' ! k = bm ! k"
  shows "synced start bm' (put_bitmap start bm' i V)"
  unfolding synced_def
proof (intro allI impI)
  fix k assume k: "512 * k < length bm'"
  show "put_bitmap start bm' i V (start + k) = slice (512 * k) 512 bm'"
  proof (cases "k = i div 4096")
    case True
    then show ?thesis by (simp add: put_bitmap_def bitmap_sector_def mult.commute flip: div_mult2_eq)
  next
    case False
    have "slice (512 * k) 512 bm' = slice (512 * k) 512 bm"
    proof (rule nth_equalityI)
      fix q assume q: "q < length (slice (512 * k) 512 bm')"
      then have "512 * k + q \<noteq> i div 8" using False by (auto simp flip: div_mult2_eq)
      with q assms(2,3) show "slice (512 * k) 512 bm' ! q = slice (512 * k) 512 bm ! q"
        by (simp add: nth_slice less_diff_conv add.commute)
    qed (simp add: assms(2))
    with False k assms(1,2) show ?thesis by (simp add: put_bitmap_def synced_def)
  qed
qed

lemma synced_other:
  assumes "synced start bm V" and "\<And>k. start \<le> k \<Longrightarrow> 512 * (k - start) < length bm \<Longrightarrow> V' k = V k"
  shows "synced start bm V'"
  using assms by (simp add: synced_def)


section \<open>What each write leaves intact\<close>

lemma meta_ok_data:
  assumes "meta_ok S n V bb ib" and "unat (data_blocks_start S) \<le> p" and "length b = 512"
  shows "meta_ok S n (V(p := b)) bb ib"
  using assms unfolding meta_ok_def layout_def
  by (auto elim!: synced_other)

lemma meta_ok_put_inode:
  assumes "meta_ok S n V bb ib" and "ino < unat (inode_count S)" and "inode_wf i"
  shows "meta_ok S n (put_inode S ino i V) bb ib"
proof -
  have L: "layout S n" and len: "\<forall>i < n. length (V i) = 512" using assms(1) by (auto simp: meta_ok_def)
  have t: "table_sector S ino < n" "unat (inode_table_start S) \<le> table_sector S ino"
    using assms(2) L unfolding layout_def table_sector_def by linarith+
  show ?thesis
    using assms t len L unfolding meta_ok_def
    by (auto simp: length_put_inode layout_def elim!: synced_other intro!: put_inode_other)
qed

lemma meta_ok_put_bb:
  assumes "meta_ok S n V bb ib" and "length bb' = length bb" and "\<And>k. k \<noteq> i div 8 \<Longrightarrow> bb' ! k = bb ! k"
    and "i < unat (total_blocks S)"
  shows "meta_ok S n (put_bitmap (unat (block_bitmap_start S)) bb' i V) bb' ib"
proof -
  have L: "layout S n" using assms(1) by (auto simp: meta_ok_def)
  have i: "i div 4096 < unat (block_bitmap_blks S)" using assms(4) L unfolding layout_def by linarith
  have "length (bitmap_sector bb' i) = 512"
    using i assms(1,2) unfolding meta_ok_def bitmap_sector_def by (simp add: div_mult2_eq [symmetric])
  then show ?thesis
    using assms synced_put [of _ bb V bb' i] i unfolding meta_ok_def
    by (auto simp: put_bitmap_def layout_def elim!: synced_other)
qed

lemma meta_ok_put_ib:
  assumes "meta_ok S n V bb ib" and "length ib' = length ib" and "\<And>k. k \<noteq> i div 8 \<Longrightarrow> ib' ! k = ib ! k"
    and "i < unat (inode_count S)"
  shows "meta_ok S n (put_bitmap (unat (inode_bitmap_start S)) ib' i V) bb ib'"
proof -
  have L: "layout S n" using assms(1) by (auto simp: meta_ok_def)
  have i: "i div 4096 < unat (inode_bitmap_blks S)" using assms(4) L unfolding layout_def by linarith
  have "length (bitmap_sector ib' i) = 512"
    using i assms(1,2) unfolding meta_ok_def bitmap_sector_def by (simp add: div_mult2_eq [symmetric])
  then show ?thesis
    using assms synced_put [of _ ib V ib' i] i unfolding meta_ok_def
    by (auto simp: put_bitmap_def layout_def elim!: synced_other)
qed


section \<open>Inode and block operations\<close>

text \<open>The medium and the block bitmap after an allocation or a release of block \<open>j\<close>.\<close>

definition alloc_view :: "kfs_superblock \<Rightarrow> u8 list \<Rightarrow> nat \<Rightarrow> (nat \<Rightarrow> u8 list) \<Rightarrow> (nat \<Rightarrow> u8 list)" where
  "alloc_view S bb j V =
     (put_bitmap (unat (block_bitmap_start S)) (bm_set bb j) j V)(j := replicate 512 0)"

definition free_view :: "kfs_superblock \<Rightarrow> u8 list \<Rightarrow> nat \<Rightarrow> (nat \<Rightarrow> u8 list) \<Rightarrow> (nat \<Rightarrow> u8 list)" where
  "free_view S bb j V = put_bitmap (unat (block_bitmap_start S)) (bm_clear bb j) j V"

context block_device
begin

lemma yields_sync_bitmap:
  assumes "kst S V bb ib s" and "unat start + unat blks \<le> nsec" and "length bm = 512 * unat blks" and "i < 8 * length bm"
    and "nsec' < 2 ^ 32" and "unat start + unat blks \<le> nsec'"
  shows "yields (sync_bitmap start bm i) s (Inr ()) (kst S (put_bitmap (unat start) bm i V) bb ib)"
proof -
  have i: "i div 4096 < unat blks" using assms(3,4) by simp
  then have "unat (start + of_nat (i div 8 div 512)) = unat start + i div 4096"
    using assms(5,6) by (subst unat_add_u32) (simp_all flip: div_mult2_eq)
  moreover have "length (bitmap_sector bm i) = 512"
    using i assms(3) unfolding bitmap_sector_def by (simp add: div_mult2_eq [symmetric])
  ultimately show ?thesis
    using yields_write [OF assms(1), of "ucast (start + of_nat (i div 8 div 512))" "bitmap_sector bm i"] i assms(2)
    by (simp add: sync_bitmap_def put_bitmap_def)
qed

lemma yields_read_inode:
  assumes "kst S V bb ib s" and "meta_ok S nsec V bb ib" and "ino < inode_count S" and "bm_test ib (unat ino)"
  shows "yields (kfs_read_inode ino) s (Inr (inodeV S V (unat ino))) (kst S V bb ib)"
proof -
  have L: "layout S nsec" and len: "length ib = 512 * unat (inode_bitmap_blks S)"
    using assms(2) by (auto simp: meta_ok_def)
  have "unat ino < unat (inode_count S)" using assms(3) by (simp add: word_less_nat_alt)
  then have "unat ino < 8 * length ib" using L len by (auto simp: layout_def)
  then have g: "bm_get (inode_bitmap s) (unat ino) = Inr True"
    using assms(1,4) by (auto simp: bm_get_def mounted_on_def)
  note T = table_lba [OF L assms(3)]
  have nle: "\<not> inode_count S \<le> ino" using assms(3) by simp
  show ?thesis
    unfolding kfs_read_inode_def
    apply (rule yields_sb [OF assms(1)])
    apply (simp add: nle g)
    apply (rule yields_seq [OF yields_read [OF assms(1)]])
     apply (simp only: T)
    apply (simp only: T(1))
    apply (simp add: inodeV_def table_sector_def unat_mod)
    apply (erule yields_ret)
    done
qed

lemma yields_write_inode:
  assumes "kst S V bb ib s" and "meta_ok S nsec V bb ib" and "ino < inode_count S" and "inode_wf i"
  shows "yields (kfs_write_inode ino i) s (Inr ()) (kst S (put_inode S (unat ino) i V) bb ib)"
proof -
  have L: "layout S nsec" and len: "\<forall>i < nsec. length (V i) = 512"
    using assms(2) by (auto simp: meta_ok_def)
  note T = table_lba [OF L assms(3)]
  have nle: "\<not> inode_count S \<le> ino" using assms(3) by simp
  define lba where "lba = (ucast (inode_table_start S + ino div 8) :: u64)"
  define b where "b = patch (V (table_sector S (unat ino))) (64 * (unat ino mod 8)) (bytes_of_inode i)"
  have ul: "unat lba = table_sector S (unat ino)" using T(1) by (simp only: lba_def)
  have "64 * (unat ino mod 8) + 64 \<le> 512" by simp
  then have lb: "length b = 512"
    using len T(2) by (simp add: b_def length_bytes_of_inode [OF assms(4)])
  have w: "yields (writeK lba b) s' (Inr ()) (kst S (put_inode S (unat ino) i V) bb ib)" if "kst S V bb ib s'" for s'
    using yields_write [OF that, of lba b] T(2) ul lb by (simp add: put_inode_def b_def)
  show ?thesis
    unfolding kfs_write_inode_def
    apply (rule yields_sb [OF assms(1)])
    apply (simp add: nle lba_def [symmetric])
    apply (rule yields_seq [OF yields_read [OF assms(1)]])
     apply (simp add: ul T)
    apply (drule w)
    apply (simp add: b_def ul unat_mod)
    done
qed

lemma yields_alloc_block:
  assumes "kst S V bb ib s" and "meta_ok S nsec V bb ib"
  shows "yields kfs_alloc_block s
    (case find (\<lambda>j. \<not> bm_test bb j) [unat (data_blocks_start S) ..< unat (total_blocks S)] of
       None \<Rightarrow> Inl (- ENOSPC) | Some j \<Rightarrow> Inr (of_nat j))
    (case find (\<lambda>j. \<not> bm_test bb j) [unat (data_blocks_start S) ..< unat (total_blocks S)] of
       None \<Rightarrow> kst S V bb ib | Some j \<Rightarrow> kst S (alloc_view S bb j V) (bm_set bb j) ib)"
proof -
  let ?F = "find (\<lambda>j. \<not> bm_test bb j) [unat (data_blocks_start S) ..< unat (total_blocks S)]"
  have L: "layout S nsec" and len: "length bb = 512 * unat (block_bitmap_blks S)"
    using assms(2) by (auto simp: meta_ok_def)
  have bb: "block_bitmap s = bb" using assms(1) by (simp add: mounted_on_def)
  have T: "unat (total_blocks S) \<le> 8 * length bb" using L len by (simp add: layout_def)
  show ?thesis
  proof (cases ?F)
    case None
    then show ?thesis
      unfolding kfs_alloc_block_def
      by (auto intro!: yields_sb [OF assms(1)] yields_fail simp: bb first_clear_spec [OF T] assms(1))
  next
    case (Some j)
    then have "j \<in> set [unat (data_blocks_start S) ..< unat (total_blocks S)]"
      by (metis find_Some_iff nth_mem)
    then have j: "unat (data_blocks_start S) \<le> j" "j < unat (total_blocks S)" by simp_all
    then have uj: "unat (of_nat j :: u32) = j" "j < nsec" "j < 8 * length bb"
      using u32_bound [of "total_blocks S"] L T by (simp_all add: unat_of_nat layout_def)
    have k: "kst S V (bm_set bb j) ib (s\<lparr>block_bitmap := bm_set bb j\<rparr>)"
      using assms(1) by (simp add: mounted_on_def)
    have "yields (kfs_alloc_block) s (Inr (of_nat j)) (kst S (alloc_view S bb j V) (bm_set bb j) ib)"
      unfolding kfs_alloc_block_def
      apply (rule yields_sb [OF assms(1)])
      apply (simp add: bb first_clear_spec [OF T] Some)
      apply (rule yields_seq [OF yields_sync_bitmap [OF k, where blks = "block_bitmap_blks S" and nsec' = "unat (total_blocks S)"]])
           apply (use layout_bounds(1) [OF L] in simp)
          apply (simp add: len)
         apply (simp add: uj)
        apply (use u32_bound [of "total_blocks S"] in simp)
       apply (use L in \<open>simp add: layout_def\<close>)
      apply (rule yields_seq [OF yields_write], assumption)
        apply (simp add: uj)
       apply simp
      apply (simp add: alloc_view_def uj)
      apply (erule yields_ret)
      done
    with Some show ?thesis by simp
  qed
qed

lemma yields_free_block:
  assumes "kst S V bb ib s" and "meta_ok S nsec V bb ib" and "data_blocks_start S \<le> p" and "p < total_blocks S"
  shows "yields (kfs_free_block p) s (Inr ()) (kst S (free_view S bb (unat p) V) (bm_clear bb (unat p)) ib)"
proof -
  have L: "layout S nsec" and len: "length bb = 512 * unat (block_bitmap_blks S)"
    using assms(2) by (auto simp: meta_ok_def)
  have bb: "block_bitmap s = bb" using assms(1) by (simp add: mounted_on_def)
  have T: "unat p < 8 * length bb" using L len assms(4) by (simp add: layout_def word_less_nat_alt)
  then have g: "bm_get bb (unat p) = Inr (bm_test bb (unat p))" by (auto simp: bm_get_def)
  have k: "kst S V (bm_clear bb (unat p)) ib (s\<lparr>block_bitmap := bm_clear bb (unat p)\<rparr>)"
    using assms(1) by (simp add: mounted_on_def)
  have c: "\<not> p < data_blocks_start S" "\<not> total_blocks S \<le> p" using assms(3,4) by auto
  show ?thesis
    unfolding kfs_free_block_def free_view_def
    apply (rule yields_sb [OF assms(1)])
    apply (simp add: bb g c)
    apply (rule yields_sync_bitmap [OF k, where blks = "block_bitmap_blks S" and nsec' = "unat (total_blocks S)"])
        apply (use layout_bounds(1) [OF L] in simp)
       apply (simp add: len)
      apply (simp add: T)
     apply (use u32_bound [of "total_blocks S"] in simp)
    apply (use L in \<open>simp add: layout_def\<close>)
    done
qed

lemma yields_alloc_inode:
  assumes "kst S V bb ib s" and "meta_ok S nsec V bb ib"
  shows "yields (kfs_alloc_inode ty) s
    (case find (\<lambda>j. \<not> bm_test ib j) [1 ..< unat (inode_count S)] of
       None \<Rightarrow> Inl (- ENOSPC) | Some i \<Rightarrow> Inr (of_nat i))
    (case find (\<lambda>j. \<not> bm_test ib j) [1 ..< unat (inode_count S)] of
       None \<Rightarrow> kst S V bb ib
     | Some i \<Rightarrow> kst S (put_inode S i (zero_inode\<lparr>i_type := ty, link_count := 1\<rparr>)
         (put_bitmap (unat (inode_bitmap_start S)) (bm_set ib i) i V)) bb (bm_set ib i))"
proof -
  let ?F = "find (\<lambda>j. \<not> bm_test ib j) [1 ..< unat (inode_count S)]"
  have L: "layout S nsec" and len: "length ib = 512 * unat (inode_bitmap_blks S)"
    using assms(2) by (auto simp: meta_ok_def)
  have ib: "inode_bitmap s = ib" using assms(1) by (simp add: mounted_on_def)
  have T: "unat (inode_count S) \<le> 8 * length ib" using L len by (simp add: layout_def)
  show ?thesis
  proof (cases ?F)
    case None
    then show ?thesis
      unfolding kfs_alloc_inode_def
      by (auto intro!: yields_sb [OF assms(1)] yields_fail simp: ib first_clear_spec [OF T] assms(1))
  next
    case (Some i)
    then have "i \<in> set [1 ..< unat (inode_count S)]" by (metis find_Some_iff nth_mem)
    then have i: "i < unat (inode_count S)" by simp
    then have ui: "unat (of_nat i :: u32) = i" "i < 8 * length ib"
      using u32_bound [of "inode_count S"] L T by (simp_all add: unat_of_nat layout_def)
    then have lt: "(of_nat i :: u32) < inode_count S" using i by (simp add: word_less_nat_alt)
    have k: "kst S V bb (bm_set ib i) (s\<lparr>inode_bitmap := bm_set ib i\<rparr>)"
      using assms(1) by (simp add: mounted_on_def)
    have m: "meta_ok S nsec (put_bitmap (unat (inode_bitmap_start S)) (bm_set ib i) i V) bb (bm_set ib i)"
      by (rule meta_ok_put_ib [OF assms(2)]) (simp_all add: bm_set_nth i)
    have wf: "inode_wf (zero_inode\<lparr>i_type := ty, link_count := 1\<rparr>)" by (simp add: inode_wf_def zero_inode_def)
    have "yields (kfs_alloc_inode ty) s (Inr (of_nat i))
      (kst S (put_inode S i (zero_inode\<lparr>i_type := ty, link_count := 1\<rparr>)
         (put_bitmap (unat (inode_bitmap_start S)) (bm_set ib i) i V)) bb (bm_set ib i))"
      unfolding kfs_alloc_inode_def
      apply (rule yields_sb [OF assms(1)])
      apply (simp add: ib first_clear_spec [OF T] Some [simplified])
      apply (rule yields_seq [OF yields_sync_bitmap [OF k, where blks = "inode_bitmap_blks S" and nsec' = "unat (total_blocks S)"]])
           apply (use layout_bounds(2) [OF L] in simp)
          apply (simp add: len)
         apply (simp add: ui)
        apply (use u32_bound [of "total_blocks S"] in simp)
       apply (use L in \<open>simp add: layout_def\<close>)
      apply (rule yields_seq [OF yields_write_inode [OF _ m lt wf]], assumption)
      apply (simp add: ui)
      apply (erule yields_ret)
      done
    with Some show ?thesis by simp
  qed
qed

lemma yields_free_inode:
  assumes "kst S V bb ib s" and "meta_ok S nsec V bb ib" and "0 < ino" and "ino < inode_count S"
  shows "yields (kfs_free_inode ino) s (Inr ())
    (kst S (put_bitmap (unat (inode_bitmap_start S)) (bm_clear ib (unat ino)) (unat ino) V) bb (bm_clear ib (unat ino)))"
proof -
  have L: "layout S nsec" and len: "length ib = 512 * unat (inode_bitmap_blks S)"
    using assms(2) by (auto simp: meta_ok_def)
  have ib: "inode_bitmap s = ib" using assms(1) by (simp add: mounted_on_def)
  have T: "unat ino < 8 * length ib" using L len assms(4) by (simp add: layout_def word_less_nat_alt)
  then have g: "bm_get ib (unat ino) = Inr (bm_test ib (unat ino))" by (auto simp: bm_get_def)
  have k: "kst S V bb (bm_clear ib (unat ino)) (s\<lparr>inode_bitmap := bm_clear ib (unat ino)\<rparr>)"
    using assms(1) by (simp add: mounted_on_def)
  have c: "ino \<noteq> 0" "\<not> inode_count S \<le> ino" using assms(3,4) by auto
  show ?thesis
    unfolding kfs_free_inode_def
    apply (rule yields_sb [OF assms(1)])
    apply (simp add: ib g c)
    apply (rule yields_sync_bitmap [OF k, where blks = "inode_bitmap_blks S" and nsec' = "unat (total_blocks S)"])
        apply (use layout_bounds(2) [OF L] in simp)
       apply (simp add: len)
      apply (simp add: T)
     apply (use u32_bound [of "total_blocks S"] in simp)
    apply (use L in \<open>simp add: layout_def\<close>)
    done
qed

end

end
