(* ===== verification/KFS_Files.thy ===== *)
theory KFS_Files
  imports KFS_Blocks
begin

unbundle bit_operations_syntax

text \<open>
  Files: the block pointers of an inode, the bytes they stand for, and the read loop. A file is
  well-formed if its pointers are distinct blocks in use of the data area; it is dense if every
  block below its size is there, which is what a read needs.
\<close>

section \<open>Block pointers\<close>

text \<open>
  The 139 block pointers of a file in one list: ten direct ones, the indirect one, and the 128 of
  the indirect block (all 0 while there is none).
\<close>

definition slots :: "(nat \<Rightarrow> u8 list) \<Rightarrow> kfs_inode \<Rightarrow> u32 list" where
  "slots V i = direct i @ indirect i # (if indirect i = 0 then replicate 128 0 else u32s (V (unat (indirect i))))"

definition slot_of :: "nat \<Rightarrow> nat" where
  "slot_of l = (if l < 10 then l else l + 1)"

definition bmap :: "(nat \<Rightarrow> u8 list) \<Rightarrow> kfs_inode \<Rightarrow> nat \<Rightarrow> u32" where
  "bmap V i l = slots V i ! slot_of l"

definition data_block :: "kfs_superblock \<Rightarrow> u32 \<Rightarrow> bool" where
  "data_block S p \<longleftrightarrow> data_blocks_start S \<le> p \<and> p < total_blocks S"

text \<open>The pointers of a file that are not 0 are blocks in use of the data area, each occurring once.\<close>

definition file_ok :: "kfs_superblock \<Rightarrow> u8 list \<Rightarrow> (nat \<Rightarrow> u8 list) \<Rightarrow> kfs_inode \<Rightarrow> bool" where
  "file_ok S bb V i \<longleftrightarrow> inode_wf i
     \<and> (\<forall>p \<in> set (slots V i). p \<noteq> 0 \<longrightarrow> data_block S p \<and> bm_test bb (unat p))
     \<and> (\<forall>a < 139. \<forall>b < 139. a \<noteq> b \<longrightarrow> slots V i ! a = slots V i ! b \<longrightarrow> slots V i ! a = 0)"

definition owned :: "(nat \<Rightarrow> u8 list) \<Rightarrow> kfs_inode \<Rightarrow> nat set" where
  "owned V i = unat ` (set (slots V i) - {0})"

text \<open>The bytes of a file, and a file without holes.\<close>

definition fbyte :: "(nat \<Rightarrow> u8 list) \<Rightarrow> kfs_inode \<Rightarrow> nat \<Rightarrow> u8" where
  "fbyte V i x = V (unat (bmap V i (x div 512))) ! (x mod 512)"

definition fdata :: "(nat \<Rightarrow> u8 list) \<Rightarrow> kfs_inode \<Rightarrow> u8 list" where
  "fdata V i = map (fbyte V i) [0 ..< unat (i_size i)]"

abbreviation MAX_FILE :: nat where "MAX_FILE \<equiv> 138 * 512"

definition dense :: "(nat \<Rightarrow> u8 list) \<Rightarrow> kfs_inode \<Rightarrow> bool" where
  "dense V i \<longleftrightarrow> unat (i_size i) \<le> MAX_FILE \<and> (\<forall>l. 512 * l < unat (i_size i) \<longrightarrow> bmap V i l \<noteq> 0)"

lemma length_fdata [simp]: "length (fdata V i) = unat (i_size i)"
  by (simp add: fdata_def)

lemma nth_fdata: "x < unat (i_size i) \<Longrightarrow> fdata V i ! x = fbyte V i x"
  by (simp add: fdata_def)

lemma slot_of_less: "l < 138 \<Longrightarrow> slot_of l < 139" "slot_of l \<noteq> 10"
  by (simp_all add: slot_of_def)

lemma slot_of_inj: "slot_of l = slot_of m \<longleftrightarrow> l = m"
  by (auto simp: slot_of_def)

lemma length_slots:
  assumes "inode_wf i" and "length (V (unat (indirect i))) = 512"
  shows "length (slots V i) = 139"
  using assms by (simp add: slots_def inode_wf_def)

lemma slots_indirect: "inode_wf i \<Longrightarrow> slots V i ! 10 = indirect i"
  by (simp add: slots_def inode_wf_def nth_append)

lemma slots_direct: "inode_wf i \<Longrightarrow> l < 10 \<Longrightarrow> slots V i ! l = direct i ! l"
  by (simp add: slots_def inode_wf_def nth_append)

lemma slots_via_indirect:
  assumes "inode_wf i" and "indirect i \<noteq> 0" and "10 \<le> l"
  shows "slots V i ! Suc l = u32s (V (unat (indirect i))) ! (l - 10)"
  using assms by (simp add: slots_def inode_wf_def nth_append Suc_diff_le)

lemma slots_cong: "V' (unat (indirect i)) = V (unat (indirect i)) \<Longrightarrow> slots V' i = slots V i"
  by (simp add: slots_def)

lemma bmap_direct: "inode_wf i \<Longrightarrow> l < 10 \<Longrightarrow> bmap V i l = direct i ! l"
  by (simp add: bmap_def slot_of_def slots_direct)

lemma bmap_indirect: "inode_wf i \<Longrightarrow> indirect i \<noteq> 0 \<Longrightarrow> 10 \<le> l \<Longrightarrow> bmap V i l = u32s (V (unat (indirect i))) ! (l - 10)"
  by (simp add: bmap_def slot_of_def slots_via_indirect)

lemma bmap_no_indirect: "inode_wf i \<Longrightarrow> indirect i = 0 \<Longrightarrow> 10 \<le> l \<Longrightarrow> l < 138 \<Longrightarrow> bmap V i l = 0"
  by (simp add: bmap_def slot_of_def slots_def inode_wf_def nth_append)

text \<open>Setting a size does not move blocks.\<close>

lemma slots_size [simp]: "slots V (i\<lparr>i_size := n\<rparr>) = slots V i"
  by (simp add: slots_def)

lemma bmap_size [simp]: "bmap V (i\<lparr>i_size := n\<rparr>) = bmap V i"
  by (simp add: bmap_def fun_eq_iff)

lemma fbyte_size [simp]: "fbyte V (i\<lparr>i_size := n\<rparr>) = fbyte V i"
  by (simp add: fbyte_def fun_eq_iff)

lemma owned_size [simp]: "owned V (i\<lparr>i_size := n\<rparr>) = owned V i"
  by (simp add: owned_def)

lemma inode_wf_size [simp]: "inode_wf (i\<lparr>i_size := n\<rparr>) = inode_wf i"
  by (simp add: inode_wf_def)

lemma file_ok_size [simp]: "file_ok S bb V (i\<lparr>i_size := n\<rparr>) = file_ok S bb V i"
  by (simp add: file_ok_def)

text \<open>Facts about one well-formed file.\<close>

lemma file_ok_slot:
  assumes "file_ok S bb V i" and "length (slots V i) = 139" and "k < 139" and "slots V i ! k \<noteq> 0"
  shows "data_block S (slots V i ! k)" and "bm_test bb (unat (slots V i ! k))" and "unat (slots V i ! k) \<in> owned V i"
  using assms by (auto simp: file_ok_def owned_def)

lemma file_ok_inj:
  "file_ok S bb V i \<Longrightarrow> a < 139 \<Longrightarrow> b < 139 \<Longrightarrow> a \<noteq> b \<Longrightarrow> slots V i ! a = slots V i ! b \<Longrightarrow> slots V i ! a = 0"
  by (simp add: file_ok_def)

lemma file_ok_len:
  assumes "file_ok S bb V i" and "\<And>p. data_block S p \<Longrightarrow> length (V (unat p)) = 512"
  shows "length (slots V i) = 139"
proof (cases "indirect i = 0")
  case True
  then show ?thesis using assms(1) by (simp add: slots_def file_ok_def inode_wf_def)
next
  case False
  then have "data_block S (indirect i)" using assms(1) by (auto simp: file_ok_def slots_def)
  then show ?thesis using assms by (intro length_slots) (auto simp: file_ok_def)
qed

lemma data_block_bounds:
  assumes "meta_ok S n V bb ib" and "data_block S p"
  shows "unat (data_blocks_start S) \<le> unat p" and "unat p < n" and "unat p < unat (total_blocks S)"
    and "length (V (unat p)) = 512" and "p \<noteq> 0"
  using assms by (auto simp: meta_ok_def layout_def data_block_def word_less_nat_alt word_le_nat_alt)

lemma file_ok_length:
  "meta_ok S n V bb ib \<Longrightarrow> file_ok S bb' V i \<Longrightarrow> length (slots V i) = 139"
  by (erule file_ok_len) (rule data_block_bounds(4))

lemma bmap_data_block:
  assumes "meta_ok S n V bb ib" and "file_ok S bb V i" and "l < 138" and "bmap V i l \<noteq> 0"
  shows "data_block S (bmap V i l)" and "unat (bmap V i l) \<in> owned V i" and "bmap V i l \<noteq> indirect i"
proof -
  note len = file_ok_length [OF assms(1,2)]
  note K = file_ok_slot [OF assms(2) len slot_of_less(1) [OF assms(3)]]
  show "data_block S (bmap V i l)" "unat (bmap V i l) \<in> owned V i"
    using K assms(4) by (simp_all add: bmap_def)
  show "bmap V i l \<noteq> indirect i"
    using file_ok_inj [OF assms(2), of "slot_of l" 10] slot_of_less [of l] assms(2-4) slots_indirect [of i V]
    by (auto simp: bmap_def file_ok_def)
qed

section \<open>Reading\<close>

lemma div_mod_add:
  fixes m :: nat
  assumes "x mod m + k < m"
  shows "(x + k) div m = x div m" and "(x + k) mod m = x mod m + k"
proof -
  define q r where "q = x div m" and "r = x mod m"
  have e: "x + k = m * q + (r + k)" and r: "r + k < m" using assms by (simp_all add: q_def r_def)
  from r show "(x + k) div m = x div m" unfolding e by (simp add: q_def)
  from r show "(x + k) mod m = x mod m + k" unfolding e by (simp add: r_def)
qed

context block_device
begin

lemma yields_map_block:
  assumes "kst S V bb ib s" and "meta_ok S nsec V bb ib" and "file_ok S bb V i" and "unat l < 138"
    and "bmap V i (unat l) \<noteq> 0"
  shows "yields (kfs_map_block i l) s (Inr (bmap V i (unat l))) (kst S V bb ib)"
proof (cases "unat l < 10")
  case True
  then have "l < 10" by (simp add: word_less_nat_alt)
  with True assms show ?thesis
    by (auto simp: kfs_map_block_def bmap_direct file_ok_def intro: yields_ret)
next
  case False
  then have l: "\<not> l < 10" "unat (l - 10) = unat l - 10"
    by (simp_all add: word_less_nat_alt unat_sub word_le_nat_alt)
  then have l2: "\<not> 128 \<le> l - 10" using assms(4) by (simp add: word_le_nat_alt)
  have wf: "inode_wf i" using assms(3) by (simp add: file_ok_def)
  have ind: "indirect i \<noteq> 0" using bmap_no_indirect [OF wf, of "unat l" V] assms(4,5) False by auto
  have "unat (indirect i) < nsec"
  proof -
    have "slots V i ! 10 = indirect i" using wf by (rule slots_indirect)
    then have "data_block S (indirect i)"
      using file_ok_slot(1) [OF assms(3) file_ok_length [OF assms(2,3)], of 10] ind by simp
    then show ?thesis using data_block_bounds(2) [OF assms(2)] by simp
  qed
  then show ?thesis
    unfolding kfs_map_block_def
    using l(1) l2 ind
    apply simp
    apply (rule yields_seq [OF yields_read [OF assms(1)]])
     apply simp
    using assms(5) False wf
    apply (simp add: bmap_indirect l)
    apply (erule yields_ret)
    done
qed

lemma yields_read_loop:
  assumes "kst S V bb ib s" and "meta_ok S nsec V bb ib" and "file_ok S bb V i" and "dense V i"
    and "unat (offset f) + unat to_read \<le> unat (i_size i)"
  shows "yields (kfs_read_loop i f to_read acc) s
    (Inr (0, f\<lparr>offset := offset f + to_read\<rparr>, acc @ slice (unat (offset f)) (unat to_read) (fdata V i))) (kst S V bb ib)"
  using assms(1,5)
proof (induction "unat to_read" arbitrary: s f to_read acc rule: less_induct)
  case less
  show ?case
  proof (cases "to_read = 0")
    case True
    then show ?thesis using less.prems by (subst kfs_read_loop.simps) (auto simp: slice_def intro: yields_ret)
  next
    case False
    define o1 where "o1 = unat (offset f)"
    define c where "c = min (512 - offset f mod 512) to_read"
    have m: "unat (offset f mod 512) = o1 mod 512" by (simp add: o1_def unat_mod)
    have ml: "o1 mod 512 < 512" by simp
    have "offset f mod 512 \<le> 512" using ml m by (simp add: word_le_nat_alt)
    then have "unat (512 - offset f mod 512) = 512 - o1 mod 512" by (simp add: unat_sub m)
    then have c: "unat c = min (512 - o1 mod 512) (unat to_read)"
      by (simp add: c_def min_def word_le_nat_alt)
    have tr: "0 < unat to_read" using False by (simp add: unat_gt_0)
    then have c0: "0 < unat c" "unat c \<le> unat to_read" "o1 mod 512 + unat c \<le> 512"
      using c tr ml by (auto simp: min_def)
    have sub: "unat (to_read - c) = unat to_read - unat c" by (simp add: unat_sub word_le_nat_alt c0)
    have o2: "unat (offset f + c) = o1 + unat c"
      using less.prems(2) c0 u32_bound [of "i_size i"] by (simp add: o1_def unat_word_ariths)
    have dl: "unat (ucast (offset f div 512) :: u32) = o1 div 512"
    proof -
      have "o1 div 512 < 2 ^ 32" using less.prems(2) u32_bound [of "i_size i"] by (simp add: o1_def)
      then show ?thesis by (simp add: unsigned_ucast_eq unat_div o1_def take_bit_nat_eq_self_iff)
    qed
    have dn: "512 * (o1 div 512) < unat (i_size i)" using less.prems(2) tr by (simp add: o1_def)
    then have b: "bmap V i (o1 div 512) \<noteq> 0" and l: "o1 div 512 < 138" using assms(4) by (auto simp: dense_def)
    note P = data_block_bounds [OF assms(2) bmap_data_block(1) [OF assms(2,3) l b]]
    have "slice (o1 mod 512) (unat c) (V (unat (bmap V i (o1 div 512)))) = slice o1 (unat c) (fdata V i)"
    proof (rule nth_equalityI)
      show "length (slice (o1 mod 512) (unat c) (V (unat (bmap V i (o1 div 512))))) = length (slice o1 (unat c) (fdata V i))"
        using P(4) c0 less.prems(2) by (simp add: o1_def)
      fix k assume "k < length (slice (o1 mod 512) (unat c) (V (unat (bmap V i (o1 div 512)))))"
      then have k: "k < unat c" by simp
      then have "(o1 + k) div 512 = o1 div 512" "(o1 + k) mod 512 = o1 mod 512 + k"
        using c0(3) by (simp_all add: div_mod_add)
      with k c0 P(4) less.prems(2) show "slice (o1 mod 512) (unat c) (V (unat (bmap V i (o1 div 512)))) ! k = slice o1 (unat c) (fdata V i) ! k"
        by (simp add: nth_slice nth_fdata fbyte_def o1_def)
    qed
    moreover have "slice o1 (unat c) (fdata V i) @ slice (o1 + unat c) (unat to_read - unat c) (fdata V i) = slice o1 (unat to_read) (fdata V i)"
    proof -
      have "take (unat c + (unat to_read - unat c)) (drop o1 (fdata V i))
          = take (unat c) (drop o1 (fdata V i)) @ take (unat to_read - unat c) (drop (unat c) (drop o1 (fdata V i)))"
        by (rule take_add)
      then show ?thesis using c0 by (simp add: slice_def add.commute)
    qed
    ultimately have D: "slice (o1 mod 512) (unat c) (V (unat (bmap V i (o1 div 512)))) @ slice (o1 + unat c) (unat to_read - unat c) (fdata V i)
        = slice o1 (unat to_read) (fdata V i)" by simp
    have IH: "yields (kfs_read_loop i (f\<lparr>offset := offset f + c\<rparr>) (to_read - c) acc') s'
        (Inr (0, f\<lparr>offset := offset f + to_read\<rparr>, acc' @ slice (o1 + unat c) (unat to_read - unat c) (fdata V i))) (kst S V bb ib)"
      if "kst S V bb ib s'" for s' acc'
      using less.hyps [of "to_read - c" s' "f\<lparr>offset := offset f + c\<rparr>" acc'] that less.prems(2) c0 tr
      by (simp add: sub o2 o1_def)
    show ?thesis
      apply (subst kfs_read_loop.simps)
      apply (simp only: False if_False c_def [symmetric] m)
      apply (rule yields_catch [OF yields_map_block [OF less.prems(1) assms(2,3)]])
        apply (simp only: dl l)
       apply (simp only: dl b not_False_eq_True)
      apply (simp only: dl sum.case)
      apply (rule yields_catch [OF yields_read], assumption)
       apply (simp only: unat_ucast_u32 P)
      apply (simp only: unat_ucast_u32 sum.case)
      using IH [where acc' = "acc @ slice (o1 mod 512) (unat c) (V (unat (bmap V i (o1 div 512))))"]
      apply (simp only: append_assoc D o1_def [symmetric])
      done
  qed
qed

end

end
