(* ===== verification/KFS_Grow.thy ===== *)
theory KFS_Grow
  imports KFS_Files
begin

unbundle bit_operations_syntax

text \<open>
  Adding blocks to one file. \<open>grows\<close> says what such a step may touch; \<open>kfs_map_or_alloc_block\<close> is
  such a step whatever it returns, and when it succeeds the block it names is the one
  \<open>kfs_map_block\<close> finds.
\<close>

section \<open>Growing one file\<close>

definition in_data :: "kfs_superblock \<Rightarrow> nat \<Rightarrow> bool" where
  "in_data S q \<longleftrightarrow> unat (data_blocks_start S) \<le> q \<and> q < unat (total_blocks S)"

text \<open>
  \<open>grows\<close>: a step changes one file, from inode \<open>i\<close> to \<open>i'\<close>. It may take free blocks and write to
  blocks of the file and to blocks it took; blocks of everybody else and the inode table stay.
  \<open>L\<close> are the logical blocks the step may replace or overwrite.
\<close>

definition grows :: "kfs_superblock \<Rightarrow> nat \<Rightarrow> u8 list \<Rightarrow> nat set
    \<Rightarrow> (nat \<Rightarrow> u8 list) \<Rightarrow> u8 list \<Rightarrow> kfs_inode \<Rightarrow> (nat \<Rightarrow> u8 list) \<Rightarrow> u8 list \<Rightarrow> kfs_inode \<Rightarrow> bool" where
  "grows S n ib L V bb i V' bb' i' \<longleftrightarrow>
     meta_ok S n V' bb' ib \<and> file_ok S bb' V' i'
     \<and> i' = i\<lparr>direct := direct i', indirect := indirect i'\<rparr>
     \<and> (\<forall>b < unat (total_blocks S). bm_test bb b \<longrightarrow> bm_test bb' b)
     \<and> owned V' i' \<subseteq> owned V i \<union> {b. in_data S b \<and> \<not> bm_test bb b}
     \<and> (\<forall>q. in_data S q \<longrightarrow> bm_test bb q \<longrightarrow> q \<notin> owned V i \<longrightarrow> V' q = V q)
     \<and> (\<forall>ino < unat (inode_count S). inodeV S V' ino = inodeV S V ino)
     \<and> (\<forall>k < 139. slots V i ! k \<noteq> 0 \<longrightarrow> slots V' i' ! k = slots V i ! k)
     \<and> (\<forall>l < 138. l \<notin> L \<longrightarrow> bmap V' i' l = bmap V i l
          \<and> (bmap V i l \<noteq> 0 \<longrightarrow> V' (unat (bmap V i l)) = V (unat (bmap V i l))))"

lemma grows_refl: "meta_ok S n V bb ib \<Longrightarrow> file_ok S bb V i \<Longrightarrow> grows S n ib L V bb i V bb i"
  by (auto simp: grows_def)

lemma owned_in_data:
  assumes "file_ok S bb V i" and "q \<in> owned V i"
  shows "in_data S q" and "bm_test bb q"
  using assms by (auto simp: file_ok_def owned_def in_data_def data_block_def word_less_nat_alt word_le_nat_alt)

lemma grows_trans:
  assumes "grows S n ib L V bb i V1 bb1 i1" and "grows S n ib M V1 bb1 i1 V2 bb2 i2"
  shows "grows S n ib (L \<union> M) V bb i V2 bb2 i2"
proof -
  have same: "i2 = i\<lparr>direct := direct i2, indirect := indirect i2\<rparr>"
  proof -
    have "i1 = i\<lparr>direct := direct i1, indirect := indirect i1\<rparr>" "i2 = i1\<lparr>direct := direct i2, indirect := indirect i2\<rparr>"
      using assms by (simp_all add: grows_def)
    then show ?thesis by (cases i; cases i1; cases i2) simp
  qed
  have bits: "bm_test bb2 b" if "b < unat (total_blocks S)" "bm_test bb b" for b
    using assms that by (simp add: grows_def)
  have own: "owned V2 i2 \<subseteq> owned V i \<union> {b. in_data S b \<and> \<not> bm_test bb b}"
    using assms unfolding grows_def by (auto simp: in_data_def)
  have foreign: "V2 q = V q" if "in_data S q" "bm_test bb q" "q \<notin> owned V i" for q
  proof -
    have "q \<notin> owned V1 i1" "bm_test bb1 q" "V1 q = V q"
      using assms(1) that by (auto simp: grows_def in_data_def)
    then show ?thesis using assms(2) that(1) by (auto simp: grows_def)
  qed
  have tab: "inodeV S V2 ino = inodeV S V ino" if "ino < unat (inode_count S)" for ino
    using assms that by (simp add: grows_def)
  have blocks: "bmap V2 i2 l = bmap V i l \<and> (bmap V i l \<noteq> 0 \<longrightarrow> V2 (unat (bmap V i l)) = V (unat (bmap V i l)))"
    if "l < 138" "l \<notin> L \<union> M" for l
  proof -
    have "bmap V1 i1 l = bmap V i l \<and> (bmap V i l \<noteq> 0 \<longrightarrow> V1 (unat (bmap V i l)) = V (unat (bmap V i l)))"
      using assms(1) that by (simp add: grows_def)
    moreover have "bmap V2 i2 l = bmap V1 i1 l \<and> (bmap V1 i1 l \<noteq> 0 \<longrightarrow> V2 (unat (bmap V1 i1 l)) = V1 (unat (bmap V1 i1 l)))"
      using assms(2) that by (simp add: grows_def)
    ultimately show ?thesis by simp
  qed
  have ok: "meta_ok S n V2 bb2 ib" "file_ok S bb2 V2 i2" using assms(2) by (simp_all add: grows_def)
  have keep: "slots V2 i2 ! k = slots V i ! k" if "k < 139" "slots V i ! k \<noteq> 0" for k
    using assms that by (simp add: grows_def)
  show ?thesis
    unfolding grows_def using ok same bits own foreign tab blocks keep by blast
qed

text \<open>A step that replaced nothing leaves the old inode a description of the file.\<close>

lemma grows_old:
  assumes "grows S n ib {} V bb i V' bb' i'" and "length (slots V i) = 139" and "length (slots V' i) = 139" and "inode_wf i"
    and "file_ok S bb V i"
  shows "grows S n ib {} V bb i V' bb' i"
proof -
  have keep: "slots V' i' ! k = slots V i ! k" if "k < 139" "slots V i ! k \<noteq> 0" for k
    using assms(1) that by (simp add: grows_def)
  have bm: "bmap V' i' l = bmap V i l" if "l < 138" for l using assms(1) that by (simp add: grows_def)
  have wf': "inode_wf i'" using assms(1) by (simp add: grows_def file_ok_def)
  have sl: "slots V' i = slots V i"
  proof (cases "indirect i = 0")
    case True
    then show ?thesis by (simp add: slots_def)
  next
    case False
    then have ind: "indirect i' = indirect i"
      using keep [of 10] slots_indirect [OF assms(4), of V] slots_indirect [OF wf', of V'] by simp
    show ?thesis
    proof (rule nth_equalityI)
      fix k assume k: "k < length (slots V' i)"
      consider "k < 10" | "k = 10" | "11 \<le> k" by linarith
      then show "slots V' i ! k = slots V i ! k"
      proof cases
        case 3
        then obtain l where l: "k = Suc l" "10 \<le> l" by (cases k) auto
        then have "bmap V' i l = bmap V' i' l"
          using bmap_indirect [OF assms(4) False l(2)] bmap_indirect [OF wf' _ l(2)] ind False by simp
        then show ?thesis using bm [of l] l k assms(3) by (simp add: bmap_def slot_of_def)
      qed (simp_all add: slots_direct slots_indirect assms(4))
    qed (simp add: assms)
  qed
  have bmi: "bmap V' i = bmap V i" by (simp add: bmap_def sl fun_eq_iff)
  have mono: "\<And>b. b < unat (total_blocks S) \<Longrightarrow> bm_test bb b \<Longrightarrow> bm_test bb' b" using assms(1) by (simp add: grows_def)
  then have fo: "file_ok S bb' V' i"
    using assms(5) by (auto simp: file_ok_def sl data_block_def word_less_nat_alt)
  show ?thesis
    using assms(1) fo bm by (simp add: grows_def sl bmi owned_def)
qed

lemma in_data_less: "layout S n \<Longrightarrow> in_data S q \<Longrightarrow> q < n"
  by (simp add: layout_def in_data_def)

lemma table_below_data:
  assumes "layout S n" and "ino < unat (inode_count S)"
  shows "table_sector S ino < unat (data_blocks_start S)" and "unat (inode_table_start S) \<le> table_sector S ino"
  using assms unfolding layout_def table_sector_def by linarith+

lemma inodeV_cong:
  "V' (table_sector S ino) = V (table_sector S ino) \<Longrightarrow> inodeV S V' ino = inodeV S V ino"
  by (simp add: inodeV_def table_sector_def)

lemma alloc_view_facts:
  assumes "meta_ok S n V bb ib" and "in_data S j"
  shows "meta_ok S n (alloc_view S bb j V) (bm_set bb j) ib"
    and "in_data S q \<Longrightarrow> q \<noteq> j \<Longrightarrow> alloc_view S bb j V q = V q"
    and "alloc_view S bb j V j = replicate 512 0"
    and "ino < unat (inode_count S) \<Longrightarrow> inodeV S (alloc_view S bb j V) ino = inodeV S V ino"
    and "b < unat (total_blocks S) \<Longrightarrow> bm_test (bm_set bb j) b \<longleftrightarrow> b = j \<or> bm_test bb b"
proof -
  have L: "layout S n" and len: "length bb = 512 * unat (block_bitmap_blks S)"
    using assms(1) by (auto simp: meta_ok_def)
  have j: "j < unat (total_blocks S)" "unat (data_blocks_start S) \<le> j" using assms(2) by (simp_all add: in_data_def)
  have bs: "unat (block_bitmap_start S) + j div 4096 < unat (inode_bitmap_start S)"
  proof -
    have "j div 4096 < unat (block_bitmap_blks S)" using j L unfolding layout_def by linarith
    then show ?thesis using L unfolding layout_def by linarith
  qed
  show "meta_ok S n (alloc_view S bb j V) (bm_set bb j) ib"
    unfolding alloc_view_def
    by (intro meta_ok_data meta_ok_put_bb [OF assms(1)]) (simp_all add: j bm_set_nth)
  show "alloc_view S bb j V q = V q" if "in_data S q" "q \<noteq> j"
    using that bs L unfolding alloc_view_def put_bitmap_def layout_def in_data_def by auto
  show "alloc_view S bb j V j = replicate 512 0" by (simp add: alloc_view_def)
  show "inodeV S (alloc_view S bb j V) ino = inodeV S V ino" if "ino < unat (inode_count S)"
    using table_below_data [OF L that] bs j L unfolding layout_def
    by (intro inodeV_cong) (simp add: alloc_view_def put_bitmap_def)
  show "bm_test (bm_set bb j) b \<longleftrightarrow> b = j \<or> bm_test bb b" if "b < unat (total_blocks S)"
    using len L j by (intro bm_test_set) (simp add: layout_def)
qed

lemma unat_of_nat_in_data:
  assumes "in_data S j"
  shows "unat (of_nat j :: u32) = j"
proof -
  have "j < 2 ^ 32" using assms u32_bound [of "total_blocks S"] by (simp add: in_data_def)
  then show ?thesis by (simp add: unat_of_nat)
qed

lemma data_block_of_nat:
  assumes "in_data S j"
  shows "data_block S (of_nat j)"
  using assms unat_of_nat_in_data [OF assms] by (simp add: data_block_def in_data_def word_less_nat_alt word_le_nat_alt)

text \<open>A step that puts a freshly allocated block into an empty slot.\<close>

lemma grows_slot:
  assumes m: "meta_ok S n V bb ib" and f: "file_ok S bb V i" and j: "in_data S j" "\<not> bm_test bb j"
    and k: "k < 139" "slots V i ! k = 0" "k = 10 \<or> k = slot_of l" "l < 138"
    and m': "meta_ok S n V' (bm_set bb j) ib" and sl: "slots V' i' = (slots V i)[k := of_nat j]"
    and i': "inode_wf i'" "i' = i\<lparr>direct := direct i', indirect := indirect i'\<rparr>"
    and V': "\<And>q. in_data S q \<Longrightarrow> q \<noteq> j \<Longrightarrow> q \<noteq> unat (indirect i') \<Longrightarrow> V' q = V q"
    and tab: "\<And>ino. ino < unat (inode_count S) \<Longrightarrow> inodeV S V' ino = inodeV S V ino"
  shows "grows S n ib (if k = 10 then {} else {l}) V bb i V' (bm_set bb j) i'"
proof -
  note len = file_ok_length [OF m f]
  note bits = alloc_view_facts(5) [OF m j(1)]
  note uj = unat_of_nat_in_data [OF j(1)]
  have j0: "(of_nat j :: u32) \<noteq> 0" using data_block_bounds(5) [OF m data_block_of_nat [OF j(1)]] .
  have fresh: "slots V i ! a \<noteq> of_nat j" if "a < 139" for a
    using file_ok_slot(2) [OF f len that] j(2) uj j0 by metis
  have nth': "slots V' i' ! a = (if a = k then of_nat j else slots V i ! a)" if "a < 139" for a
    using that len by (simp add: sl)
  have sub: "set (slots V' i') \<subseteq> insert (of_nat j) (set (slots V i))"
    using sl set_update_subset_insert by metis
  have owned_bits: "bm_test bb q" "in_data S q" if "q \<in> owned V i" for q
    using owned_in_data [OF f that] by auto
  have fo: "file_ok S (bm_set bb j) V' i'"
    unfolding file_ok_def
  proof (intro conjI ballI allI impI)
    show "inode_wf i'" by (rule i')
    fix p assume p: "p \<in> set (slots V' i')" "p \<noteq> 0"
    have "p = of_nat j \<or> data_block S p \<and> bm_test bb (unat p)"
      using p sub f by (auto simp: file_ok_def)
    then show "data_block S p" and "bm_test (bm_set bb j) (unat p)"
      using bits data_block_of_nat [OF j(1)] data_block_bounds(3) [OF m] uj by auto
  next
    fix a b :: nat assume ab: "a < 139" "b < 139" "a \<noteq> b" "slots V' i' ! a = slots V' i' ! b"
    then show "slots V' i' ! a = 0"
      using fresh [of a] fresh [of b] file_ok_inj [OF f, of a b] by (auto simp: nth' split: if_splits)
  qed
  have own: "owned V' i' \<subseteq> owned V i \<union> {b. in_data S b \<and> \<not> bm_test bb b}"
    using sub j uj by (auto simp: owned_def)
  have ind': "unat (indirect i') = j \<or> unat (indirect i') \<in> owned V i \<or> unat (indirect i') = 0"
  proof (cases "k = 10")
    case True
    then show ?thesis using slots_indirect [OF i'(1), of V'] nth' [of 10] uj by simp
  next
    case False
    then have "indirect i' \<in> set (slots V i)"
      using slots_indirect [OF i'(1), of V'] nth' [of 10] nth_mem [of 10 "slots V i"] len by simp
    then show ?thesis by (cases "indirect i' = 0") (auto simp: owned_def)
  qed
  have nz: "\<not> in_data S 0" using m by (auto simp: in_data_def meta_ok_def layout_def)
  have foreign: "V' q = V q" if "in_data S q" "bm_test bb q" "q \<notin> owned V i" for q
    using V' [OF that(1)] that j(2) ind' nz by metis
  have map: "bmap V' i' a = bmap V i a \<and> (bmap V i a \<noteq> 0 \<longrightarrow> V' (unat (bmap V i a)) = V (unat (bmap V i a)))"
    if a: "a < 138" "a \<notin> (if k = 10 then {} else {l})" for a
  proof -
    have ne: "slot_of a \<noteq> k" using a k(3) slot_of_less(2) [of a] by (auto simp: slot_of_inj split: if_splits)
    then have e: "bmap V' i' a = bmap V i a" using nth' [OF slot_of_less(1) [OF a(1)]] by (simp add: bmap_def)
    moreover have "V' (unat (bmap V i a)) = V (unat (bmap V i a))" if nzb: "bmap V i a \<noteq> 0"
    proof -
      note B = bmap_data_block [OF m f a(1) nzb]
      have "unat (bmap V i a) \<noteq> unat (indirect i')"
        using bmap_data_block(3) [OF m' fo a(1)] nzb e by (auto dest: word_unat_eq_iff [THEN iffD2])
      moreover have "unat (bmap V i a) \<noteq> j" using owned_bits [OF B(2)] j(2) by auto
      ultimately show ?thesis using V' owned_bits [OF B(2)] by blast
    qed
    ultimately show ?thesis by simp
  qed
  show ?thesis
    unfolding grows_def
    using m' fo i'(2) bits own foreign tab map nth' k(2) by auto
qed

lemma indirect_data:
  assumes "meta_ok S n V bb ib" and "file_ok S bb V i" and "indirect i \<noteq> 0"
  shows "data_block S (indirect i)" and "bm_test bb (unat (indirect i))" and "unat (indirect i) \<in> owned V i"
  using file_ok_slot [OF assms(2) file_ok_length [OF assms(1,2)], of 10] slots_indirect [of i V] assms(2,3)
  by (auto simp: file_ok_def)

lemma data_block_in_data: "data_block S p \<Longrightarrow> in_data S (unat p)"
  by (simp add: data_block_def in_data_def word_less_nat_alt word_le_nat_alt)

text \<open>The three places a new block can go, and overwriting a block that is there.\<close>

lemma grows_direct:
  assumes "meta_ok S n V bb ib" and "file_ok S bb V i" and "in_data S j" and "\<not> bm_test bb j"
    and "l < 10" and "direct i ! l = 0"
  shows "grows S n ib {l} V bb i (alloc_view S bb j V) (bm_set bb j) (i\<lparr>direct := (direct i)[l := of_nat j]\<rparr>)"
    and "bmap (alloc_view S bb j V) (i\<lparr>direct := (direct i)[l := of_nat j]\<rparr>) l = of_nat j"
proof -
  let ?i = "i\<lparr>direct := (direct i)[l := of_nat j]\<rparr>"
  have wf: "inode_wf i" "inode_wf ?i" using assms(2) by (auto simp: file_ok_def inode_wf_def)
  note A = alloc_view_facts [OF assms(1,3)]
  have "alloc_view S bb j V (unat (indirect i)) = V (unat (indirect i))" if "indirect i \<noteq> 0"
    using indirect_data [OF assms(1,2) that] assms(4) A(2) data_block_in_data by metis
  then have sl: "slots (alloc_view S bb j V) ?i = (slots V i)[l := of_nat j]"
    using wf(1) assms(5) by (auto simp: slots_def inode_wf_def list_update_append)
  have k: "l < 139" "slots V i ! l = 0" "l = 10 \<or> l = slot_of l" "l < 138"
    using assms(5,6) wf(1) by (simp_all add: slots_direct slot_of_def)
  have "grows S n ib (if l = 10 then {} else {l}) V bb i (alloc_view S bb j V) (bm_set bb j) ?i"
    by (rule grows_slot [OF assms(1-4) k A(1) sl wf(2)]) (use A in simp_all)
  then show "grows S n ib {l} V bb i (alloc_view S bb j V) (bm_set bb j) ?i" using assms(5) by simp
  show "bmap (alloc_view S bb j V) ?i l = of_nat j"
    using bmap_direct [OF wf(2) assms(5)] wf(1) assms(5) by (simp add: inode_wf_def)
qed

lemma grows_indirect:
  assumes "meta_ok S n V bb ib" and "file_ok S bb V i" and "in_data S j" and "\<not> bm_test bb j" and "indirect i = 0"
  shows "grows S n ib {} V bb i (alloc_view S bb j V) (bm_set bb j) (i\<lparr>indirect := of_nat j\<rparr>)"
    and "(of_nat j :: u32) \<noteq> 0"
proof -
  let ?i = "i\<lparr>indirect := of_nat j\<rparr>"
  have wf: "inode_wf i" "inode_wf ?i" using assms(2) by (auto simp: file_ok_def inode_wf_def)
  note A = alloc_view_facts [OF assms(1,3)]
  show j0: "(of_nat j :: u32) \<noteq> 0" using data_block_bounds(5) [OF assms(1) data_block_of_nat [OF assms(3)]] .
  have "u32s (replicate 512 0) = replicate 128 0" using u32s_replicate_0 [of 128] by simp
  then have sl: "slots (alloc_view S bb j V) ?i = (slots V i)[10 := of_nat j]"
    using wf(1) assms(5) j0 A(3) unat_of_nat_in_data [OF assms(3)]
    by (auto simp: slots_def inode_wf_def list_update_append)
  have k: "10 < (139 :: nat)" "slots V i ! 10 = 0" "10 = (10 :: nat) \<or> 10 = slot_of 0" "(0 :: nat) < 138"
    using assms(5) wf(1) by (simp_all add: slots_indirect)
  have "grows S n ib (if 10 = (10 :: nat) then {} else {0}) V bb i (alloc_view S bb j V) (bm_set bb j) ?i"
    by (rule grows_slot [OF assms(1-4) k A(1) sl wf(2)]) (use A in simp_all)
  then show "grows S n ib {} V bb i (alloc_view S bb j V) (bm_set bb j) ?i" by simp
qed

lemma grows_entry:
  fixes l :: nat
  defines "W \<equiv> \<lambda>S bb j V i. (alloc_view S bb j V)
    (unat (indirect i) := bytes32 ((u32s (V (unat (indirect i))))[l - 10 := of_nat j]))"
  assumes "meta_ok S n V bb ib" and "file_ok S bb V i" and "in_data S j" and "\<not> bm_test bb j"
    and "indirect i \<noteq> 0" and "10 \<le> l" and "l < 138" and "bmap V i l = 0"
  shows "grows S n ib {l} V bb i (W S bb j V i) (bm_set bb j) i" and "bmap (W S bb j V i) i l = of_nat j"
proof -
  have wf: "inode_wf i" using assms(3) by (auto simp: file_ok_def)
  note A = alloc_view_facts [OF assms(2,4)]
  note I = indirect_data [OF assms(2,3,6)]
  note B = data_block_bounds [OF assms(2) I(1)]
  have len: "length (u32s (V (unat (indirect i)))) = 128" using B(4) by simp
  have "l - 9 = Suc (l - 10)" using assms(7) by simp
  then have sl: "slots (W S bb j V i) i = (slots V i)[Suc l := of_nat j]"
    using wf assms(6-8) len by (auto simp: W_def slots_def inode_wf_def list_update_append Suc_diff_le)
  have k: "Suc l < 139" "slots V i ! Suc l = 0" "Suc l = 10 \<or> Suc l = slot_of l" "l < 138"
    using assms(7-9) by (simp_all add: bmap_def slot_of_def)
  have m: "meta_ok S n (W S bb j V i) (bm_set bb j) ib"
    unfolding W_def by (rule meta_ok_data [OF A(1) B(1)]) (use B(4) in simp)
  have "grows S n ib (if Suc l = 10 then {} else {l}) V bb i (W S bb j V i) (bm_set bb j) i"
  proof (rule grows_slot [OF assms(2-5) k m sl wf])
    fix ino assume ino: "ino < unat (inode_count S)"
    have "layout S n" using assms(2) by (simp add: meta_ok_def)
    from table_below_data(1) [OF this ino] have "inodeV S (W S bb j V i) ino = inodeV S (alloc_view S bb j V) ino"
      using B(1) by (intro inodeV_cong) (auto simp: W_def)
    then show "inodeV S (W S bb j V i) ino = inodeV S V ino" using A(4) [OF ino] by simp
  qed (use A in \<open>simp_all add: W_def\<close>)
  then show "grows S n ib {l} V bb i (W S bb j V i) (bm_set bb j) i" using assms(7) by simp
  show "bmap (W S bb j V i) i l = of_nat j"
    using k(1) file_ok_length [OF assms(2,3)] assms(7) by (simp add: bmap_def slot_of_def sl)
qed

lemma grows_write:
  assumes "meta_ok S n V bb ib" and "file_ok S bb V i" and "l < 138" and "bmap V i l \<noteq> 0" and "length b = 512"
  shows "grows S n ib {l} V bb i (V(unat (bmap V i l) := b)) bb i"
    and "bmap (V(unat (bmap V i l) := b)) i = bmap V i"
proof -
  let ?p = "unat (bmap V i l)"
  note P = bmap_data_block [OF assms(1-4)]
  note B = data_block_bounds [OF assms(1) P(1)]
  have "?p \<noteq> unat (indirect i)" using P(3) by (simp add: word_unat_eq_iff)
  then have sl: "slots (V(?p := b)) i = slots V i" by (intro slots_cong) simp
  then show bm: "bmap (V(?p := b)) i = bmap V i" by (simp add: bmap_def fun_eq_iff)
  have m: "meta_ok S n (V(?p := b)) bb ib" by (rule meta_ok_data [OF assms(1) B(1) assms(5)])
  have ow: "owned (V(?p := b)) i = owned V i" by (simp add: owned_def sl)
  have fo: "file_ok S bb (V(?p := b)) i" using assms(2) by (simp add: file_ok_def sl)
  have tab: "inodeV S (V(?p := b)) ino = inodeV S V ino" if "ino < unat (inode_count S)" for ino
  proof -
    have "layout S n" using assms(1) by (simp add: meta_ok_def)
    from table_below_data(1) [OF this that] B(1) show ?thesis by (intro inodeV_cong) auto
  qed
  have other: "unat (bmap V i a) \<noteq> ?p" if "a < 138" "a \<noteq> l" "bmap V i a \<noteq> 0" for a
  proof -
    have "slot_of a \<noteq> slot_of l" using that by (simp add: slot_of_inj)
    then show ?thesis
      using file_ok_inj [OF assms(2), of "slot_of a" "slot_of l"] slot_of_less(1) that assms(3)
      by (auto simp: bmap_def word_unat_eq_iff)
  qed
  show "grows S n ib {l} V bb i (V(?p := b)) bb i"
    unfolding grows_def using m fo ow tab other P(2) bm sl by auto
qed


definition full :: "kfs_superblock \<Rightarrow> u8 list \<Rightarrow> bool" where
  "full S bb \<longleftrightarrow> (\<forall>b. in_data S b \<longrightarrow> bm_test bb b)"

context block_device
begin

lemma alloc_block_cases:
  assumes "meta_ok S nsec V bb ib"
  obtains (full) "full S bb" "\<And>s. kst S V bb ib s \<Longrightarrow> yields kfs_alloc_block s (Inl (- ENOSPC)) (kst S V bb ib)"
  | (block) j where "in_data S j" "\<not> bm_test bb j"
      "\<And>s. kst S V bb ib s \<Longrightarrow>
        yields kfs_alloc_block s (Inr (of_nat j)) (kst S (alloc_view S bb j V) (bm_set bb j) ib)"
proof (cases "find (\<lambda>j. \<not> bm_test bb j) [unat (data_blocks_start S) ..< unat (total_blocks S)]")
  case None
  then have "full S bb" by (auto simp: find_None_iff full_def in_data_def)
  with yields_alloc_block [OF _ assms] None full show ?thesis by simp
next
  case (Some j)
  then have "in_data S j" "\<not> bm_test bb j" by (auto simp: find_Some_iff in_data_def)
  with yields_alloc_block [OF _ assms] Some block show ?thesis by simp
qed

text \<open>What \<open>kfs_map_or_alloc_block\<close> achieves.\<close>

definition mapped :: "kfs_superblock \<Rightarrow> u8 list \<Rightarrow> (nat \<Rightarrow> u8 list) \<Rightarrow> u8 list \<Rightarrow> kfs_inode \<Rightarrow> nat \<Rightarrow> bool \<Rightarrow> 'd kfs
    \<Rightarrow> ('d, int \<times> u32 \<times> kfs_inode \<times> bool) kfs_op \<Rightarrow> bool" where
  "mapped S ib V bb i l dirty s m \<longleftrightarrow> (\<exists>err p i' dirty' V' bb'.
     yields m s (Inr (err, p, i', dirty')) (kst S V' bb' ib)
     \<and> grows S nsec ib (if err < 0 then {} else {l}) V bb i V' bb' i'
     \<and> (dirty \<longrightarrow> dirty') \<and> (\<not> dirty' \<longrightarrow> i' = i)
     \<and> (err < 0 \<and> (full S bb' \<or> 138 \<le> l)
        \<or> err = 0 \<and> l < 138 \<and> p = bmap V' i' l \<and> p \<noteq> 0
          \<and> (bmap V i l \<noteq> 0 \<longrightarrow> p = bmap V i l \<and> V' (unat p) = V (unat p))))"

lemma mapped_okI:
  assumes "yields m s (Inr (0, p, i', dirty')) (kst S V' bb' ib)" and "grows S nsec ib {l} V bb i V' bb' i'"
    and "dirty \<Longrightarrow> dirty'" and "\<not> dirty' \<Longrightarrow> i' = i" and "l < 138" and "p = bmap V' i' l" and "p \<noteq> 0"
    and "bmap V i l \<noteq> 0 \<Longrightarrow> p = bmap V i l \<and> V' (unat p) = V (unat p)"
  shows "mapped S ib V bb i l dirty s m"
  unfolding mapped_def
  by (rule exI [of _ 0], rule exI [of _ p], rule exI [of _ i'], rule exI [of _ dirty'], rule exI [of _ V'],
      rule exI [of _ bb']) (use assms in auto)

lemma mapped_errI:
  assumes "yields m s (Inr (err, p, i', dirty')) (kst S V' bb' ib)" and "err < 0" and "grows S nsec ib {} V bb i V' bb' i'"
    and "dirty \<Longrightarrow> dirty'" and "\<not> dirty' \<Longrightarrow> i' = i" and "full S bb' \<or> 138 \<le> l"
  shows "mapped S ib V bb i l dirty s m"
  unfolding mapped_def
  by (rule exI [of _ err], rule exI [of _ p], rule exI [of _ i'], rule exI [of _ dirty'], rule exI [of _ V'],
      rule exI [of _ bb']) (use assms in simp)

lemma mapped_direct:
  assumes "kst S V bb ib s" and "meta_ok S nsec V bb ib" and "file_ok S bb V i" and "unat l < 10"
  shows "mapped S ib V bb i (unat l) dirty s (kfs_map_or_alloc_block i l dirty)"
proof -
  have l: "l < 10" "unat l < 138" using assms(4) by (simp_all add: word_less_nat_alt)
  have wf: "inode_wf i" using assms(3) by (simp add: file_ok_def)
  note bm = bmap_direct [OF wf assms(4), of V]
  show ?thesis
  proof (cases "direct i ! unat l = 0")
    case False
    have "yields (kfs_map_or_alloc_block i l dirty) s (Inr (0, bmap V i (unat l), i, dirty)) (kst S V bb ib)"
      using l False assms(1) by (auto simp: kfs_map_or_alloc_block_def bm intro: yields_ret)
    then show ?thesis
      by (rule mapped_okI [OF _ grows_refl [OF assms(2,3)]]) (use l False bm in auto)
  next
    case True
    from assms(2) show ?thesis
    proof (cases rule: alloc_block_cases)
      case full
      have "yields (kfs_map_or_alloc_block i l dirty) s (Inr (- ENOSPC, 0, i, dirty)) (kst S V bb ib)"
        unfolding kfs_map_or_alloc_block_def using l True
        by simp (rule yields_catch [OF full(2) [OF assms(1)]], auto intro: yields_ret)
      then show ?thesis by (rule mapped_errI [OF _ _ grows_refl [OF assms(2,3)]]) (use full(1) in auto)
    next
      case (block j)
      note G = grows_direct [OF assms(2,3) block(1,2) assms(4) True]
      have "yields (kfs_map_or_alloc_block i l dirty) s (Inr (0, of_nat j, i\<lparr>direct := (direct i)[unat l := of_nat j]\<rparr>, True))
          (kst S (alloc_view S bb j V) (bm_set bb j) ib)"
        unfolding kfs_map_or_alloc_block_def using l True
        by simp (rule yields_catch [OF block(3) [OF assms(1)]], auto intro: yields_ret)
      then show ?thesis
        by (rule mapped_okI [OF _ G(1)])
          (use G(2) l True bm data_block_bounds(5) [OF assms(2) data_block_of_nat [OF block(1)]] in auto)
    qed
  qed
qed

lemma mapped_entry:
  assumes "kst S V bb ib s" and "meta_ok S nsec V bb ib" and "file_ok S bb V i" and "10 \<le> unat l" and "unat l < 138"
    and "indirect i \<noteq> 0"
  shows "mapped S ib V bb i (unat l) dirty s (kfs_map_or_alloc_block i l dirty)"
proof -
  have l: "\<not> l < 10" "unat (l - 10) = unat l - 10"
    using assms(4) by (simp_all add: word_less_nat_alt unat_sub word_le_nat_alt)
  then have l2: "\<not> 128 \<le> l - 10" using assms(5) by (simp add: word_le_nat_alt)
  have wf: "inode_wf i" using assms(3) by (simp add: file_ok_def)
  note D = indirect_data [OF assms(2,3,6)]
  note B = data_block_bounds [OF assms(2) D(1)]
  note bm = bmap_indirect [OF wf assms(6,4), of V]
  have rd: "yields (readK (ucast (indirect i))) s (Inr (V (unat (indirect i)))) (kst S V bb ib)"
    using yields_read [OF assms(1), of "ucast (indirect i)"] B(2) by simp
  show ?thesis
  proof (cases "bmap V i (unat l) = 0")
    case False
    have "yields (kfs_map_or_alloc_block i l dirty) s (Inr (0, bmap V i (unat l), i, dirty)) (kst S V bb ib)"
      unfolding kfs_map_or_alloc_block_def using l l2 assms(6) False
      by simp (rule yields_catch [OF rd], auto simp: bm intro: yields_ret)
    then show ?thesis by (rule mapped_okI [OF _ grows_refl [OF assms(2,3)]]) (use assms(5) False in auto)
  next
    case True
    from assms(2) show ?thesis
    proof (cases rule: alloc_block_cases)
      case full
      have "yields (kfs_map_or_alloc_block i l dirty) s (Inr (- ENOSPC, 0, i, dirty)) (kst S V bb ib)"
        unfolding kfs_map_or_alloc_block_def using l l2 assms(6) True
        apply simp
        apply (rule yields_catch [OF rd])
        apply (simp add: bm)
        apply (rule yields_catch [OF full(2)], assumption)
        apply (auto intro: yields_ret)
        done
      then show ?thesis by (rule mapped_errI [OF _ _ grows_refl [OF assms(2,3)]]) (use full(1) in auto)
    next
      case (block j)
      note G = grows_entry [OF assms(2,3) block(1,2) assms(6,4,5) True]
      let ?b = "bytes32 ((u32s (V (unat (indirect i))))[unat l - 10 := of_nat j])"
      have "yields (kfs_map_or_alloc_block i l dirty) s (Inr (0, of_nat j, i, dirty))
          (kst S ((alloc_view S bb j V)(unat (indirect i) := ?b)) (bm_set bb j) ib)"
        unfolding kfs_map_or_alloc_block_def using l l2 assms(6) True
        apply simp
        apply (rule yields_catch [OF rd])
        apply (simp add: bm)
        apply (rule yields_catch [OF block(3)], assumption)
        apply simp
        apply (rule yields_catch [OF yields_write [where b = ?b]], assumption)
          apply (use B(2,4) in simp_all)
        apply (auto intro: yields_ret)
        done
      then show ?thesis
        by (rule mapped_okI [OF _ G(1)])
          (use G(2) assms(5) True data_block_bounds(5) [OF assms(2) data_block_of_nat [OF block(1)]] in auto)
    qed
  qed
qed

text \<open>An indirect block is taken first when there is none.\<close>

lemma map_via_new_indirect:
  assumes "\<not> l < 10" and "\<not> 128 \<le> l - 10" and "indirect i = 0" and "ind \<noteq> 0"
    and "yields kfs_alloc_block s (Inr ind) P"
    and "\<And>s'. P s' \<Longrightarrow> yields (kfs_map_or_alloc_block (i\<lparr>indirect := ind\<rparr>) l True) s' r Q"
  shows "yields (kfs_map_or_alloc_block i l dirty) s r Q"
  unfolding kfs_map_or_alloc_block_def using assms(1-3)
  apply simp
  apply (rule yields_catch [OF assms(5)])
  apply (drule assms(6))
  using assms(1,2,4) apply (simp add: kfs_map_or_alloc_block_def)
  done

lemma yields_map_or_alloc:
  assumes "kst S V bb ib s" and "meta_ok S nsec V bb ib" and "file_ok S bb V i"
  shows "mapped S ib V bb i (unat l) dirty s (kfs_map_or_alloc_block i l dirty)"
proof -
  consider "unat l < 10" | "10 \<le> unat l" "unat l < 138" "indirect i \<noteq> 0"
    | "10 \<le> unat l" "unat l < 138" "indirect i = 0" | "138 \<le> unat l" by linarith
  then show ?thesis
  proof cases
    case 1
    then show ?thesis by (rule mapped_direct [OF assms])
  next
    case 2
    then show ?thesis by (rule mapped_entry [OF assms])
  next
    case 3
    have l: "\<not> l < 10" "\<not> 128 \<le> l - 10"
      using 3 by (simp_all add: word_less_nat_alt unat_sub word_le_nat_alt)
    from assms(2) show ?thesis
    proof (cases rule: alloc_block_cases)
      case full
      have "yields (kfs_map_or_alloc_block i l dirty) s (Inr (- ENOSPC, 0, i, dirty)) (kst S V bb ib)"
        unfolding kfs_map_or_alloc_block_def using l 3
        by simp (rule yields_catch [OF full(2) [OF assms(1)]], auto intro: yields_ret)
      then show ?thesis by (rule mapped_errI [OF _ _ grows_refl [OF assms(2,3)]]) (use full(1) in auto)
    next
      case (block j)
      note G = grows_indirect [OF assms(2,3) block(1,2) 3(3)]
      have G': "meta_ok S nsec (alloc_view S bb j V) (bm_set bb j) ib"
        "file_ok S (bm_set bb j) (alloc_view S bb j V) (i\<lparr>indirect := of_nat j\<rparr>)"
        using G(1) by (simp_all add: grows_def)
      obtain s1 where s1: "kfs_alloc_block s = Inr (Inr (of_nat j), s1)" "kst S (alloc_view S bb j V) (bm_set bb j) ib s1"
        using block(3) [OF assms(1)] by (auto simp: yields_def)
      have "mapped S ib (alloc_view S bb j V) (bm_set bb j) (i\<lparr>indirect := of_nat j\<rparr>) (unat l) True s1
          (kfs_map_or_alloc_block (i\<lparr>indirect := of_nat j\<rparr>) l True)"
        by (rule mapped_entry [OF s1(2) G']) (use 3 G(2) in simp_all)
      then obtain err p i' dirty' V' bb' where
        y: "yields (kfs_map_or_alloc_block (i\<lparr>indirect := of_nat j\<rparr>) l True) s1 (Inr (err, p, i', dirty')) (kst S V' bb' ib)"
        and g: "grows S nsec ib (if err < 0 then {} else {unat l}) (alloc_view S bb j V) (bm_set bb j)
          (i\<lparr>indirect := of_nat j\<rparr>) V' bb' i'"
        and d: "dirty'"
        and c: "err < 0 \<and> (full S bb' \<or> 138 \<le> unat l) \<or> err = 0 \<and> unat l < 138 \<and> p = bmap V' i' (unat l) \<and> p \<noteq> 0"
        unfolding mapped_def by blast
      have y': "yields (kfs_map_or_alloc_block i l dirty) s (Inr (err, p, i', dirty')) (kst S V' bb' ib)"
        by (rule map_via_new_indirect [OF l 3(3) G(2), where P = "\<lambda>s'. s' = s1"])
          (use s1 y in \<open>auto simp: yields_def\<close>)
      note g' = grows_trans [OF G(1) g]
      have z: "bmap V i (unat l) = 0"
        by (rule bmap_no_indirect) (use assms(3) 3 in \<open>simp_all add: file_ok_def\<close>)
      from c show ?thesis
      proof
        assume e: "err < 0 \<and> (full S bb' \<or> 138 \<le> unat l)"
        from y' show ?thesis by (rule mapped_errI) (use e d g' in auto)
      next
        assume e: "err = 0 \<and> unat l < 138 \<and> p = bmap V' i' (unat l) \<and> p \<noteq> 0"
        then have "yields (kfs_map_or_alloc_block i l dirty) s (Inr (0, p, i', dirty')) (kst S V' bb' ib)"
          using y' by simp
        then show ?thesis by (rule mapped_okI) (use e d g' z in auto)
      qed
    qed
  next
    case 4
    then have l: "\<not> l < 10" "128 \<le> l - 10" by (simp_all add: word_less_nat_alt unat_sub word_le_nat_alt)
    have "yields (kfs_map_or_alloc_block i l dirty) s (Inr (- EFBIG, 0, i, dirty)) (kst S V bb ib)"
      unfolding kfs_map_or_alloc_block_def using l by (simp add: yields_ret assms(1))
    then show ?thesis by (rule mapped_errI [OF _ _ grows_refl [OF assms(2,3)]]) (use 4 in auto)
  qed
qed

end

end
