(* ===== verification/KFS_Write.thy ===== *)
theory KFS_Write
  imports KFS_Grow
begin

unbundle bit_operations_syntax

text \<open>
  The write loop: whatever it returns, the bytes of the file are the old ones with a prefix of the
  caller's data laid over them, it stops early only if the device is full or the largest file size
  is reached, and it changes nothing outside the file.
\<close>

section \<open>Bytes of a file after a step\<close>

lemma nth_patch_ext:
  assumes "off \<le> length buf" and "x < max (length buf) (off + length src)"
  shows "patch buf off src ! x = (if off \<le> x \<and> x < off + length src then src ! (x - off) else buf ! x)"
  using assms by (auto simp: patch_def nth_append min_def)

lemma length_patch_ext: "off \<le> length buf \<Longrightarrow> length (patch buf off src) = max (length buf) (off + length src)"
  by (auto simp: patch_def)

lemma patch_patch_ext:
  assumes "off \<le> length buf"
  shows "patch (patch buf off a) (off + length a) b = patch buf off (a @ b)"
  using assms by (simp add: patch_def min_def ac_simps)

lemma fdata_kept:
  assumes "grows S n ib {} V bb i V' bb' i'" and "dense V i"
  shows "fdata V' i' = fdata V i" and "dense V' i'"
proof -
  have sz: "i_size i' = i_size i" using assms(1) by (cases i; cases i') (simp add: grows_def)
  have blk: "bmap V' i' l = bmap V i l" "bmap V i l \<noteq> 0" "V' (unat (bmap V i l)) = V (unat (bmap V i l))"
    if "512 * l < unat (i_size i)" for l
    using assms that by (auto simp: grows_def dense_def)
  have "fbyte V' i' x = fbyte V i x" if "x < unat (i_size i)" for x
  proof -
    have "512 * (x div 512) < unat (i_size i)" using that by (rule le_less_trans [rotated]) simp
    from blk [OF this] show ?thesis by (simp add: fbyte_def)
  qed
  then show "fdata V' i' = fdata V i" by (simp add: fdata_def sz)
  show "dense V' i'" using assms(2) blk by (auto simp: dense_def sz)
qed

lemma grows_resize: "grows S n ib L V bb i V' bb' i' \<Longrightarrow> grows S n ib L V bb (i\<lparr>i_size := a\<rparr>) V' bb' (i'\<lparr>i_size := a\<rparr>)"
proof -
  assume g: "grows S n ib L V bb i V' bb' i'"
  then have "i' = i\<lparr>direct := direct i', indirect := indirect i'\<rparr>" by (simp add: grows_def)
  then have e: "i'\<lparr>i_size := a\<rparr> = i\<lparr>i_size := a\<rparr>\<lparr>direct := direct (i'\<lparr>i_size := a\<rparr>), indirect := indirect (i'\<lparr>i_size := a\<rparr>)\<rparr>"
    by (cases i; cases i') simp
  from g show ?thesis unfolding grows_def slots_size owned_size bmap_size file_ok_size using e by blast
qed

text \<open>One round of the write loop on the bytes of the file.\<close>

lemma write_block_bytes:
  fixes l sz off :: nat and b chunk :: "u8 list"
  assumes g: "grows S n ib {l} V bb i V' bb' i'" and d: "dense V i" and off: "off \<le> unat (i_size i)" "l = off div 512" "l < 138"
    and c: "0 < length chunk" "off mod 512 + length chunk \<le> 512"
    and p: "bmap V' i' l \<noteq> 0" "V' (unat (bmap V' i' l)) = patch B (off mod 512) chunk"
    and B: "length B = 512" "bmap V i l \<noteq> 0 \<Longrightarrow> length chunk < 512 \<Longrightarrow> B = V (unat (bmap V i l))"
    and sz: "unat sz' = max (unat (i_size i)) (off + length chunk)"
  shows "fdata V' (i'\<lparr>i_size := sz'\<rparr>) = patch (fdata V i) off chunk" and "dense V' (i'\<lparr>i_size := sz'\<rparr>)"
proof -
  have om: "off = 512 * l + off mod 512" using off(2) by simp
  define r where "r = off mod 512"
  have e: "off + length chunk \<le> 512 * (l + 1)" "512 * l \<le> off" using c(2) om unfolding r_def [symmetric] by simp_all
  have other: "bmap V' i' m = bmap V i m" "bmap V i m \<noteq> 0" "V' (unat (bmap V i m)) = V (unat (bmap V i m))" "512 * m < unat (i_size i)"
    if "512 * m < unat sz'" "m \<noteq> l" for m
  proof -
    have "m < l \<or> l + 1 \<le> m" using that(2) by linarith
    then have lt: "512 * m < unat (i_size i)"
    proof
      assume "m < l" then show ?thesis using e off(1) by simp
    next
      assume "l + 1 \<le> m"
      then have "off + length chunk \<le> 512 * m" using e(1) by (meson le_trans mult_le_mono2)
      then show ?thesis using that(1) sz by simp
    qed
    then have m: "m < 138" "bmap V i m \<noteq> 0" using d by (auto simp: dense_def)
    then show "bmap V' i' m = bmap V i m" "bmap V i m \<noteq> 0" "V' (unat (bmap V i m)) = V (unat (bmap V i m))" "512 * m < unat (i_size i)"
      using g that(2) lt by (auto simp: grows_def)
  qed
  show "dense V' (i'\<lparr>i_size := sz'\<rparr>)"
    unfolding dense_def
  proof (intro conjI allI impI)
    show "unat (i_size (i'\<lparr>i_size := sz'\<rparr>)) \<le> MAX_FILE" using sz d e(1) off(3) by (simp add: dense_def)
    fix m assume "512 * m < unat (i_size (i'\<lparr>i_size := sz'\<rparr>))"
    then show "bmap V' (i'\<lparr>i_size := sz'\<rparr>) m \<noteq> 0" using other [of m] p(1) by (cases "m = l") auto
  qed
  show "fdata V' (i'\<lparr>i_size := sz'\<rparr>) = patch (fdata V i) off chunk"
  proof (rule nth_equalityI)
    show "length (fdata V' (i'\<lparr>i_size := sz'\<rparr>)) = length (patch (fdata V i) off chunk)"
      using off(1) by (simp add: length_patch_ext sz)
    fix x assume "x < length (fdata V' (i'\<lparr>i_size := sz'\<rparr>))"
    then have x: "x < unat sz'" by simp
    then have nth: "fdata V' (i'\<lparr>i_size := sz'\<rparr>) ! x = fbyte V' i' x" by (simp add: nth_fdata)
    have pn: "patch (fdata V i) off chunk ! x = (if off \<le> x \<and> x < off + length chunk then chunk ! (x - off) else fdata V i ! x)"
      using nth_patch_ext [of off "fdata V i" x chunk] off(1) x sz by simp
    show "fdata V' (i'\<lparr>i_size := sz'\<rparr>) ! x = patch (fdata V i) off chunk ! x"
    proof (cases "x div 512 = l")
      case False
      have lt: "512 * (x div 512) < unat sz'" using x by (rule le_less_trans [rotated]) simp
      note O = other [OF lt False]
      have "\<not> (off \<le> x \<and> x < off + length chunk)" using False e off(2) by (auto simp: div_le_mono)
      moreover have "x < unat (i_size i)" using calculation x sz off(1) by (auto simp: less_max_iff_disj)
      ultimately show ?thesis using nth pn O by (auto simp: fbyte_def nth_fdata)
    next
      case True
      have xm: "x = 512 * l + x mod 512" unfolding True [symmetric] by simp
      have fb: "fbyte V' i' x = (if off mod 512 \<le> x mod 512 \<and> x mod 512 < off mod 512 + length chunk
          then chunk ! (x mod 512 - off mod 512) else B ! (x mod 512))"
        unfolding fbyte_def True p(2) using c(2) B(1) by (simp add: nth_patch)
      have cond: "(off mod 512 \<le> x mod 512 \<and> x mod 512 < off mod 512 + length chunk) \<longleftrightarrow> (off \<le> x \<and> x < off + length chunk)"
        and diff: "x mod 512 - off mod 512 = x - off"
      proof -
        define rx where "rx = x mod 512"
        have "x = 512 * l + rx" "off = 512 * l + r" using xm om by (simp_all only: rx_def r_def)
        then show "(off mod 512 \<le> x mod 512 \<and> x mod 512 < off mod 512 + length chunk) \<longleftrightarrow> (off \<le> x \<and> x < off + length chunk)"
          and "x mod 512 - off mod 512 = x - off"
          unfolding rx_def [symmetric] r_def [symmetric] by linarith+
      qed
      show ?thesis
      proof (cases "off \<le> x \<and> x < off + length chunk")
        case True
        then show ?thesis using nth pn fb cond diff by simp
      next
        case False
        then have lt: "x < unat (i_size i)" using x sz off(1) by (auto simp: less_max_iff_disj)
        then have "512 * l < unat (i_size i)" using xm by linarith
        then have nz: "bmap V i l \<noteq> 0" using d by (simp add: dense_def)
        have "length chunk < 512"
        proof (rule ccontr)
          assume "\<not> length chunk < 512"
          then have "off mod 512 = 0" "length chunk = 512" using c(2) by linarith+
          with False cond show False by simp
        qed
        from B(2) [OF nz this] False lt show ?thesis using nth pn fb cond True by (auto simp: nth_fdata fbyte_def)
      qed
    qed
  qed
qed


section \<open>The write loop\<close>

context block_device
begin

definition wrote :: "kfs_superblock \<Rightarrow> u8 list \<Rightarrow> (nat \<Rightarrow> u8 list) \<Rightarrow> u8 list \<Rightarrow> kfs_inode \<Rightarrow> kfile \<Rightarrow> u8 list \<Rightarrow> nat \<Rightarrow> bool
    \<Rightarrow> 'd kfs \<Rightarrow> ('d, int option \<times> kfs_inode \<times> kfile \<times> nat \<times> bool) kfs_op \<Rightarrow> bool" where
  "wrote S ib V bb i f src tw dirty s m \<longleftrightarrow> (\<exists>ret i' w dirty' V' bb'.
     yields m s (Inr (ret, i', f\<lparr>offset := offset f + of_nat w\<rparr>, tw + w, dirty')) (kst S V' bb' ib)
     \<and> grows S nsec ib UNIV V bb i V' bb' (i'\<lparr>i_size := i_size i\<rparr>)
     \<and> dense V' i' \<and> fdata V' i' = patch (fdata V i) (unat (offset f)) (take w src) \<and> w \<le> length src
     \<and> (dirty \<longrightarrow> dirty') \<and> (\<not> dirty' \<longrightarrow> i' = i)
     \<and> (w < length src \<longrightarrow> full S bb' \<or> unat (offset f) + w = MAX_FILE)
     \<and> (ret = None \<and> (w = length src \<or> 0 < tw + w)
        \<or> (\<exists>e < 0. ret = Some e) \<and> tw + w = 0 \<and> w < length src \<and> grows S nsec ib {} V bb i V' bb' i))"

lemma wroteI:
  assumes "yields m s (Inr (ret, i', f\<lparr>offset := offset f + of_nat w\<rparr>, tw + w, dirty')) (kst S V' bb' ib)"
    and "grows S nsec ib UNIV V bb i V' bb' (i'\<lparr>i_size := i_size i\<rparr>)"
    and "dense V' i'" and "fdata V' i' = patch (fdata V i) (unat (offset f)) (take w src)" and "w \<le> length src"
    and "dirty \<longrightarrow> dirty'" and "\<not> dirty' \<longrightarrow> i' = i"
    and "w < length src \<longrightarrow> full S bb' \<or> unat (offset f) + w = MAX_FILE"
    and "ret = None \<and> (w = length src \<or> 0 < tw + w)
      \<or> (\<exists>e < 0. ret = Some e) \<and> tw + w = 0 \<and> w < length src \<and> grows S nsec ib {} V bb i V' bb' i"
  shows "wrote S ib V bb i f src tw dirty s m"
  unfolding wrote_def
  by (rule exI [of _ ret], rule exI [of _ i'], rule exI [of _ w], rule exI [of _ dirty'], rule exI [of _ V'],
      rule exI [of _ bb'], intro conjI) (rule assms)+

lemma offset_block:
  assumes "unat (offset f) \<le> unat (i_size i)"
  shows "unat (ucast (offset f div 512) :: u32) = unat (offset f) div 512"
proof -
  have "unat (offset f) div 512 < 2 ^ 32" using assms u32_bound [of "i_size i"] by linarith
  then show ?thesis by (simp add: unsigned_ucast_eq unat_div take_bit_nat_eq_self_iff)
qed

lemma grows_UNIV: "grows S n ib L V bb i V' bb' i' \<Longrightarrow> grows S n ib UNIV V bb i V' bb' i'"
  by (simp add: grows_def)

text \<open>Leaving the loop because no block could be found.\<close>

lemma wrote_stop:
  assumes "grows S nsec ib {} V bb i V' bb' i'" and "dense V i" and "unat (offset f) \<le> unat (i_size i)" and "src \<noteq> []"
    and "dirty \<longrightarrow> dirty'" and "\<not> dirty' \<longrightarrow> i' = i" and "err < 0"
    and "full S bb' \<or> 138 \<le> unat (offset f) div 512" and old: "grows S nsec ib {} V bb i V' bb' i"
    and "yields m s (Inr (if 0 < tw then None else Some err, i', f, tw, dirty')) (kst S V' bb' ib)"
  shows "wrote S ib V bb i f src tw dirty s m"
proof (rule wroteI [where w = 0])
  note K = fdata_kept [OF assms(1,2)]
  have sz: "i'\<lparr>i_size := i_size i\<rparr> = i'" using assms(1) by (cases i; cases i') (simp add: grows_def)
  show "grows S nsec ib UNIV V bb i V' bb' (i'\<lparr>i_size := i_size i\<rparr>)" unfolding sz using assms(1) by (rule grows_UNIV)
  show "0 < length src \<longrightarrow> full S bb' \<or> unat (offset f) + 0 = MAX_FILE"
    using assms(2,3,8) by (auto simp: dense_def)
  show "(if 0 < tw then None else Some err) = None \<and> (0 = length src \<or> 0 < tw + 0)
      \<or> (\<exists>e < 0. (if 0 < tw then None else Some err) = Some e) \<and> tw + 0 = 0 \<and> 0 < length src
        \<and> grows S nsec ib {} V bb i V' bb' i"
    using assms(4,7) old by (cases "0 < tw") auto
qed (use assms(5,6,10) fdata_kept [OF assms(1,2)] in simp_all)

text \<open>One round that stored a chunk, followed by the rest.\<close>

lemma wrote_step:
  assumes g: "grows S nsec ib UNIV V bb i V1 bb1 (i1\<lparr>i_size := i_size i\<rparr>)"
    and d: "dense V1 i1" "fdata V1 i1 = patch (fdata V i) (unat (offset f)) (take c src)"
    and c: "0 < c" "c \<le> length src" "unat (offset f) \<le> unat (i_size i)" "unat (offset f + of_nat c) = unat (offset f) + c"
    and dirty: "dirty \<longrightarrow> dirty1" "\<not> dirty1 \<longrightarrow> i1 = i"
    and rest: "wrote S ib V1 bb1 i1 (f\<lparr>offset := offset f + of_nat c\<rparr>) (drop c src) (tw + c) dirty1 s1 m1"
    and m: "\<And>r Q. yields m1 s1 r Q \<Longrightarrow> yields m s r Q"
  shows "wrote S ib V bb i f src tw dirty s m"
proof -
  have e: "offset (f\<lparr>offset := x\<rparr>) = x" "f\<lparr>offset := x, offset := y\<rparr> = f\<lparr>offset := y\<rparr>" for x y by simp_all
  from rest obtain ret i' w dirty' V' bb' where
    y: "yields m1 s1 (Inr (ret, i', f\<lparr>offset := offset f + of_nat c + of_nat w\<rparr>, tw + c + w, dirty')) (kst S V' bb' ib)"
    and g': "grows S nsec ib UNIV V1 bb1 i1 V' bb' (i'\<lparr>i_size := i_size i1\<rparr>)"
    and r: "dense V' i'" "fdata V' i' = patch (fdata V1 i1) (unat (offset f) + c) (take w (drop c src))" "w \<le> length (drop c src)"
      "dirty1 \<longrightarrow> dirty'" "\<not> dirty' \<longrightarrow> i' = i1"
      "w < length (drop c src) \<longrightarrow> full S bb' \<or> unat (offset f) + c + w = MAX_FILE"
      "ret = None \<and> (w = length (drop c src) \<or> 0 < tw + c + w) \<or> (\<exists>e < 0. ret = Some e) \<and> tw + c + w = 0 \<and> w < length (drop c src)
        \<and> grows S nsec ib {} V1 bb1 i1 V' bb' i1"
    unfolding wrote_def e c(4) by blast
  have G: "grows S nsec ib UNIV V bb i V' bb' (i'\<lparr>i_size := i_size i\<rparr>)"
    using grows_trans [OF g grows_resize [OF g', of "i_size i"]] by simp
  show ?thesis
  proof (rule wroteI [where w = "c + w"])
    show "yields m s (Inr (ret, i', f\<lparr>offset := offset f + of_nat (c + w)\<rparr>, tw + (c + w), dirty')) (kst S V' bb' ib)"
      using m [OF y] by (simp add: add.assoc)
    have "patch (patch (fdata V i) (unat (offset f)) (take c src)) (unat (offset f) + length (take c src)) (take w (drop c src))
        = patch (fdata V i) (unat (offset f)) (take c src @ take w (drop c src))"
      by (rule patch_patch_ext) (simp add: c)
    then show "fdata V' i' = patch (fdata V i) (unat (offset f)) (take (c + w) src)"
      using r(2) d(2) c by (simp add: take_add)
    show "ret = None \<and> (c + w = length src \<or> 0 < tw + (c + w)) \<or> (\<exists>e < 0. ret = Some e) \<and> tw + (c + w) = 0 \<and> c + w < length src
        \<and> grows S nsec ib {} V bb i V' bb' i"
      using r(7) c(1) by simp
    show "c + w < length src \<longrightarrow> full S bb' \<or> unat (offset f) + (c + w) = MAX_FILE"
      using r(6) c by (simp add: add.assoc less_diff_conv2 ac_simps)
    show "\<not> dirty' \<longrightarrow> i' = i" using r(4,5) dirty by blast
    show "dirty \<longrightarrow> dirty'" using r(4) dirty by blast
    show "c + w \<le> length src" using r(3) c by simp
  qed (fact G r(1))+
qed

lemma seqK_step: "m s = Inr (Inr x, s') \<Longrightarrow> seqK m k s = k x s'"
  by (simp add: seqK_def catchK_def)

lemma yields_write_loop:
  assumes "kst S V bb ib s" and "meta_ok S nsec V bb ib" and "file_ok S bb V i" and "dense V i"
    and "unat (offset f) \<le> unat (i_size i)"
  shows "wrote S ib V bb i f src tw dirty s (kfs_write_loop i f src tw dirty)"
  using assms
proof (induction "length src" arbitrary: V bb i f src tw dirty s rule: less_induct)
  case less
  note m = less.prems(2) and fo = less.prems(3) and dn = less.prems(4) and le = less.prems(5)
  show ?case
  proof (cases "src = []")
    case True
    show ?thesis
      by (rule wroteI [where w = 0 and V' = V and bb' = bb and i' = i])
        (use True less.prems in \<open>auto simp: kfs_write_loop.simps grows_refl intro: yields_ret\<close>)
  next
    case False
    define o1 where "o1 = unat (offset f)"
    define off where "off = o1 mod 512"
    define c where "c = min (512 - off) (length src)"
    define l where "l = o1 div 512"
    have offu: "unat (offset f mod 512) = off" by (simp add: off_def o1_def unat_mod)
    have off: "off < 512" by (simp add: off_def)
    have c: "0 < c" "c \<le> length src" "off + c \<le> 512" using off False by (auto simp: c_def)
    have o2: "unat (offset f + of_nat c) = o1 + c"
      using le u32_bound [of "i_size i"] c(3) by (simp add: o1_def unat_word_ariths unat_of_nat)
    have lb: "unat (ucast (offset f div 512) :: u32) = l"
      using offset_block [OF le] by (simp add: l_def o1_def)
    have loop: "kfs_write_loop i f src tw dirty =
      seqK (kfs_map_or_alloc_block i (ucast (offset f div 512)) dirty) (\<lambda>(err, phys, inode1, dirty1).
           if err < 0 then stop_write err inode1 f tw dirty1
           else seqK (if 0 < off \<or> c < KFS_BLOCK_SIZE then read_blk (ucast phys) 1
                      else retK (0, replicate KFS_BLOCK_SIZE 0)) (\<lambda>(err, blk_buf).
           if err < 0 then stop_write err inode1 f tw dirty1
           else seqK (write_blk (ucast phys) (patch blk_buf off (take c src))) (\<lambda>err.
           if err < 0 then stop_write err inode1 f tw dirty1
           else if offset f + of_nat c > ucast (i_size inode1)
           then kfs_write_loop (inode1\<lparr>i_size := ucast (offset f + of_nat c)\<rparr>)
                  (f\<lparr>offset := offset f + of_nat c\<rparr>) (drop c src) (tw + c) True
           else kfs_write_loop inode1
                  (f\<lparr>offset := offset f + of_nat c\<rparr>) (drop c src) (tw + c) dirty1)))"
      using False by (subst kfs_write_loop.simps) (simp only: Let_def offu c_def if_False)
    from yields_map_or_alloc [OF less.prems(1-3), of "ucast (offset f div 512)" dirty]
    obtain err p i1 dirty1 V1 bb1 s1 where
      mp: "kfs_map_or_alloc_block i (ucast (offset f div 512)) dirty s = Inr (Inr (err, p, i1, dirty1), s1)"
      and k1: "kst S V1 bb1 ib s1" and g1: "grows S nsec ib (if err < 0 then {} else {l}) V bb i V1 bb1 i1"
      and d1: "dirty \<longrightarrow> dirty1" "\<not> dirty1 \<longrightarrow> i1 = i"
      and r: "err < 0 \<and> (full S bb1 \<or> 138 \<le> l) \<or> err = 0 \<and> l < 138 \<and> p = bmap V1 i1 l \<and> p \<noteq> 0
          \<and> (bmap V i l \<noteq> 0 \<longrightarrow> p = bmap V i l \<and> V1 (unat p) = V (unat p))"
      unfolding mapped_def yields_def lb by blast
    have m1: "meta_ok S nsec V1 bb1 ib" and fo1: "file_ok S bb1 V1 i1" and sz1: "i_size i1 = i_size i"
      using g1 by (auto simp: grows_def) (metis kfs_inode.select_convs(1) kfs_inode.surjective kfs_inode.update_convs(3,4))
    show ?thesis
    proof (cases "err < 0")
      case True
      have "kfs_write_loop i f src tw dirty s = stop_write err i1 f tw dirty1 s1"
        unfolding loop seqK_step [where m = "kfs_map_or_alloc_block i (ucast (offset f div 512)) dirty", OF mp] using True by simp
      then have y: "yields (kfs_write_loop i f src tw dirty) s (Inr (if 0 < tw then None else Some err, i1, f, tw, dirty1))
          (kst S V1 bb1 ib)"
        using k1 by (simp add: yields_def stop_write_def retK_def)
      have old: "grows S nsec ib {} V bb i V1 bb1 i"
      proof (rule grows_old)
        have "file_ok S bb V i" "length (V1 (unat (indirect i))) = 512 \<or> indirect i = 0"
          using fo indirect_data(1) [OF m fo] data_block_bounds(4) [OF m1] by auto
        then show "length (slots V1 i) = 139" by (auto simp: slots_def file_ok_def inode_wf_def)
      qed (use g1 True fo file_ok_length [OF m fo] in \<open>auto simp: file_ok_def\<close>)
      show ?thesis
        by (rule wrote_stop [OF _ dn le False d1 True _ old y]) (use g1 r True in \<open>auto simp: l_def o1_def\<close>)
    next
      case noerr: False
      then have r': "err = 0" "l < 138" "p = bmap V1 i1 l" "p \<noteq> 0"
        "bmap V i l \<noteq> 0 \<Longrightarrow> p = bmap V i l \<and> V1 (unat p) = V (unat p)" using r by auto
      have gl: "grows S nsec ib {l} V bb i V1 bb1 i1" using g1 noerr by simp
      have P: "data_block S p" using bmap_data_block(1) [OF m1 fo1 r'(2)] r'(3,4) by simp
      note B1 = data_block_bounds [OF m1 P]
      obtain B s2 where rd: "(if 0 < off \<or> c < KFS_BLOCK_SIZE then read_blk (ucast p) 1
          else retK (0, replicate KFS_BLOCK_SIZE 0)) s1 = Inr (Inr (0, B), s2)"
        and k2: "kst S V1 bb1 ib s2" and lB: "length B = 512" and B: "c < 512 \<Longrightarrow> B = V1 (unat p)"
      proof (cases "0 < off \<or> c < 512")
        case True
        from yields_read_blk [OF k1, of "ucast p"] B1(2) True that B1(4) show thesis
          by (auto simp: yields_def)
      next
        case False
        then show thesis using that [of "replicate 512 0" s1] k1 by (simp add: retK_def)
      qed
      define nb where "nb = patch B off (take c src)"
      have lnb: "length nb = 512" using c lB by (simp add: nb_def)
      from yields_write_blk [OF k2, of "ucast p" nb] B1(2) lnb obtain s3 where
        wr: "write_blk (ucast p) nb s2 = Inr (Inr 0, s3)" and k3: "kst S (V1(unat p := nb)) bb1 ib s3"
        by (auto simp: yields_def)
      define V2 where "V2 = V1(unat p := nb)"
      note G2 = grows_write [OF m1 fo1 r'(2) _ lnb, folded r'(3), OF r'(4), folded V2_def]
      have g: "grows S nsec ib {l} V bb i V2 bb1 i1" using grows_trans [OF gl G2(1)] by simp
      define sz' where "sz' = (if offset f + of_nat c > ucast (i_size i) then ucast (offset f + of_nat c) else i_size i)"
      define dirty2 where "dirty2 = (dirty1 \<or> offset f + of_nat c > ucast (i_size i))"
      have szu: "unat sz' = max (unat (i_size i)) (o1 + c)"
      proof -
        have "o1 + c < 2 ^ 32" using le dn c(3) by (simp add: o1_def dense_def)
        then have "unat (ucast (offset f + of_nat c) :: u32) = o1 + c"
          by (simp add: unsigned_ucast_eq o2 take_bit_nat_eq_self_iff)
        then show ?thesis by (simp add: sz'_def word_less_nat_alt o2 max_def)
      qed
      have hyp: "o1 \<le> unat (i_size i)" "l = o1 div 512" "l < 138" "0 < length (take c src)"
        "o1 mod 512 + length (take c src) \<le> 512" "bmap V2 i1 l \<noteq> 0"
        "V2 (unat (bmap V2 i1 l)) = patch B (o1 mod 512) (take c src)" "length B = 512"
        using le r'(2,4) c lB G2(2) r'(3) by (simp_all add: o1_def l_def off_def [unfolded o1_def] V2_def nb_def)
      have B': "B = V (unat (bmap V i l))" if "bmap V i l \<noteq> 0" "length (take c src) < 512"
        using B r'(5) [OF that(1)] that(2) c(2) by auto
      have "unat sz' = max (unat (i_size i)) (o1 + length (take c src))" using szu c(2) by simp
      note bytes = write_block_bytes [OF g dn hyp B' this]
      have step: "kfs_write_loop i f src tw dirty s
          = kfs_write_loop (i1\<lparr>i_size := sz'\<rparr>) (f\<lparr>offset := offset f + of_nat c\<rparr>) (drop c src) (tw + c) dirty2 s3"
        unfolding loop seqK_step [where m = "kfs_map_or_alloc_block i (ucast (offset f div 512)) dirty", OF mp] using r'(1)
        by (simp add: seqK_step [where m = "if 0 < off \<or> c < KFS_BLOCK_SIZE then read_blk (ucast p) 1
          else retK (0, replicate KFS_BLOCK_SIZE 0)", OF rd] seqK_step [where m = "write_blk (ucast p) (patch B off (take c src))", OF wr [unfolded nb_def]]
          sz'_def dirty2_def sz1 [symmetric] split del: if_split)
          (cases "ucast (i_size i1) < offset f + of_nat c", simp_all add: sz1 [symmetric])
      have rest: "wrote S ib V2 bb1 (i1\<lparr>i_size := sz'\<rparr>) (f\<lparr>offset := offset f + of_nat c\<rparr>) (drop c src) (tw + c) dirty2 s3
          (kfs_write_loop (i1\<lparr>i_size := sz'\<rparr>) (f\<lparr>offset := offset f + of_nat c\<rparr>) (drop c src) (tw + c) dirty2)"
        by (rule less.hyps) (use c False k3 G2(1) bytes(2) szu o2 in \<open>auto simp: V2_def [symmetric] grows_def\<close>)
      show ?thesis
      proof (rule wrote_step [OF _ bytes(2) _ c(1,2) le _ _ _ rest])
        show "grows S nsec ib UNIV V bb i V2 bb1 (i1\<lparr>i_size := sz'\<rparr>\<lparr>i_size := i_size i\<rparr>)"
          using grows_UNIV [OF g] by (simp add: sz1 [symmetric])
        show "fdata V2 (i1\<lparr>i_size := sz'\<rparr>) = patch (fdata V i) (unat (offset f)) (take c src)"
          using bytes(1) by (simp add: o1_def)
        show "unat (offset f + of_nat c) = unat (offset f) + c" using o2 by (simp add: o1_def)
        show "dirty \<longrightarrow> dirty2" using d1 by (simp add: dirty2_def)
        show "\<not> dirty2 \<longrightarrow> i1\<lparr>i_size := sz'\<rparr> = i" using d1 by (auto simp: dirty2_def sz'_def)
        show "yields (kfs_write_loop (i1\<lparr>i_size := sz'\<rparr>) (f\<lparr>offset := offset f + of_nat c\<rparr>) (drop c src) (tw + c) dirty2) s3 r Q
            \<Longrightarrow> yields (kfs_write_loop i f src tw dirty) s r Q" for r Q
          by (simp add: yields_def step)
      qed
    qed
  qed
qed

end

end
