(* ===== verification/KFS_Invariant.thy ===== *)
theory KFS_Invariant
  imports KFS_Write
begin

unbundle bit_operations_syntax

text \<open>
  The file system as a whole: an invariant over all inodes in use, and that it and the other files are
  kept when one file grows, when an inode is taken or given back and when a block is given back.
\<close>

section \<open>The whole file system\<close>

definition inode_used :: "kfs_superblock \<Rightarrow> u8 list \<Rightarrow> nat \<Rightarrow> bool" where
  "inode_used S ib a \<longleftrightarrow> a < unat (inode_count S) \<and> bm_test ib a"

text \<open>
  The invariant: metadata in place and in step with memory, every inode in use a well-formed file,
  and no block in two files.
\<close>

definition fs_ok :: "kfs_superblock \<Rightarrow> nat \<Rightarrow> (nat \<Rightarrow> u8 list) \<Rightarrow> u8 list \<Rightarrow> u8 list \<Rightarrow> bool" where
  "fs_ok S n V bb ib \<longleftrightarrow> meta_ok S n V bb ib
     \<and> (\<forall>a. inode_used S ib a \<longrightarrow> file_ok S bb V (inodeV S V a))
     \<and> (\<forall>a b. inode_used S ib a \<longrightarrow> inode_used S ib b \<longrightarrow> a \<noteq> b
          \<longrightarrow> owned V (inodeV S V a) \<inter> owned V (inodeV S V b) = {})"

text \<open>A file of the system as a client sees it: its inode and its bytes.\<close>

definition file_at :: "kfs_superblock \<Rightarrow> (nat \<Rightarrow> u8 list) \<Rightarrow> nat \<Rightarrow> kfs_inode \<Rightarrow> u8 list \<Rightarrow> bool" where
  "file_at S V a i data \<longleftrightarrow> inodeV S V a = i \<and> dense V i \<and> fdata V i = data"

text \<open>Files depend only on the blocks they own.\<close>

lemma slots_owned_cong:
  assumes "\<And>q. q \<in> owned V i \<Longrightarrow> V' q = V q"
  shows "slots V' i = slots V i"
proof (cases "indirect i = 0")
  case True
  then show ?thesis by (simp add: slots_def)
next
  case False
  then have "unat (indirect i) \<in> owned V i" by (auto simp: owned_def slots_def)
  then show ?thesis using assms by (intro slots_cong) blast
qed

lemma file_owned_cong:
  assumes "\<And>q. q \<in> owned V i \<Longrightarrow> V' q = V q"
  shows "owned V' i = owned V i" and "bmap V' i = bmap V i" and "file_ok S bb V' i = file_ok S bb V i"
  using slots_owned_cong [OF assms] by (simp_all add: owned_def bmap_def fun_eq_iff file_ok_def)

lemma fdata_owned_cong:
  assumes "\<And>q. q \<in> owned V i \<Longrightarrow> V' q = V q" and "dense V i" and "length (slots V i) = 139"
  shows "fdata V' i = fdata V i" and "dense V' i"
proof -
  note C = file_owned_cong [OF assms(1)]
  have "fbyte V' i x = fbyte V i x" if "x < unat (i_size i)" for x
  proof -
    have "512 * (x div 512) < unat (i_size i)" using that by (rule le_less_trans [rotated]) simp
    then have l: "x div 512 < 138" "bmap V i (x div 512) \<noteq> 0" using assms(2) by (auto simp: dense_def)
    have "slots V i ! slot_of (x div 512) \<in> set (slots V i)" using slot_of_less(1) [OF l(1)] assms(3) by simp
    then have "unat (bmap V i (x div 512)) \<in> owned V i" using l(2) by (auto simp: owned_def bmap_def)
    then show ?thesis using assms(1) C(2) by (simp add: fbyte_def)
  qed
  then show "fdata V' i = fdata V i" by (simp add: fdata_def)
  show "dense V' i" using assms(2) C(2) by (simp add: dense_def)
qed

lemma file_ok_mono:
  assumes "file_ok S bb V i" and "\<And>b. b < unat (total_blocks S) \<Longrightarrow> bm_test bb b \<Longrightarrow> bm_test bb' b"
  shows "file_ok S bb' V i"
  using assms by (auto simp: file_ok_def data_block_def word_less_nat_alt)

text \<open>
  A step that touches at most the inode \<open>x\<close> and no block or inode of another file in use keeps the
  invariant and the other files.
\<close>

lemma fs_ok_frame:
  assumes ok: "fs_ok S n V bb ib" and m: "meta_ok S n V2 bb2 ib2"
    and keep: "\<And>b. inode_used S ib2 b \<Longrightarrow> b \<noteq> x \<Longrightarrow> inode_used S ib b \<and> inodeV S V2 b = inodeV S V b"
    and data: "\<And>b q. inode_used S ib2 b \<Longrightarrow> b \<noteq> x \<Longrightarrow> q \<in> owned V (inodeV S V b) \<Longrightarrow> V2 q = V q \<and> bm_test bb2 q"
    and new: "inode_used S ib2 x \<Longrightarrow> file_ok S bb2 V2 (inodeV S V2 x)"
      "\<And>b. inode_used S ib2 x \<Longrightarrow> inode_used S ib2 b \<Longrightarrow> b \<noteq> x \<Longrightarrow> owned V2 (inodeV S V2 x) \<inter> owned V (inodeV S V b) = {}"
  shows "fs_ok S n V2 bb2 ib2"
    and "\<And>b i d. inode_used S ib2 b \<Longrightarrow> b \<noteq> x \<Longrightarrow> file_at S V b i d \<Longrightarrow> file_at S V2 b i d"
proof -
  have mV: "meta_ok S n V bb ib" using ok by (simp add: fs_ok_def)
  have fb: "file_ok S bb V (inodeV S V b)" if "inode_used S ib2 b" "b \<noteq> x" for b
    using ok keep [OF that] by (simp add: fs_ok_def)
  have same: "V2 q = V q" if "inode_used S ib2 b" "b \<noteq> x" "q \<in> owned V (inodeV S V b)" for b q using data that by blast
  have files: "file_ok S bb2 V2 (inodeV S V2 b)" if "inode_used S ib2 b" for b
  proof (cases "b = x")
    case False
    have "file_ok S bb2 V (inodeV S V b)"
      using fb [OF that False] data [OF that False] by (auto simp: file_ok_def owned_def)
    then show ?thesis using file_owned_cong(3) [OF same [OF that False]] keep [OF that False] by simp
  qed (use new that in simp)
  have ow: "owned V2 (inodeV S V2 b) = owned V (inodeV S V b)" if "inode_used S ib2 b" "b \<noteq> x" for b
    using file_owned_cong(1) [OF same [OF that]] keep [OF that] by simp
  have "owned V2 (inodeV S V2 b) \<inter> owned V2 (inodeV S V2 c) = {}"
    if "inode_used S ib2 b" "inode_used S ib2 c" "b \<noteq> c" for b c
  proof (cases "b = x \<or> c = x")
    case True
    then show ?thesis using that new(2) ow by (metis Int_commute)
  next
    case False
    then show ?thesis using that ow ok keep by (simp add: fs_ok_def)
  qed
  then show "fs_ok S n V2 bb2 ib2" unfolding fs_ok_def using m files by simp
  show "file_at S V2 b i d" if b: "inode_used S ib2 b" "b \<noteq> x" "file_at S V b i d" for b i d
  proof -
    from b(3) have "dense V (inodeV S V b)" by (simp add: file_at_def)
    from fdata_owned_cong [OF same [OF b(1,2)] this file_ok_length [OF mV fb [OF b(1,2)]]] b(3) keep [OF b(1,2)]
    show ?thesis by (simp add: file_at_def)
  qed
qed

text \<open>
  Steps that grew file \<open>a\<close> and then stored its inode, or had no need to: the invariant is kept and no
  other file sees a difference.
\<close>

lemma fs_ok_update:
  assumes ok: "fs_ok S n V bb ib" and a: "inode_used S ib a"
    and g: "grows S n ib L V bb (inodeV S V a) V1 bb1 i1"
    and i': "direct i' = direct i1" "indirect i' = indirect i1" "inode_wf i'"
    and m2: "meta_ok S n V2 bb1 ib" and V2: "\<And>q. in_data S q \<Longrightarrow> V2 q = V1 q" and i2: "inodeV S V2 a = i'"
    and tab: "\<And>b. b \<noteq> a \<Longrightarrow> b < unat (inode_count S) \<Longrightarrow> inodeV S V2 b = inodeV S V b"
  shows "fs_ok S n V2 bb1 ib" and "dense V1 i' \<Longrightarrow> file_at S V2 a i' (fdata V1 i')"
    and "\<And>b i data. inode_used S ib b \<Longrightarrow> b \<noteq> a \<Longrightarrow> file_at S V b i data \<Longrightarrow> file_at S V2 b i data"
proof -
  let ?i = "inodeV S V a"
  have sl: "slots V i' = slots V i1" for V using i' by (simp add: slots_def)
  have m1: "meta_ok S n V1 bb1 ib" and f1: "file_ok S bb1 V1 i'"
    and bits: "\<And>b. b < unat (total_blocks S) \<Longrightarrow> bm_test bb b \<Longrightarrow> bm_test bb1 b"
    and own: "owned V1 i' \<subseteq> owned V ?i \<union> {b. in_data S b \<and> \<not> bm_test bb b}"
    and foreign: "\<And>q. in_data S q \<Longrightarrow> bm_test bb q \<Longrightarrow> q \<notin> owned V ?i \<Longrightarrow> V1 q = V q"
    using g i'(3) by (auto simp: grows_def file_ok_def owned_def sl)
  have same: "V2 q = V1 q" if "q \<in> owned V1 i'" for q
    using owned_in_data(1) [OF f1 that] by (rule V2)
  have fb: "file_ok S bb V (inodeV S V b)" if "inode_used S ib b" for b using ok that by (simp add: fs_ok_def)
  have dj: "owned V ?i \<inter> owned V (inodeV S V b) = {}" if "inode_used S ib b" "b \<noteq> a" for b
    using ok a that by (auto simp: fs_ok_def)
  have keep: "V2 q = V q \<and> bm_test bb1 q" if "inode_used S ib b" "b \<noteq> a" "q \<in> owned V (inodeV S V b)" for b q
    using owned_in_data [OF fb [OF that(1)] that(3)] dj [OF that(1,2)] that(3) foreign V2 bits by (auto simp: in_data_def)
  have new: "owned V2 (inodeV S V2 a) \<inter> owned V (inodeV S V b) = {}" if "inode_used S ib b" "b \<noteq> a" for b
    using own dj [OF that] owned_in_data(2) [OF fb [OF that(1)]] file_owned_cong(1) [OF same] by (auto simp: i2)
  have fa: "file_ok S bb1 V2 (inodeV S V2 a)" using i2 f1 file_owned_cong(3) [OF same] by simp
  have ti: "inodeV S V2 b = inodeV S V b" if "inode_used S ib b" "b \<noteq> a" for b
    using tab that by (simp add: inode_used_def)
  show "fs_ok S n V2 bb1 ib"
    by (rule fs_ok_frame(1) [OF ok m2, where x = a]) (simp_all add: ti keep fa new)
  show "file_at S V2 b i data" if "inode_used S ib b" "b \<noteq> a" "file_at S V b i data" for b i data
    by (rule fs_ok_frame(2) [OF ok m2, where x = a]) (simp_all add: ti keep fa new that)
  show "file_at S V2 a i' (fdata V1 i')" if "dense V1 i'"
    using fdata_owned_cong [OF same that file_ok_length [OF m1 f1]] i2 by (simp add: file_at_def)
qed

lemma put_inode_facts:
  assumes "meta_ok S n V bb ib" and "a < unat (inode_count S)" and "inode_wf i"
  shows "meta_ok S n (put_inode S a i V) bb ib" and "in_data S q \<Longrightarrow> put_inode S a i V q = V q"
    and "inodeV S (put_inode S a i V) a = i"
    and "b \<noteq> a \<Longrightarrow> inodeV S (put_inode S a i V) b = inodeV S V b"
proof -
  have L: "layout S n" and len: "\<And>k. k < n \<Longrightarrow> length (V k) = 512" using assms(1) by (auto simp: meta_ok_def)
  have t: "table_sector S a < unat (data_blocks_start S)" using table_below_data(1) [OF L assms(2)] .
  then have tn: "table_sector S a < n" using L unfolding layout_def by linarith
  show "meta_ok S n (put_inode S a i V) bb ib" by (rule meta_ok_put_inode [OF assms])
  show "put_inode S a i V q = V q" if "in_data S q"
    using t that unfolding in_data_def by (intro put_inode_other) linarith
  show "inodeV S (put_inode S a i V) a = i" by (rule inodeV_put_same) (use len tn assms in auto)
  show "inodeV S (put_inode S a i V) b = inodeV S V b" if "b \<noteq> a"
    by (rule inodeV_put_other) (use len tn assms that in auto)
qed

section \<open>Changing the inode and block bitmaps\<close>

lemma put_ib_facts:
  assumes "meta_ok S n V bb ib" and "x < unat (inode_count S)" and "ib' = bm_set ib x \<or> ib' = bm_clear ib x"
  shows "meta_ok S n (put_bitmap (unat (inode_bitmap_start S)) ib' x V) bb ib'"
    and "in_data S q \<Longrightarrow> put_bitmap (unat (inode_bitmap_start S)) ib' x V q = V q"
    and "b < unat (inode_count S) \<Longrightarrow> inodeV S (put_bitmap (unat (inode_bitmap_start S)) ib' x V) b = inodeV S V b"
    and "inode_used S (bm_set ib x) b \<longleftrightarrow> b = x \<or> inode_used S ib b"
    and "inode_used S (bm_clear ib x) b \<longleftrightarrow> b \<noteq> x \<and> inode_used S ib b"
proof -
  have L: "layout S n" and len: "length ib = 512 * unat (inode_bitmap_blks S)" using assms(1) by (auto simp: meta_ok_def)
  have lt: "unat (inode_bitmap_start S) + x div 4096 < unat (inode_table_start S)"
    using L assms(2) unfolding layout_def by linarith
  show "meta_ok S n (put_bitmap (unat (inode_bitmap_start S)) ib' x V) bb ib'"
    using assms by (intro meta_ok_put_ib [where ib = ib]) (auto simp: bm_set_nth bm_clear_nth)
  show "put_bitmap (unat (inode_bitmap_start S)) ib' x V q = V q" if "in_data S q"
    using lt L that unfolding put_bitmap_def in_data_def layout_def by auto
  show "inodeV S (put_bitmap (unat (inode_bitmap_start S)) ib' x V) b = inodeV S V b" if "b < unat (inode_count S)"
    using lt table_below_data(2) [OF L that] by (intro inodeV_cong) (auto simp: put_bitmap_def)
  have "unat (inode_count S) \<le> 8 * length ib" using L len unfolding layout_def by simp
  then show "inode_used S (bm_set ib x) b \<longleftrightarrow> b = x \<or> inode_used S ib b"
    "inode_used S (bm_clear ib x) b \<longleftrightarrow> b \<noteq> x \<and> inode_used S ib b"
    using assms(2) by (auto simp: inode_used_def bitmap_simps)
qed

lemma free_view_facts:
  assumes "meta_ok S n V bb ib" and "in_data S j"
  shows "meta_ok S n (free_view S bb j V) (bm_clear bb j) ib" and "in_data S q \<Longrightarrow> free_view S bb j V q = V q"
    and "b < unat (inode_count S) \<Longrightarrow> inodeV S (free_view S bb j V) b = inodeV S V b"
    and "in_data S q \<Longrightarrow> bm_test (bm_clear bb j) q \<longleftrightarrow> q \<noteq> j \<and> bm_test bb q"
proof -
  have L: "layout S n" and len: "length bb = 512 * unat (block_bitmap_blks S)" using assms(1) by (auto simp: meta_ok_def)
  have j: "j < unat (total_blocks S)" "unat (data_blocks_start S) \<le> j" using assms(2) by (simp_all add: in_data_def)
  have lt: "unat (block_bitmap_start S) + j div 4096 < unat (inode_bitmap_start S)"
    using L j unfolding layout_def by linarith
  show "meta_ok S n (free_view S bb j V) (bm_clear bb j) ib"
    using assms(1) j unfolding free_view_def by (intro meta_ok_put_bb [where bb = bb]) (auto simp: bm_clear_nth)
  show "free_view S bb j V q = V q" if "in_data S q"
    using lt L that unfolding free_view_def put_bitmap_def in_data_def layout_def by auto
  show "inodeV S (free_view S bb j V) b = inodeV S V b" if "b < unat (inode_count S)"
    using lt L table_below_data(2) [OF L that] unfolding layout_def free_view_def
    by (intro inodeV_cong) (auto simp: put_bitmap_def)
  have "unat (total_blocks S) \<le> 8 * length bb" using L len unfolding layout_def by simp
  then show "bm_test (bm_clear bb j) q \<longleftrightarrow> q \<noteq> j \<and> bm_test bb q" if "in_data S q"
    using j that by (simp add: bitmap_simps in_data_def)
qed

text \<open>Files other than those in \<open>X\<close> keep their inodes and contents.\<close>

definition kept_files :: "kfs_superblock \<Rightarrow> u8 list \<Rightarrow> nat set \<Rightarrow> (nat \<Rightarrow> u8 list) \<Rightarrow> (nat \<Rightarrow> u8 list) \<Rightarrow> bool" where
  "kept_files S ib X V V' \<longleftrightarrow>
     (\<forall>b i d. inode_used S ib b \<longrightarrow> b \<notin> X \<longrightarrow> file_at S V b i d \<longrightarrow> file_at S V' b i d)"

lemma kept_filesD: "kept_files S ib X V V' \<Longrightarrow> inode_used S ib b \<Longrightarrow> b \<notin> X \<Longrightarrow> file_at S V b i d \<Longrightarrow> file_at S V' b i d"
  by (simp add: kept_files_def)

lemma kept_files_trans:
  assumes "kept_files S ib X V V1" and "kept_files S ib' Y V1 V2" and "\<And>b. inode_used S ib b \<Longrightarrow> inode_used S ib' b \<or> b \<in> Z"
    and "X \<subseteq> Z" and "\<And>b. inode_used S ib b \<Longrightarrow> b \<in> Y \<Longrightarrow> b \<in> Z"
  shows "kept_files S ib Z V V2"
  using assms unfolding kept_files_def by blast

lemma new_inode_ok:
  assumes ok: "fs_ok S n V bb ib" and x: "x < unat (inode_count S)" "\<not> inode_used S ib x"
    and i: "inode_wf i" "set (direct i) \<subseteq> {0}" "indirect i = 0" "i_size i = 0"
  defines "V1 \<equiv> put_inode S x i (put_bitmap (unat (inode_bitmap_start S)) (bm_set ib x) x V)"
  shows "fs_ok S n V1 bb (bm_set ib x)" and "file_at S V1 x i []" and "kept_files S ib {} V V1"
proof -
  have m: "meta_ok S n V bb ib" using ok by (simp add: fs_ok_def)
  note B = put_ib_facts [OF m x(1), of "bm_set ib x"]
  note P = put_inode_facts [OF B(1) x(1) i(1)]
  have sl: "set (slots W i) \<subseteq> {0}" for W using i by (auto simp: slots_def)
  have ow: "owned W i = {}" for W using sl [of W] by (auto simp: owned_def)
  have m1: "meta_ok S n V1 bb (bm_set ib x)" unfolding V1_def by (rule P(1)) simp
  have tab: "inodeV S V1 b = inodeV S V b" "inode_used S ib b" if "inode_used S (bm_set ib x) b" "b \<noteq> x" for b
    using P(4) B(3,4) that by (auto simp: V1_def inode_used_def)
  have ix: "inodeV S V1 x = i" using P(3) by (simp add: V1_def)
  have same: "V1 q = V q" "bm_test bb q" if "inode_used S ib b" "q \<in> owned V (inodeV S V b)" for b q
  proof -
    have "file_ok S bb V (inodeV S V b)" using ok that by (simp add: fs_ok_def)
    from owned_in_data [OF this that(2)] show "V1 q = V q" "bm_test bb q" using P(2) B(2) by (simp_all add: V1_def)
  qed
  have fo: "file_ok S bb V1 i"
  proof -
    have "length (slots V1 i) = 139" using i(1,3) by (simp add: slots_def inode_wf_def)
    then have "slots V1 i ! k = 0" if "k < 139" for k using sl [of V1] that by (metis nth_mem singletonD subsetD)
    then show ?thesis using i(1) sl [of V1] by (auto simp: file_ok_def)
  qed
  show "fs_ok S n V1 bb (bm_set ib x)" by (rule fs_ok_frame(1) [OF ok m1, where x = x])
    (auto simp: ix ow tab fo intro: same [OF tab(2)])
  have "file_at S V1 b j d" if "inode_used S ib b" "file_at S V b j d" for b j d
    by (rule fs_ok_frame(2) [OF ok m1, where x = x]) (use that x(2) in \<open>auto simp: B ix ow tab fo intro: same [OF tab(2)]\<close>)
  then show "kept_files S ib {} V V1" by (simp add: kept_files_def)
  show "file_at S V1 x i []" using ix i(4) by (simp add: file_at_def dense_def fdata_def)
qed

text \<open>Giving back an inode, and possibly blocks of its file.\<close>

lemma drop_file_ok:
  assumes ok: "fs_ok S n V bb ib" and x: "x < unat (inode_count S)" and m1: "meta_ok S n V1 bb1 (bm_clear ib x)"
    and tab: "\<And>b. inode_used S ib b \<Longrightarrow> b \<noteq> x \<Longrightarrow> inodeV S V1 b = inodeV S V b"
    and data: "\<And>q. in_data S q \<Longrightarrow> bm_test bb q \<Longrightarrow> inode_used S ib x \<longrightarrow> q \<notin> owned V (inodeV S V x)
      \<Longrightarrow> V1 q = V q \<and> bm_test bb1 q"
  shows "fs_ok S n V1 bb1 (bm_clear ib x)" and "kept_files S ib {x} V V1"
proof -
  have m: "meta_ok S n V bb ib" using ok by (simp add: fs_ok_def)
  note B = put_ib_facts(5) [OF m x, of "bm_clear ib x"]
  have keep: "V1 q = V q" "bm_test bb1 q" if "inode_used S ib b" "b \<noteq> x" "q \<in> owned V (inodeV S V b)" for b q
  proof -
    have "file_ok S bb V (inodeV S V b)" "inode_used S ib x \<longrightarrow> q \<notin> owned V (inodeV S V x)"
      using ok that by (auto simp: fs_ok_def)
    then show "V1 q = V q" "bm_test bb1 q" using data owned_in_data that(3) by blast+
  qed
  show "fs_ok S n V1 bb1 (bm_clear ib x)"
    by (rule fs_ok_frame(1) [OF ok m1, where x = x]) (use B in \<open>auto simp: tab intro: keep\<close>)
  have "file_at S V1 b j d" if "inode_used S ib b" "b \<noteq> x" "file_at S V b j d" for b j d
    by (rule fs_ok_frame(2) [OF ok m1, where x = x]) (use B that in \<open>auto simp: tab intro: keep\<close>)
  then show "kept_files S ib {x} V V1" by (simp add: kept_files_def)
qed

lemma drop_inode_ok:
  assumes ok: "fs_ok S n V bb ib" and x: "x < unat (inode_count S)"
  defines "V1 \<equiv> put_bitmap (unat (inode_bitmap_start S)) (bm_clear ib x) x V"
  shows "fs_ok S n V1 bb (bm_clear ib x)" and "kept_files S ib {x} V V1"
proof -
  have m: "meta_ok S n V bb ib" using ok by (simp add: fs_ok_def)
  note B = put_ib_facts [OF m x, of "bm_clear ib x", folded V1_def]
  have m1: "meta_ok S n V1 bb (bm_clear ib x)" by (rule B(1)) simp
  show "fs_ok S n V1 bb (bm_clear ib x)" "kept_files S ib {x} V V1"
    by (rule drop_file_ok [OF ok x m1]; use B(2,3) in \<open>auto simp: inode_used_def\<close>)+
qed

end
