(* ===== verification/KFS_Correct.thy ===== *)
theory KFS_Correct
  imports KFS_Invariant
begin

unbundle bit_operations_syntax

text \<open>What reading and writing one file means for its contents and for every other file.\<close>

section \<open>Reading and writing files\<close>

lemma inode_used_u32:
  assumes "inode_used S ib (unat ino)"
  shows "ino < inode_count S" and "bm_test ib (unat ino)"
  using assms by (simp_all add: inode_used_def word_less_nat_alt)

text \<open>What writing \<open>buf\<close> at \<open>off\<close> of file \<open>a\<close> does to the whole system, given the returned error, file and count.\<close>

definition wrote_file :: "kfs_superblock \<Rightarrow> nat \<Rightarrow> (nat \<Rightarrow> u8 list) \<Rightarrow> u8 list \<Rightarrow> nat \<Rightarrow> kfs_inode \<Rightarrow> u8 list
    \<Rightarrow> nat \<Rightarrow> u8 list \<Rightarrow> kfile \<Rightarrow> int \<times> kfile \<times> nat \<Rightarrow> (nat \<Rightarrow> u8 list) \<Rightarrow> u8 list \<Rightarrow> bool" where
  "wrote_file S n V ib a i data off buf f r V' bb' \<longleftrightarrow> (case r of (err, f', w) \<Rightarrow>
     fs_ok S n V' bb' ib
     \<and> kept_files S ib {a} V V'
     \<and> (\<exists>i'. i_type i' = i_type i \<and> link_count i' = link_count i
          \<and> file_at S V' a i' (patch data off (take w buf)))
     \<and> (err = 0 \<and> 0 < w \<and> w \<le> length buf \<and> f' = f\<lparr>offset := of_nat (off + w)\<rparr> \<or> err < 0 \<and> w = 0)
     \<and> (w < length buf \<longrightarrow> full S bb' \<or> off + w = MAX_FILE))"

context block_device
begin

lemma yields_vnode_read:
  assumes "kst S V bb ib s" and "fs_ok S nsec V bb ib" and "inode_used S ib (unat (ucast (fs_private vn) :: u32))"
    and "file_at S V (unat (ucast (fs_private vn) :: u32)) i data" and "unat (offset f) + unat count < 2 ^ 64"
  shows "yields (kfs_vnode_read vn f count) s
    (Inr (0, f\<lparr>offset := offset f + of_nat (length (slice (unat (offset f)) (unat count) data))\<rparr>,
       slice (unat (offset f)) (unat count) data)) (kst S V bb ib)"
proof -
  define ino where "ino = (ucast (fs_private vn) :: u32)"
  note U = inode_used_u32 [OF assms(3), folded ino_def]
  have m: "meta_ok S nsec V bb ib" and fo: "file_ok S bb V i" and dn: "dense V i" and fd: "fdata V i = data"
    and iV: "inodeV S V (unat ino) = i"
    using assms(2-4) by (auto simp: fs_ok_def file_at_def ino_def)
  have len: "length data = unat (i_size i)" using fd by auto
  have ri: "yields (kfs_read_inode ino) s (Inr i) (kst S V bb ib)"
    using yields_read_inode [OF assms(1) m U] iV by simp
  show ?thesis
  proof (cases "unat (i_size i) \<le> unat (offset f)")
    case True
    then have "yields (kfs_vnode_read vn f count) s (Inr (0, f, [])) (kst S V bb ib)"
      unfolding kfs_vnode_read_def ino_def [symmetric]
      by (intro yields_catch [OF ri]) (auto simp: word_le_nat_alt intro: yields_ret)
    moreover have "slice (unat (offset f)) (unat count) data = []" using True len by (simp add: slice_def)
    ultimately show ?thesis by simp
  next
    case False
    define n where "n = (if offset f + count > ucast (i_size i) then ucast (i_size i) - offset f else count)"
    have sum: "unat (offset f + count) = unat (offset f) + unat count" using assms(5) by (simp add: unat_word_ariths)
    have n: "unat n = min (unat count) (unat (i_size i) - unat (offset f))"
      using False sum by (auto simp: n_def word_less_nat_alt word_le_nat_alt unat_sub min_def)
    then have le: "unat (offset f) + unat n \<le> unat (i_size i)" using False by simp
    have sl: "slice (unat (offset f)) (unat n) data = slice (unat (offset f)) (unat count) data"
      using len n by (simp add: slice_def min_def)
    have "length (slice (unat (offset f)) (unat count) data) = unat n" using len n by simp
    then have on: "of_nat (length (slice (unat (offset f)) (unat count) data)) = n" by simp
    have "\<not> ucast (i_size i) \<le> offset f" using False by (simp add: word_le_nat_alt)
    then show ?thesis
      unfolding kfs_vnode_read_def ino_def [symmetric] on
      using yields_read_loop [OF _ m fo dn le, of _ "[]"]
      by (intro yields_catch [OF ri]) (simp add: n_def [symmetric] fd sl)
  qed
qed

lemma yields_vnode_write:
  defines "ino vn \<equiv> unat (ucast (fs_private vn) :: u32)"
  assumes "kst S V bb ib s" and ok: "fs_ok S nsec V bb ib" and used: "inode_used S ib (ino vn)"
    and at: "file_at S V (ino vn) i data" and fl: "flags f AND (O_WRONLY OR O_RDWR) \<noteq> 0" and buf: "buf \<noteq> []"
    and off: "off = (if flags f AND O_APPEND \<noteq> 0 then length data else unat (offset f))" "off \<le> length data"
  shows "\<exists>r V' bb'. yields (kfs_vnode_write vn f buf) s (Inr r) (kst S V' bb' ib)
    \<and> wrote_file S nsec V ib (ino vn) i data off buf f r V' bb'"
proof -
  define a where "a = ino vn"
  define x where "x = (ucast (fs_private vn) :: u32)"
  have ax: "unat x = a" by (simp add: a_def x_def ino_def)
  note U = inode_used_u32 [OF used [unfolded ino_def], folded x_def]
  have m: "meta_ok S nsec V bb ib" and fo: "file_ok S bb V i" and dn: "dense V i" and fd: "fdata V i = data"
    and iV: "inodeV S V a = i" and aused: "inode_used S ib a"
    using ok used at by (auto simp: fs_ok_def file_at_def a_def)
  have len: "length data = unat (i_size i)" using fd by auto
  define f1 where "f1 = (if flags f AND O_APPEND \<noteq> 0 then f\<lparr>offset := ucast (i_size i)\<rparr> else f)"
  have o1: "unat (offset f1) = off" "f1\<lparr>offset := z\<rparr> = f\<lparr>offset := z\<rparr>" for z
    using off len by (auto simp: f1_def)
  have ri: "yields (kfs_read_inode x) s (Inr i) (kst S V bb ib)"
    using yields_read_inode [OF assms(2) m U] iV ax by simp
  then obtain t where t: "kfs_read_inode x s = Inr (Inr i, t)" "kst S V bb ib t" by (auto simp: yields_def)
  have "wrote S ib V bb i f1 buf 0 False t (kfs_write_loop i f1 buf 0 False)"
    by (rule yields_write_loop [OF t(2) m fo dn]) (use o1 off len in simp)
  then obtain ret i1 w dirty V1 bb1 where
    r: "yields (kfs_write_loop i f1 buf 0 False) t (Inr (ret, i1, f1\<lparr>offset := offset f1 + of_nat w\<rparr>, w, dirty)) (kst S V1 bb1 ib)"
    and g: "grows S nsec ib UNIV V bb i V1 bb1 (i1\<lparr>i_size := i_size i\<rparr>)" and d1: "dense V1 i1"
    and fd1: "fdata V1 i1 = patch data off (take w buf)" and w: "w \<le> length buf" and nd: "\<not> dirty \<longrightarrow> i1 = i"
    and short: "w < length buf \<longrightarrow> full S bb1 \<or> off + w = MAX_FILE"
    and ret: "ret = None \<and> (w = length buf \<or> 0 < w)
      \<or> (\<exists>e < 0. ret = Some e) \<and> w = 0 \<and> w < length buf \<and> grows S nsec ib {} V bb i V1 bb1 i"
    unfolding wrote_def o1(1) fd add_0 by blast
  define f2 where "f2 = f\<lparr>offset := of_nat (off + w)\<rparr>"
  have f2: "f1\<lparr>offset := offset f1 + of_nat w\<rparr> = f2" using o1 by (simp add: f2_def) (metis of_nat_unat ucast_id)
  have start: "yields (kfs_vnode_write vn f buf) s r' Q"
    if "\<And>u. kst S V1 bb1 ib u \<Longrightarrow> yields (case ret of Some err \<Rightarrow> retK (err, f2, 0)
        | None \<Rightarrow> if dirty then catchK (kfs_write_inode x i1) (\<lambda>r. case r of
            Inl err \<Rightarrow> retK (err, f2, 0) | Inr _ \<Rightarrow> retK (0, f2, w)) else retK (0, f2, w)) u r' Q" for r' Q
  proof -
    have rt: "yields (kfs_read_inode x) s (Inr i) (\<lambda>u. u = t)" using t by (simp add: yields_def)
    have "yields (catchK (kfs_read_inode x) k) s r' Q" if "yields (k (Inr i)) t r' Q" for k
      by (rule yields_catch [OF rt]) (simp add: that)
    moreover have "yields (seqK (kfs_write_loop i f1 buf 0 False) k) t r' Q"
      if "\<And>u. kst S V1 bb1 ib u \<Longrightarrow> yields (k (ret, i1, f2, w, dirty)) u r' Q" for k
      by (rule yields_seq [OF r]) (simp add: f2 that)
    ultimately show ?thesis
      unfolding kfs_vnode_write_def x_def [symmetric] using fl buf that by (simp add: Let_def f1_def [symmetric])
  qed
  have wf: "inode_wf i" "inode_wf i1" using fo g by (auto simp: grows_def file_ok_def)
  have g': "grows S nsec ib UNIV V bb (inodeV S V a) V1 bb1 (i1\<lparr>i_size := i_size i\<rparr>)" using g iV by simp
  have m1: "meta_ok S nsec V1 bb1 ib" and tab: "\<And>b. b < unat (inode_count S) \<Longrightarrow> inodeV S V1 b = inodeV S V b"
    using g by (simp_all add: grows_def)
  have au: "a < unat (inode_count S)" using aused by (simp add: inode_used_def)
  have ty: "i_type i1 = i_type i" "link_count i1 = link_count i"
  proof -
    have "i1\<lparr>i_size := i_size i\<rparr> = i\<lparr>direct := direct i1, indirect := indirect i1\<rparr>" using g by (simp add: grows_def)
    then show "i_type i1 = i_type i" "link_count i1 = link_count i" by (cases i; cases i1; simp)+
  qed
  consider (err) e where "ret = Some e" "e < 0" "w = 0" "grows S nsec ib {} V bb i V1 bb1 i"
    | (store) "ret = None" "0 < w" dirty | (clean) "ret = None" "0 < w" "\<not> dirty"
    using ret buf by auto
  then show ?thesis
  proof cases
    case err
    have kept: "grows S nsec ib {} V bb (inodeV S V a) V1 bb1 i" using err(4) iV by simp
    have i1: "inodeV S V1 a = i" using tab [OF au] iV by simp
    note F = fs_ok_update [OF ok aused kept refl refl wf(1) m1 refl i1 tab]
    have "fdata V1 i = data" "dense V1 i" using fdata_kept [OF err(4)] dn fd by auto
    then have "wrote_file S nsec V ib a i data off buf f (e, f2, 0) V1 bb1"
      using F err short by (auto simp: wrote_file_def kept_files_def)
    then show ?thesis unfolding a_def [symmetric] using err by (intro exI conjI start) (auto intro: yields_ret)
  next
    case store
    note P = put_inode_facts [OF m1 au wf(2)]
    note F = fs_ok_update [OF ok aused g' _ _ wf(2) P(1-3)]
    have yw: "yields (kfs_write_inode x i1) u (Inr ()) (kst S (put_inode S a i1 V1) bb1 ib)" if "kst S V1 bb1 ib u" for u
      using yields_write_inode [OF that m1 U(1) wf(2)] ax by simp
    have "wrote_file S nsec V ib a i data off buf f (0, f2, w) (put_inode S a i1 V1) bb1"
      using F P(4) tab store w short d1 fd1 ty f2_def by (auto simp: wrote_file_def kept_files_def)
    then show ?thesis
      unfolding a_def [symmetric] using store
      by (intro exI conjI start) (auto intro!: yields_catch [OF yw] yields_ret)
  next
    case clean
    have i1: "inodeV S V1 a = i1" using tab [OF au] iV nd clean by simp
    note F = fs_ok_update [OF ok aused g' _ _ wf(2) m1 refl i1 tab]
    have "wrote_file S nsec V ib a i data off buf f (0, f2, w) V1 bb1"
      using F clean w short d1 fd1 ty f2_def by (auto simp: wrote_file_def kept_files_def)
    then show ?thesis unfolding a_def [symmetric] using clean by (intro exI conjI start) (auto intro: yields_ret)
  qed
qed

end

section \<open>A small image\<close>

text \<open>
  A medium of 12 sectors: superblock, block bitmap, inode bitmap, a table of 3 inodes and 8 data
  blocks. Inode 0 is the root directory with one entry for inode 1, an empty file named \<open>a\<close>.
\<close>

definition sample_sb :: kfs_superblock where
  "sample_sb = \<lparr>magic = KFS_MAGIC, total_blocks = 12, inode_count = 3, block_bitmap_start = 1, block_bitmap_blks = 1,
     inode_bitmap_start = 2, inode_bitmap_blks = 1, inode_table_start = 3, inode_table_blks = 1,
     data_blocks_start = 4, root_inode = 0\<rparr>"

definition sample_root :: kfs_inode where
  "sample_root = \<lparr>i_size = 12, i_type = KFS_TYPE_DIR, direct = 4 # replicate 9 0, indirect = 0, link_count = 2, pad = [0, 0]\<rparr>"

definition sample_file :: kfs_inode where
  "sample_file = \<lparr>i_size = 0, i_type = KFS_TYPE_FILE, direct = replicate 10 0, indirect = 0, link_count = 1, pad = [0, 0]\<rparr>"

definition sample_bb :: "u8 list" where "sample_bb = 31 # replicate 511 0"

definition sample_ib :: "u8 list" where "sample_ib = 3 # replicate 511 0"

definition sample_disk :: "nat \<Rightarrow> u8 list" where
  "sample_disk k =
     (if k = 1 then sample_bb else if k = 2 then sample_ib
      else if k = 3 then bytes_of_inode sample_root @ bytes_of_inode sample_file @ replicate 384 0
      else if k = 4 then dirent_bytes 1 12 1 (cstr ''a'') @ replicate 500 0
      else replicate 512 0)"

definition sample_kfs :: "(nat \<Rightarrow> u8 list) kfs" where
  "sample_kfs = \<lparr>sb = Some sample_sb, kfs_blk = \<lparr>blk_name = [], sector_count = 12, read_sectors = ram_read 12,
     write_sectors = ram_write 12, priv = sample_disk\<rparr>, block_bitmap = sample_bb, inode_bitmap = sample_ib,
     kmem = (\<lambda>_. True), kcalls = 0\<rparr>"

lemma length_dirent_bytes: "8 + length name \<le> reclen \<Longrightarrow> length (dirent_bytes ino reclen ty name) = reclen"
  by (simp add: dirent_bytes_def)

lemma sample_wf: "inode_wf sample_root" "inode_wf sample_file"
  by (simp_all add: inode_wf_def sample_root_def sample_file_def)

lemma sample_length: "length (sample_disk k) = 512"
  using length_dirent_bytes [of "cstr ''a''" 12] sample_wf
  by (simp add: sample_disk_def sample_bb_def sample_ib_def length_bytes_of_inode cstr_def)

lemma sample_mounted: "mounted_on (ram_read 12) (ram_write 12) id (ram_ready 12) sample_sb sample_disk sample_bb sample_ib sample_kfs"
  by (simp add: mounted_on_def sample_kfs_def ram_ready_def sample_length)

lemma sample_meta: "meta_ok sample_sb 12 sample_disk sample_bb sample_ib"
proof -
  have "synced 1 sample_bb sample_disk" "synced 2 sample_ib sample_disk"
    by (auto simp: synced_def sample_bb_def sample_ib_def sample_disk_def slice_def)
  then show ?thesis
    by (simp add: meta_ok_def layout_def sample_sb_def sample_length sample_bb_def sample_ib_def)
qed

lemma sample_inodes: "inodeV sample_sb sample_disk 0 = sample_root" "inodeV sample_sb sample_disk 1 = sample_file"
  using sample_wf [THEN inode_roundtrip] sample_wf [THEN length_bytes_of_inode]
  by (simp_all add: inodeV_def sample_disk_def sample_sb_def slice_def)

lemma sample_used: "inode_used sample_sb sample_ib a \<longleftrightarrow> a = 0 \<or> a = 1"
proof -
  have "a < 3 \<longleftrightarrow> a = 0 \<or> a = 1 \<or> a = 2" by linarith
  moreover have "bm_test sample_ib 0" "bm_test sample_ib 1" "\<not> bm_test sample_ib 2"
    by (simp_all add: bm_test_def sample_ib_def)
  ultimately show ?thesis by (auto simp: inode_used_def sample_sb_def)
qed

lemma sample_slots: "slots sample_disk sample_root = 4 # replicate 138 0" "slots sample_disk sample_file = replicate 139 0"
  by (simp_all add: slots_def sample_root_def sample_file_def numeral_eq_Suc)

lemma sample_ok: "fs_ok sample_sb 12 sample_disk sample_bb sample_ib"
proof -
  have "file_ok sample_sb sample_bb sample_disk sample_root"
    by (auto simp: file_ok_def inode_wf_def sample_slots nth_Cons' data_block_def bm_test_def sample_bb_def sample_sb_def)
      (auto simp: sample_root_def)
  moreover have "file_ok sample_sb sample_bb sample_disk sample_file"
    by (auto simp: file_ok_def inode_wf_def sample_slots) (auto simp: sample_file_def)
  ultimately show ?thesis
    using sample_meta sample_inodes
    by (auto simp: fs_ok_def sample_used owned_def sample_slots)
qed

lemma sample_file_at: "file_at sample_sb sample_disk 1 sample_file []"
  using sample_inodes by (simp add: file_at_def dense_def fdata_def sample_file_def)

section \<open>The contract of read and write\<close>

text \<open>
  C22. Reading a file of a mounted file system returns exactly the bytes of the file from the offset
  on, at most as many as were asked for, advances the offset by their number and changes neither the
  medium nor the bitmaps. (The sum of offset and count must not wrap around 64 bits.)
\<close>

theorem kfs_vnode_read_correct:
  assumes "block_device rd wr sectors n ready" and "mounted_on rd wr sectors ready S V bb ib s"
    and "fs_ok S n V bb ib" and "inode_used S ib (unat (ucast (fs_private vn) :: u32))"
    and "file_at S V (unat (ucast (fs_private vn) :: u32)) i data" and "unat (offset f) + unat count < 2 ^ 64"
  shows "\<exists>s'. kfs_vnode_read vn f count s
      = Inr (Inr (0, f\<lparr>offset := offset f + of_nat (length (slice (unat (offset f)) (unat count) data))\<rparr>,
          slice (unat (offset f)) (unat count) data), s')
    \<and> mounted_on rd wr sectors ready S V bb ib s'"
  using block_device.yields_vnode_read [OF assms] by (simp add: yields_def)

theorem kfs_vnode_read_correct_witness:
  "\<exists>s'. kfs_vnode_read \<lparr>ops = Some (), fs_private = 1, vtype = VNODE_TYPE_FILE\<rparr> \<lparr>offset = 0, flags = 0\<rparr> 100 sample_kfs
      = Inr (Inr (0, \<lparr>offset = 0, flags = 0\<rparr>, []), s')
    \<and> mounted_on (ram_read 12) (ram_write 12) id (ram_ready 12) sample_sb sample_disk sample_bb sample_ib s'"
  using kfs_vnode_read_correct [OF ram_block_device sample_mounted sample_ok,
    where vn = "\<lparr>ops = Some (), fs_private = 1, vtype = VNODE_TYPE_FILE\<rparr>" and i = sample_file and data = "[]"
      and f = "\<lparr>offset = 0, flags = 0\<rparr>" and count = 100] sample_file_at
  by (simp add: sample_used slice_def)

text \<open>
  C20. Writing to a file (from its offset, or from its end if it is open for appending) ends without a
  fault, keeps the invariant of the file system and leaves the contents and inodes of all other files
  as they were. The bytes written are a prefix of the buffer and replace exactly the addressed part of
  the file; it is shorter than the buffer only if no data block is free or the file has its maximal
  size, and if not even one byte could be written an error is returned and the file is unchanged.
\<close>

theorem kfs_vnode_write_correct:
  assumes "block_device rd wr sectors n ready" and "mounted_on rd wr sectors ready S V bb ib s"
    and "fs_ok S n V bb ib" and "inode_used S ib (unat (ucast (fs_private vn) :: u32))"
    and "file_at S V (unat (ucast (fs_private vn) :: u32)) i data"
    and "flags f AND (O_WRONLY OR O_RDWR) \<noteq> 0" and "buf \<noteq> []"
    and "off = (if flags f AND O_APPEND \<noteq> 0 then length data else unat (offset f))" and "off \<le> length data"
  shows "\<exists>r s' V' bb'. kfs_vnode_write vn f buf s = Inr (Inr r, s')
    \<and> mounted_on rd wr sectors ready S V' bb' ib s'
    \<and> wrote_file S n V ib (unat (ucast (fs_private vn) :: u32)) i data off buf f r V' bb'"
  using block_device.yields_vnode_write [OF assms] unfolding yields_def by blast

theorem kfs_vnode_write_correct_witness:
  "\<exists>r s' V' bb'. kfs_vnode_write \<lparr>ops = Some (), fs_private = 1, vtype = VNODE_TYPE_FILE\<rparr> \<lparr>offset = 0, flags = O_WRONLY\<rparr>
        [7, 8, 9] sample_kfs = Inr (Inr r, s')
    \<and> mounted_on (ram_read 12) (ram_write 12) id (ram_ready 12) sample_sb V' bb' sample_ib s'
    \<and> wrote_file sample_sb 12 sample_disk sample_ib 1 sample_file [] 0 [7, 8, 9] \<lparr>offset = 0, flags = O_WRONLY\<rparr> r V' bb'"
  using kfs_vnode_write_correct [OF ram_block_device sample_mounted sample_ok,
    where vn = "\<lparr>ops = Some (), fs_private = 1, vtype = VNODE_TYPE_FILE\<rparr>" and i = sample_file and data = "[]"
      and f = "\<lparr>offset = 0, flags = O_WRONLY\<rparr>" and buf = "[7, 8, 9]" and off = 0] sample_file_at
  by (simp add: sample_used)

text \<open>
  C21. What was written is what is read back: after a write that reports \<open>w\<close> bytes, reading \<open>w\<close> bytes
  from the place it wrote to returns the first \<open>w\<close> bytes of the buffer.
\<close>

theorem kfs_write_then_read:
  assumes "block_device rd wr sectors n ready" and "mounted_on rd wr sectors ready S V bb ib s"
    and "fs_ok S n V bb ib" and "inode_used S ib (unat (ucast (fs_private vn) :: u32))"
    and "file_at S V (unat (ucast (fs_private vn) :: u32)) i data"
    and "flags f AND (O_WRONLY OR O_RDWR) \<noteq> 0" and "buf \<noteq> []"
    and "off = (if flags f AND O_APPEND \<noteq> 0 then length data else unat (offset f))" and "off \<le> length data"
  shows "\<exists>err f' w s1. kfs_vnode_write vn f buf s = Inr (Inr (err, f', w), s1)
    \<and> (err < 0 \<and> w = 0 \<or> err = 0 \<and> 0 < w \<and> (\<exists>s2. kfs_vnode_read vn (f\<lparr>offset := of_nat off\<rparr>) (of_nat w) s1
          = Inr (Inr (0, f\<lparr>offset := of_nat (off + w)\<rparr>, take w buf), s2)))"
proof -
  define a where "a = unat (ucast (fs_private vn) :: u32)"
  from block_device.yields_vnode_write [OF assms] obtain err f' w s1 V1 bb1 where
    w: "kfs_vnode_write vn f buf s = Inr (Inr (err, f', w), s1)" "mounted_on rd wr sectors ready S V1 bb1 ib s1"
      "wrote_file S n V ib a i data off buf f (err, f', w) V1 bb1"
    unfolding yields_def a_def by fast
  then obtain i1 where i1: "fs_ok S n V1 bb1 ib" "file_at S V1 a i1 (patch data off (take w buf))" "w \<le> length buf"
      "err < 0 \<and> w = 0 \<or> err = 0 \<and> 0 < w"
    unfolding wrote_file_def by auto
  have len: "length (patch data off (take w buf)) = unat (i_size i1)" "dense V1 i1"
    using i1(2) length_fdata [of V1 i1] by (auto simp: file_at_def)
  then have "off + w \<le> MAX_FILE"
    using i1(3) assms(9) length_patch_ext [of off data "take w buf"] unfolding dense_def by (simp, linarith)
  then have u: "unat (of_nat off :: u64) = off" "unat (of_nat w :: u64) = w"
    by (simp_all add: unat_of_nat take_bit_nat_eq_self)
  have "slice off w (patch data off (take w buf)) = take w buf"
    using i1(3) assms(9) by (simp add: slice_def patch_def)
  then have "\<exists>s2. kfs_vnode_read vn (f\<lparr>offset := of_nat off\<rparr>) (of_nat w) s1
      = Inr (Inr (0, f\<lparr>offset := of_nat (off + w)\<rparr>, take w buf), s2)"
    using block_device.yields_vnode_read [OF assms(1) w(2) i1(1) assms(4) i1(2) [unfolded a_def],
        of "f\<lparr>offset := of_nat off\<rparr>" "of_nat w"] u \<open>off + w \<le> MAX_FILE\<close> i1(3)
    by (auto simp: yields_def)
  then show ?thesis using w(1) i1(4) by blast
qed

theorem kfs_write_then_read_witness:
  "\<exists>err f' w s1. kfs_vnode_write \<lparr>ops = Some (), fs_private = 1, vtype = VNODE_TYPE_FILE\<rparr>
        \<lparr>offset = 0, flags = O_WRONLY\<rparr> [7, 8, 9] sample_kfs = Inr (Inr (err, f', w), s1)
    \<and> (err < 0 \<and> w = 0 \<or> err = 0 \<and> 0 < w \<and> (\<exists>s2. kfs_vnode_read \<lparr>ops = Some (), fs_private = 1, vtype = VNODE_TYPE_FILE\<rparr>
          \<lparr>offset = 0, flags = O_WRONLY\<rparr> (of_nat w) s1
          = Inr (Inr (0, \<lparr>offset = of_nat w, flags = O_WRONLY\<rparr>, take w [7, 8, 9]), s2)))"
  using kfs_write_then_read [OF ram_block_device sample_mounted sample_ok,
    where vn = "\<lparr>ops = Some (), fs_private = 1, vtype = VNODE_TYPE_FILE\<rparr>" and i = sample_file and data = "[]"
      and f = "\<lparr>offset = 0, flags = O_WRONLY\<rparr>" and buf = "[7, 8, 9]" and off = 0] sample_file_at
  by (simp add: sample_used)

end
