(* ===== verification/KFS_Dir.thy ===== *)
theory KFS_Dir
  imports KFS_Correct
begin

unbundle bit_operations_syntax

text \<open>
  Directories as lists of entries: the search loop finds the first entry of a name, looking up returns
  its vnode, and creating appends an entry for a fresh inode or leaves everything as it was.
\<close>

section \<open>Directory records\<close>

text \<open>A directory as a list of entries: inode number, type and name; and its bytes.\<close>

type_synonym dent = "u32 \<times> u8 \<times> u8 list"

definition rec_bytes :: "dent \<Rightarrow> u8 list" where
  "rec_bytes = (\<lambda>(ino, ty, name). dirent_bytes ino (reclen_of name) ty name)"

definition dir_bytes :: "dent list \<Rightarrow> u8 list" where
  "dir_bytes es = concat (map rec_bytes es)"

definition dent_name :: "dent \<Rightarrow> u8 list" where
  "dent_name = (\<lambda>(ino, ty, name). name)"

definition name_ok :: "u8 list \<Rightarrow> bool" where
  "name_ok name \<longleftrightarrow> 0 \<notin> set name \<and> length name \<le> 255"

lemma dent_name_simp [simp]: "dent_name (ino, ty, name) = name"
  by (simp add: dent_name_def)

lemma dir_bytes_simps [simp]:
  "dir_bytes [] = []" "dir_bytes (e # es) = rec_bytes e @ dir_bytes es" "dir_bytes (es @ es') = dir_bytes es @ dir_bytes es'"
  by (simp_all add: dir_bytes_def)

lemma reclen_bounds:
  assumes "length name \<le> 255"
  shows "8 + length name \<le> reclen_of name" and "reclen_of name < 2 ^ 16" and "4 dvd reclen_of name"
    and "8 \<le> reclen_of name"
  using assms unfolding reclen_of_def by auto

lemma dirent_bytes_eq:
  assumes "8 + length name \<le> rl"
  shows "dirent_bytes ino rl ty name
    = bytes_of_u32 ino @ bytes_of_u16 (of_nat rl) @ [ty] @ name @ [0] @ replicate (rl - (8 + length name)) 0"
  using assms by (simp add: dirent_bytes_def patch_def)

lemma length_rec_bytes: "name_ok nm \<Longrightarrow> length (rec_bytes (ino, ty, nm)) = reclen_of nm"
  using reclen_bounds(1) [of nm] by (simp add: rec_bytes_def dirent_bytes_eq name_ok_def)

lemma cmp_name_zero:
  assumes "0 \<notin> set xs" and "0 \<notin> set name"
  shows "cmp_name (xs @ 0 # post) name = Some (xs = name)"
  using assms by (induction xs name rule: list_induct2') (auto split: if_splits)

text \<open>The record at its offset.\<close>

lemma record_at:
  fixes pre post :: "u8 list" and ino :: u32 and ty :: u8
  assumes "name_ok nm" and "0 \<notin> set name"
  defines "data \<equiv> pre @ rec_bytes (ino, ty, nm) @ post"
  shows "ent_reclen data (length pre) = Inr (of_nat (reclen_of nm))"
    and "ent_is data (length pre) name = Inr (nm = name)"
    and "ent_inode data (length pre) = ino" and "ent_type data (length pre) = ty"
proof -
  have l: "length nm \<le> 255" using assms(1) by (simp add: name_ok_def)
  note R = reclen_bounds [OF l]
  have b: "rec_bytes (ino, ty, nm) = bytes_of_u32 ino @ bytes_of_u16 (of_nat (reclen_of nm)) @ [ty] @ nm @ [0]
      @ replicate (reclen_of nm - (8 + length nm)) 0"
    using dirent_bytes_eq [OF R(1)] by (simp add: rec_bytes_def)
  show "ent_reclen data (length pre) = Inr (of_nat (reclen_of nm))"
    by (simp add: ent_reclen_def data_def b bytes_of_u32_def bytes_of_u16_def nth_append)
  show "ent_inode data (length pre) = ino"
    by (simp add: ent_inode_def data_def b bytes_of_u32_def nth_append)
  show "ent_type data (length pre) = ty"
    by (simp add: ent_type_def data_def b bytes_of_u32_def bytes_of_u16_def nth_append)
  show "ent_is data (length pre) name = Inr (nm = name)"
    using cmp_name_zero [of nm name] assms(1,2)
    by (simp add: ent_is_def data_def b name_ok_def)
qed

text \<open>The search over a whole directory.\<close>

lemma reclen_word:
  assumes "name_ok nm"
  shows "(of_nat (reclen_of nm) :: u16) \<noteq> 0" and "(of_nat (reclen_of nm) :: u16) mod 4 = 0"
    and "unat (of_nat (reclen_of nm) :: u16) = reclen_of nm"
proof -
  have l: "length nm \<le> 255" using assms by (simp add: name_ok_def)
  note R = reclen_bounds [OF l]
  show u: "unat (of_nat (reclen_of nm) :: u16) = reclen_of nm"
    using R(2) by (simp add: unat_of_nat take_bit_nat_eq_self)
  show "(of_nat (reclen_of nm) :: u16) \<noteq> 0" using u R(4) by (metis unat_0 not_numeral_le_zero)
  show "(of_nat (reclen_of nm) :: u16) mod 4 = 0"
    using u R(3) by (simp add: word_unat_eq_iff unat_mod)
qed

lemma find_dirent_dir:
  assumes "\<forall>e \<in> set (us @ es). name_ok (dent_name e)" and "0 \<notin> set name"
  shows "find_dirent (dir_bytes (us @ es)) name (length (dir_bytes us))
    = Inr (map_option (\<lambda>vs. length (dir_bytes (us @ vs)))
        (if name \<in> dent_name ` set es then Some (takeWhile (\<lambda>e. dent_name e \<noteq> name) es) else None))"
  using assms
proof (induction es arbitrary: us)
  case Nil
  then show ?case by (simp add: find_dirent.simps)
next
  case (Cons e es)
  obtain ino ty nm where e: "e = (ino, ty, nm)" by (cases e)
  have ok: "name_ok nm" using Cons.prems by (simp add: e)
  note R = record_at [OF ok Cons.prems(2), where pre = "dir_bytes us" and ino = ino and ty = ty and post = "dir_bytes es"]
  have "0 < length (rec_bytes e)" using length_rec_bytes [OF ok] ok reclen_bounds(4) [of nm] by (simp add: e name_ok_def)
  moreover have "find_dirent (dir_bytes ((us @ [e]) @ es)) name (length (dir_bytes (us @ [e])))
    = Inr (map_option (\<lambda>vs. length (dir_bytes ((us @ [e]) @ vs)))
        (if name \<in> dent_name ` set es then Some (takeWhile (\<lambda>e. dent_name e \<noteq> name) es) else None))"
    by (rule Cons.IH) (use Cons.prems in auto)
  ultimately show ?case
    using R reclen_word [OF ok] length_rec_bytes [OF ok] by (subst find_dirent.simps) (auto simp: e)
qed

lemma find_dirent_split:
  assumes "\<forall>e \<in> set es. name_ok (dent_name e)" and "0 \<notin> set name"
  shows "find (\<lambda>e. dent_name e = name) es = None \<Longrightarrow> find_dirent (dir_bytes es) name 0 = Inr None"
    and "find (\<lambda>e. dent_name e = name) es = Some (ino, ty, nm) \<Longrightarrow> \<exists>us vs. es = us @ (ino, ty, name) # vs
      \<and> name \<notin> dent_name ` set us \<and> find_dirent (dir_bytes es) name 0 = Inr (Some (length (dir_bytes us)))"
proof -
  note F = find_dirent_dir [of "[]" es, simplified, OF assms]
  show "find_dirent (dir_bytes es) name 0 = Inr None" if "find (\<lambda>e. dent_name e = name) es = None"
    using that F by (auto simp: find_None_iff)
  assume "find (\<lambda>e. dent_name e = name) es = Some (ino, ty, nm)"
  then obtain i where i: "i < length es" "dent_name (es ! i) = name" "(ino, ty, nm) = es ! i"
      "\<And>j. j < i \<Longrightarrow> dent_name (es ! j) \<noteq> name"
    by (auto simp: find_Some_iff)
  define us where "us = take i es"
  have es: "es = us @ (ino, ty, name) # drop (Suc i) es"
    using i(2,3) id_take_nth_drop [OF i(1)] by (cases "es ! i") (simp add: us_def)
  have us: "name \<notin> dent_name ` set us" using i by (fastforce simp: us_def in_set_conv_nth)
  have "takeWhile (\<lambda>e. dent_name e \<noteq> name) es = us"
    using us by (subst es, subst takeWhile_append2) auto
  moreover have "name \<in> dent_name ` set es" using nth_mem [OF i(1)] i(2) by blast
  ultimately show "\<exists>us vs. es = us @ (ino, ty, name) # vs
      \<and> name \<notin> dent_name ` set us \<and> find_dirent (dir_bytes es) name 0 = Inr (Some (length (dir_bytes us)))"
    using F es us by auto
qed

section \<open>Looking up a name\<close>

text \<open>A directory: a file of that type whose bytes are a list of entries.\<close>

definition dir_at :: "kfs_superblock \<Rightarrow> (nat \<Rightarrow> u8 list) \<Rightarrow> nat \<Rightarrow> dent list \<Rightarrow> bool" where
  "dir_at S V a es \<longleftrightarrow> (\<exists>i. file_at S V a i (dir_bytes es) \<and> i_type i = KFS_TYPE_DIR)
     \<and> (\<forall>e \<in> set es. name_ok (dent_name e))"

text \<open>The vnode of an entry.\<close>

definition dent_vnode :: "'k vnode \<Rightarrow> dent \<Rightarrow> 'k vnode" where
  "dent_vnode vn = (\<lambda>(ino, ty, name). \<lparr>ops = ops vn, fs_private = ucast ino,
     vtype = (if ucast ty = KFS_TYPE_DIR then VNODE_TYPE_DIR else VNODE_TYPE_FILE)\<rparr>)"

context block_device
begin

lemma yields_kmalloc: "kst S V bb ib s \<Longrightarrow> 0 < n \<Longrightarrow> yields (kmallocK n) s (Inr True) (kst S V bb ib)"
  by (auto simp: yields_def kmallocK_def mounted_on_def)

lemma yields_new_vnode:
  assumes "kst S V bb ib s"
  shows "yields (new_vnode vn p ty) s (Inr \<lparr>ops = ops vn, fs_private = p, vtype = ty\<rparr>) (kst S V bb ib)"
  unfolding new_vnode_def by (rule yields_seq [OF yields_kmalloc [OF assms]]) (auto intro: yields_ret)

lemma yields_read_dir:
  assumes "kst S V bb ib s" and "fs_ok S nsec V bb ib" and "inode_used S ib (unat (ucast (fs_private vn) :: u32))"
    and "file_at S V (unat (ucast (fs_private vn) :: u32)) i data" and "data \<noteq> []"
  shows "yields (read_dir vn i) s (Inr data) (kst S V bb ib)"
proof -
  have len: "length data = unat (i_size i)" using assms(4) by (auto simp: file_at_def)
  have pos: "0 < unat (i_size i)" using assms(5) len by (cases data) auto
  have "unat (i_size i) < 2 ^ 32" by (rule u32_bound)
  then have "yields (kfs_vnode_read vn \<lparr>offset = 0, flags = 0\<rparr> (ucast (i_size i))) t
      (Inr (0, \<lparr>offset = of_nat (length data), flags = 0\<rparr>, data)) (kst S V bb ib)" if "kst S V bb ib t" for t
    using yields_vnode_read [OF that assms(2-4), of "\<lparr>offset = 0, flags = 0\<rparr>" "ucast (i_size i)"] len
    by (simp add: slice_def)
  then show ?thesis
    unfolding read_dir_def using assms(1) pos
    by (intro yields_seq [OF yields_kmalloc]) (auto intro!: yields_seq yields_ret)
qed

lemma yields_lookup:
  fixes vn :: "'k vnode"
  assumes s: "kst S V bb ib s" and ok: "fs_ok S nsec V bb ib"
    and used: "inode_used S ib (unat (ucast (fs_private vn) :: u32))"
    and dir: "dir_at S V (unat (ucast (fs_private vn) :: u32)) es" and ne: "es \<noteq> []"
    and nm: "0 \<notin> set name" "name \<noteq> cstr ''.''" "name = cstr ''..'' \<Longrightarrow> ucast (fs_private vn) \<noteq> root_inode S"
  shows "yields (kfs_vnode_lookup vn name) s
    (case find (\<lambda>e. dent_name e = name) es of None \<Rightarrow> Inl (- ENOENT) | Some e \<Rightarrow> Inr (dent_vnode vn e)) (kst S V bb ib)"
proof -
  define ino where "ino = (ucast (fs_private vn) :: u32)"
  obtain i where i: "file_at S V (unat ino) i (dir_bytes es)" "i_type i = KFS_TYPE_DIR"
    and oks: "\<forall>e \<in> set es. name_ok (dent_name e)"
    using dir by (auto simp: dir_at_def ino_def)
  note U = inode_used_u32 [OF used, folded ino_def]
  have m: "meta_ok S nsec V bb ib" and iV: "inodeV S V (unat ino) = i" using ok i by (auto simp: fs_ok_def file_at_def)
  have ri: "yields (kfs_read_inode ino) s (Inr i) (kst S V bb ib)"
    using yields_read_inode [OF s m U] iV by simp
  have "rec_bytes e \<noteq> []" if "e \<in> set es" for e
  proof -
    obtain x y z where e: "e = (x, y, z)" by (cases e)
    then have "name_ok z" using oks that by fastforce
    then show ?thesis using length_rec_bytes [of z x y] reclen_bounds(4) [of z] by (auto simp: e name_ok_def)
  qed
  then have "dir_bytes es \<noteq> []" using ne by (cases es) auto
  then have rd: "yields (read_dir vn i) t (Inr (dir_bytes es)) (kst S V bb ib)" if "kst S V bb ib t" for t
    using yields_read_dir [OF that ok used] i(1) by (simp add: ino_def)
  define k :: "nat option \<Rightarrow> ('d, 'k vnode) kfs_op" where "k = (\<lambda>r. case r of None \<Rightarrow> failK (- ENOENT)
     | Some off \<Rightarrow> new_vnode vn (ucast (ent_inode (dir_bytes es) off))
         (if ucast (ent_type (dir_bytes es) off) = KFS_TYPE_DIR then VNODE_TYPE_DIR else VNODE_TYPE_FILE))"
  have "yields (seqK (liftK (find_dirent (dir_bytes es) name 0)) k) t
    (case find (\<lambda>e. dent_name e = name) es of None \<Rightarrow> Inl (- ENOENT) | Some e \<Rightarrow> Inr (dent_vnode vn e)) (kst S V bb ib)"
    if t: "kst S V bb ib t" for t
  proof (cases "find (\<lambda>e. dent_name e = name) es")
    case None
    then show ?thesis using find_dirent_split(1) [OF oks nm(1)] t by (auto simp: k_def)
  next
    case (Some e)
    obtain x y z where e: "e = (x, y, z)" by (cases e)
    from find_dirent_split(2) [OF oks nm(1) Some [unfolded e]] obtain us vs where
      v: "es = us @ (x, y, name) # vs" "find_dirent (dir_bytes es) name 0 = Inr (Some (length (dir_bytes us)))" by auto
    have "name_ok name" using v(1) oks by simp
    from record_at(3,4) [OF this nm(1), of "dir_bytes us" x y "dir_bytes vs"]
    have "ent_inode (dir_bytes es) (length (dir_bytes us)) = x" "ent_type (dir_bytes es) (length (dir_bytes us)) = y"
      by (simp_all add: v(1))
    then show ?thesis unfolding v(2) Some by (simp add: k_def e dent_vnode_def yields_new_vnode [OF t])
  qed
  then show ?thesis
    unfolding kfs_vnode_lookup_def ino_def [symmetric] using i(2) nm
    by (intro yields_seq [OF ri])
      (auto simp: k_def [symmetric] ino_def [symmetric] intro!: yields_sb yields_seq [OF rd])
qed

end

section \<open>Creating a file\<close>

text \<open>What a new inode starts with: an empty file, or a directory with its two entries.\<close>

definition new_object :: "kfs_superblock \<Rightarrow> (nat \<Rightarrow> u8 list) \<Rightarrow> u32 \<Rightarrow> u32 \<Rightarrow> u32 \<Rightarrow> bool" where
  "new_object S V x a ty \<longleftrightarrow>
     (if ty = KFS_TYPE_DIR then dir_at S V (unat x) [(x, 2, cstr ''.''), (a, 2, cstr ''..'')]
      else (\<exists>i. file_at S V (unat x) i [] \<and> i_type i = ty))"

text \<open>Creating \<open>name\<close> in the directory \<open>a\<close> with entries \<open>es\<close>.\<close>

definition created :: "kfs_superblock \<Rightarrow> nat \<Rightarrow> (nat \<Rightarrow> u8 list) \<Rightarrow> u8 list \<Rightarrow> 'k vnode \<Rightarrow> dent list \<Rightarrow> u8 list \<Rightarrow> u32
    \<Rightarrow> int + 'k vnode \<Rightarrow> (nat \<Rightarrow> u8 list) \<Rightarrow> u8 list \<Rightarrow> u8 list \<Rightarrow> bool" where
  "created S n V ib vn es name ty r V' bb' ib' \<longleftrightarrow>
     (let a = ucast (fs_private vn) :: u32
      in fs_ok S n V' bb' ib' \<and> kept_files S ib {unat a} V V'
       \<and> (case r of
            Inl err \<Rightarrow> err < 0 \<and> inode_used S ib' = inode_used S ib \<and> dir_at S V' (unat a) es
          | Inr v \<Rightarrow> (\<exists>x. \<not> inode_used S ib (unat x)
              \<and> inode_used S ib' = (\<lambda>b. b = unat x \<or> inode_used S ib b)
              \<and> v = dent_vnode vn (x, ucast ty, name) \<and> new_object S V' x a ty
              \<and> (dir_at S V' (unat a) (es @ [(x, ucast ty, name)])
                 \<or> (\<exists>w i. w < reclen_of name \<and> file_at S V' (unat a) i (dir_bytes es @ take w (rec_bytes (x, ucast ty, name)))
                      \<and> (full S bb' \<or> length (dir_bytes es) + w = MAX_FILE))))))"

lemma fdata_one_block:
  assumes "unat (i_size i) \<le> 512" and "length (V (unat (bmap V i 0))) = 512"
  shows "fdata V i = take (unat (i_size i)) (V (unat (bmap V i 0)))"
  using assms by (intro nth_equalityI) (simp_all add: nth_fdata fbyte_def)

definition dir_inode :: "u32 \<Rightarrow> kfs_inode" where
  "dir_inode p = zero_inode\<lparr>i_type := KFS_TYPE_DIR, i_size := 24, direct := (replicate 10 0)[0 := p], link_count := 2\<rparr>"

lemma new_dir_block_bytes:
  shows "take 24 (new_dir_block x a) = dir_bytes [(x, 2, cstr ''.''), (a, 2, cstr ''..'')]"
    and "length (new_dir_block x a) = 512"
proof -
  have n: "name_ok (cstr ''.'')" "name_ok (cstr ''..'')" "reclen_of (cstr ''.'') = 12" "reclen_of (cstr ''..'') = 12"
    by (simp_all add: name_ok_def cstr_def reclen_of_def)
  have r: "dirent_bytes x 12 2 (cstr ''.'') = rec_bytes (x, 2, cstr ''.'')" "dirent_bytes a 12 2 (cstr ''..'') = rec_bytes (a, 2, cstr ''..'')"
    using n by (simp_all add: rec_bytes_def)
  have l: "length (rec_bytes (x, 2, cstr ''.'')) = 12" "length (rec_bytes (a, 2, cstr ''..'')) = 12"
    using length_rec_bytes n by simp_all
  show "take 24 (new_dir_block x a) = dir_bytes [(x, 2, cstr ''.''), (a, 2, cstr ''..'')]"
    "length (new_dir_block x a) = 512"
    using l by (simp_all add: new_dir_block_def r patch_def)
qed

lemma new_dir_ok:
  fixes a :: u32
  assumes ok: "fs_ok S n V bb ib" and used: "inode_used S ib (unat x)"
    and at: "file_at S V (unat x) (zero_inode\<lparr>i_type := KFS_TYPE_DIR, link_count := 1\<rparr>) []"
    and j: "in_data S j" "\<not> bm_test bb j"
  defines "V2 \<equiv> (alloc_view S bb j V)(j := new_dir_block x a)"
  shows "meta_ok S n V2 (bm_set bb j) ib"
    and "fs_ok S n (put_inode S (unat x) (dir_inode (of_nat j)) V2) (bm_set bb j) ib"
    and "kept_files S ib {unat x} V (put_inode S (unat x) (dir_inode (of_nat j)) V2)"
    and "dir_at S (put_inode S (unat x) (dir_inode (of_nat j)) V2) (unat x) [(x, 2, cstr ''.''), (a, 2, cstr ''..'')]"
proof -
  let ?i3 = "dir_inode (of_nat j)" and ?V1 = "alloc_view S bb j V"
  define i0 where "i0 = zero_inode\<lparr>i_type := KFS_TYPE_DIR, link_count := 1\<rparr>"
  define i1 where "i1 = i0\<lparr>direct := (direct i0)[0 := of_nat j]\<rparr>"
  have m: "meta_ok S n V bb ib" and iV: "inodeV S V (unat x) = i0" using ok at by (auto simp: fs_ok_def file_at_def i0_def)
  then have fo: "file_ok S bb V i0" using ok used by (metis fs_ok_def)
  have d0: "direct i0 ! 0 = 0" "0 < (10 :: nat)" "0 < (138 :: nat)" by (simp_all add: i0_def zero_inode_def)
  note G1 = grows_direct [OF m fo j d0(2,1), folded i1_def]
  have m1: "meta_ok S n ?V1 (bm_set bb j) ib" and f1: "file_ok S (bm_set bb j) ?V1 i1" using G1(1) by (auto simp: grows_def)
  note uj = unat_of_nat_in_data [OF j(1)] and db = data_block_bounds [OF m1 data_block_of_nat [OF j(1)]]
  have b1: "bmap ?V1 i1 0 \<noteq> 0" using G1(2) db(5) by simp
  note G2 = grows_write [OF m1 f1 d0(3) b1 new_dir_block_bytes(2) [of x a], unfolded G1(2) uj, folded V2_def]
  have "grows S n ib ({0} \<union> {0}) V bb i0 V2 (bm_set bb j) i1" by (rule grows_trans [OF G1(1) G2(1)])
  then have g: "grows S n ib {0} V bb (inodeV S V (unat x)) V2 (bm_set bb j) i1" using iV by simp
  then show m2: "meta_ok S n V2 (bm_set bb j) ib" by (simp add: grows_def)
  have i3: "direct ?i3 = direct i1" "indirect ?i3 = indirect i1" "inode_wf ?i3"
    by (simp_all add: dir_inode_def zero_inode_def inode_wf_def i0_def i1_def)
  have xc: "unat x < unat (inode_count S)" using used by (simp add: inode_used_def)
  note P = put_inode_facts [OF m2 xc i3(3)]
  have tab: "inodeV S (put_inode S (unat x) ?i3 V2) b = inodeV S V b" if "b \<noteq> unat x" "b < unat (inode_count S)" for b
    using P(4) [OF that(1)] g that(2) by (simp add: grows_def)
  note U = fs_ok_update [OF ok used g i3 P(1) P(2) P(3) tab]
  show "fs_ok S n (put_inode S (unat x) ?i3 V2) (bm_set bb j) ib" by (rule U(1))
  show "kept_files S ib {unat x} V (put_inode S (unat x) ?i3 V2)" using U(3) by (auto simp: kept_files_def)
  have "slots W ?i3 = slots W i1" for W by (simp add: slots_def i3(1,2))
  then have bm: "bmap V2 ?i3 0 = of_nat j" using fun_cong [OF G2(2), of 0] G1(2) by (simp add: bmap_def)
  then have bl: "V2 (unat (bmap V2 ?i3 0)) = new_dir_block x a" using uj by (simp add: V2_def)
  have sz: "i_size ?i3 = 24" by (simp add: dir_inode_def)
  have "bmap V2 ?i3 l \<noteq> 0" if "512 * l < 24" for l
  proof -
    have "l = 0" using that by linarith
    then show ?thesis using bm db(5) by simp
  qed
  then have "dense V2 ?i3" by (simp add: dense_def sz)
  moreover have "fdata V2 ?i3 = dir_bytes [(x, 2, cstr ''.''), (a, 2, cstr ''..'')]"
    using fdata_one_block [of ?i3 V2] bl new_dir_block_bytes by (simp add: sz)
  ultimately show "dir_at S (put_inode S (unat x) ?i3 V2) (unat x) [(x, 2, cstr ''.''), (a, 2, cstr ''..'')]"
    using U(2) by (auto simp: dir_at_def dir_inode_def name_ok_def cstr_def intro!: exI [of _ ?i3])
qed

lemma dir_at_kept:
  assumes "kept_files S ib X V V'" and "dir_at S V a es" and "inode_used S ib a" and "a \<notin> X"
  shows "dir_at S V' a es"
  using assms unfolding dir_at_def kept_files_def by blast

lemma new_object_kept:
  assumes "kept_files S ib X V V'" and "new_object S V x a ty" and "inode_used S ib (unat x)" and "unat x \<notin> X"
  shows "new_object S V' x a ty"
  using assms dir_at_kept [OF assms(1)] kept_filesD [OF assms(1)] unfolding new_object_def by metis

context block_device
begin

lemma alloc_inode_cases:
  assumes "fs_ok S nsec V bb ib"
  obtains (full) "\<And>s. kst S V bb ib s \<Longrightarrow> yields (kfs_alloc_inode ty) s (Inl (- ENOSPC)) (kst S V bb ib)"
  | (new) x V1 ib1 where "\<not> inode_used S ib (unat x)" "0 < x" "x < inode_count S"
      "inode_used S ib1 = (\<lambda>b. b = unat x \<or> inode_used S ib b)"
      "fs_ok S nsec V1 bb ib1" "file_at S V1 (unat x) (zero_inode\<lparr>i_type := ty, link_count := 1\<rparr>) []"
      "kept_files S ib {} V V1"
      "\<And>s. kst S V bb ib s \<Longrightarrow> yields (kfs_alloc_inode ty) s (Inr x) (kst S V1 bb ib1)"
proof -
  have m: "meta_ok S nsec V bb ib" using assms by (simp add: fs_ok_def)
  show thesis
  proof (cases "find (\<lambda>j. \<not> bm_test ib j) [1 ..< unat (inode_count S)]")
    case None
    then show thesis using full yields_alloc_inode [OF _ m, of _ ty] by simp
  next
    case (Some j)
    then have j: "1 \<le> j" "j < unat (inode_count S)" "\<not> bm_test ib j"
      by (auto simp: find_Some_iff nth_upt less_diff_conv)
    then have uj: "unat (of_nat j :: u32) = j"
      using u32_bound [of "inode_count S"] by (simp add: unat_of_nat take_bit_nat_eq_self)
    let ?i = "zero_inode\<lparr>i_type := ty, link_count := 1\<rparr>"
    have i: "inode_wf ?i" "set (direct ?i) \<subseteq> {0}" "indirect ?i = 0" "i_size ?i = 0"
      by (auto simp: zero_inode_def inode_wf_def)
    have un: "\<not> inode_used S ib j" using j by (simp add: inode_used_def)
    note N = new_inode_ok [OF assms j(2) un i]
    show thesis
    proof (rule new)
      show "inode_used S (bm_set ib j) = (\<lambda>b. b = unat (of_nat j :: u32) \<or> inode_used S ib b)"
        using put_ib_facts(4) [OF m j(2), of "bm_set ib j"] uj by (simp add: fun_eq_iff)
    qed (use N un j uj yields_alloc_inode [OF _ m, of _ ty] Some in
        \<open>auto simp: word_less_nat_alt\<close>)
  qed
qed

text \<open>Giving back an inode.\<close>

lemma yields_drop_inode:
  assumes "fs_ok S nsec V bb ib" and "0 < x" and "x < inode_count S"
  obtains V1 ib1 where "fs_ok S nsec V1 bb ib1" "inode_used S ib1 = (\<lambda>b. b \<noteq> unat x \<and> inode_used S ib b)"
    "kept_files S ib {unat x} V V1"
    "\<And>s. kst S V bb ib s \<Longrightarrow> yields (kfs_free_inode x) s (Inr ()) (kst S V1 bb ib1)"
proof -
  have m: "meta_ok S nsec V bb ib" using assms(1) by (simp add: fs_ok_def)
  have x: "unat x < unat (inode_count S)" using assms(3) by (simp add: word_less_nat_alt)
  show thesis
  proof (rule that [OF drop_inode_ok(1) [OF assms(1) x]])
    show "inode_used S (bm_clear ib (unat x)) = (\<lambda>b. b \<noteq> unat x \<and> inode_used S ib b)"
      using put_ib_facts(5) [OF m x, of "bm_set ib (unat x)"] by (simp add: fun_eq_iff)
  qed (use drop_inode_ok(2) [OF assms(1) x] yields_free_inode [OF _ m assms(2,3)] in auto)
qed

text \<open>The block of a new directory.\<close>

lemma make_dir_cases:
  assumes ok: "fs_ok S nsec V bb ib" and used: "inode_used S ib (unat x)" and x: "0 < x" "x < inode_count S"
    and at: "file_at S V (unat x) (zero_inode\<lparr>i_type := KFS_TYPE_DIR, link_count := 1\<rparr>) []"
  obtains (full) V1 ib1 where "fs_ok S nsec V1 bb ib1" "inode_used S ib1 = (\<lambda>b. b \<noteq> unat x \<and> inode_used S ib b)"
      "kept_files S ib {unat x} V V1"
      "\<And>s. kst S V bb ib s \<Longrightarrow> yields (make_dir x a) s (Inl (- ENOSPC)) (kst S V1 bb ib1)"
  | (made) V1 bb1 where "fs_ok S nsec V1 bb1 ib" "kept_files S ib {unat x} V V1"
      "dir_at S V1 (unat x) [(x, 2, cstr ''.''), (a, 2, cstr ''..'')]"
      "\<And>s. kst S V bb ib s \<Longrightarrow> yields (make_dir x a) s (Inr ()) (kst S V1 bb1 ib)"
proof -
  have m: "meta_ok S nsec V bb ib" using ok by (simp add: fs_ok_def)
  show thesis
    using m
  proof (cases rule: alloc_block_cases)
    case full
    obtain V1 ib1 where v: "fs_ok S nsec V1 bb ib1" "inode_used S ib1 = (\<lambda>b. b \<noteq> unat x \<and> inode_used S ib b)"
        "kept_files S ib {unat x} V V1"
        "\<And>s. kst S V bb ib s \<Longrightarrow> yields (kfs_free_inode x) s (Inr ()) (kst S V1 bb ib1)"
      using yields_drop_inode [OF ok x] by blast
    show thesis
    proof (rule that(1) [OF v(1-3)])
      show "yields (make_dir x a) s (Inl (- ENOSPC)) (kst S V1 bb ib1)" if "kst S V bb ib s" for s
        unfolding make_dir_def
        by (rule yields_catch [OF full(2) [OF that]]) (auto intro!: yields_seq yields_ignore v(4))
    qed
  next
    case (block j)
    note D = new_dir_ok [OF ok used at block(1,2), of a]
    note uj = unat_of_nat_in_data [OF block(1)] and db = data_block_bounds [OF m data_block_of_nat [OF block(1)]]
    show thesis
    proof (rule that(2) [OF D(2-4)])
      show "yields (make_dir x a) s (Inr ())
        (kst S (put_inode S (unat x) (dir_inode (of_nat j)) ((alloc_view S bb j V)(j := new_dir_block x a))) (bm_set bb j) ib)"
        if "kst S V bb ib s" for s
      proof -
        have "yields (seqK (writeK (ucast (of_nat j :: u32)) (new_dir_block x a)) (\<lambda>_. kfs_write_inode x (dir_inode (of_nat j)))) t
            (Inr ()) (kst S (put_inode S (unat x) (dir_inode (of_nat j)) ((alloc_view S bb j V)(j := new_dir_block x a))) (bm_set bb j) ib)"
          if t: "kst S (alloc_view S bb j V) (bm_set bb j) ib t" for t
        proof (rule yields_seq)
          show "yields (writeK (ucast (of_nat j :: u32)) (new_dir_block x a)) t (Inr ())
            (kst S ((alloc_view S bb j V)(j := new_dir_block x a)) (bm_set bb j) ib)"
            using yields_write [OF t, of "ucast (of_nat j :: u32)" "new_dir_block x a"] db(2) uj new_dir_block_bytes(2) by simp
        qed (use yields_write_inode D(1) x(2) in \<open>auto simp: dir_inode_def zero_inode_def inode_wf_def\<close>)
        then show ?thesis
          unfolding make_dir_def dir_inode_def [symmetric]
          by (intro yields_catch [OF block(3) [OF that]]) (auto intro!: yields_catch yields_ret)
      qed
    qed
  qed
qed

text \<open>Undoing a creation.\<close>

lemma undo_create_yields:
  assumes ok: "fs_ok S nsec V bb ib" and used: "inode_used S ib (unat x)" and x: "0 < x" "x < inode_count S"
  shows "\<exists>V1 bb1 ib1. fs_ok S nsec V1 bb1 ib1 \<and> inode_used S ib1 = (\<lambda>b. b \<noteq> unat x \<and> inode_used S ib b)
    \<and> kept_files S ib {unat x} V V1
    \<and> (\<forall>s. kst S V bb ib s \<longrightarrow> yields (undo_create ty x err) s (Inl err) (kst S V1 bb1 ib1))"
proof -
  have m: "meta_ok S nsec V bb ib" using ok by (simp add: fs_ok_def)
  have xc: "unat x < unat (inode_count S)" and xb: "bm_test ib (unat x)" using used by (simp_all add: inode_used_def)
  define i where "i = inodeV S V (unat x)"
  have fo: "file_ok S bb V i" using ok used by (simp add: fs_ok_def i_def)
  note used' = put_ib_facts(5) [OF m xc, of "bm_set ib (unat x)"]
  show ?thesis
  proof (cases "ty = KFS_TYPE_DIR \<and> direct i ! 0 \<noteq> 0")
    case False
    obtain V1 ib1 where v: "fs_ok S nsec V1 bb ib1" "inode_used S ib1 = (\<lambda>b. b \<noteq> unat x \<and> inode_used S ib b)"
        "kept_files S ib {unat x} V V1"
        "\<And>s. kst S V bb ib s \<Longrightarrow> yields (kfs_free_inode x) s (Inr ()) (kst S V1 bb ib1)"
      using yields_drop_inode [OF ok x] by blast
    have "yields (undo_create ty x err) s (Inl err) (kst S V1 bb ib1)" if "kst S V bb ib s" for s
      unfolding undo_create_def
      by (rule yields_seq [where P = "kst S V bb ib"])
        (use False that in \<open>auto intro!: yields_catch [OF yields_read_inode [OF that m x(2) xb, folded i_def]] yields_ret
           yields_seq [OF yields_ignore [OF v(4)]]\<close>)
    then show ?thesis using v(1-3) by blast
  next
    case True
    define p where "p = direct i ! 0"
    have wf: "inode_wf i" using fo by (simp add: file_ok_def)
    have "slots V i ! 0 = p" "length (slots V i) = 139"
      using slots_direct [OF wf] file_ok_length [OF m fo] by (simp_all add: p_def)
    then have "p \<in> set (slots V i)" using nth_mem [of 0 "slots V i"] by simp
    then have db: "data_block S p" and own: "unat p \<in> owned V i" using fo True by (auto simp: file_ok_def p_def owned_def)
    have pd: "in_data S (unat p)" using db by (rule data_block_in_data)
    note F = free_view_facts [OF m pd]
    let ?V1 = "put_bitmap (unat (inode_bitmap_start S)) (bm_clear ib (unat x)) (unat x) (free_view S bb (unat p) V)"
    note B = put_ib_facts [OF F(1) xc, of "bm_clear ib (unat x)"]
    have m1: "meta_ok S nsec ?V1 (bm_clear bb (unat p)) (bm_clear ib (unat x))" by (rule B(1)) simp
    have "inodeV S ?V1 b = inodeV S V b" if "inode_used S ib b" for b
      using B(3) F(3) that by (simp add: inode_used_def)
    moreover have "?V1 q = V q \<and> bm_test (bm_clear bb (unat p)) q" if "in_data S q" "bm_test bb q" "q \<noteq> unat p" for q
      using B(2) F(2,4) that by simp
    ultimately have D: "fs_ok S nsec ?V1 (bm_clear bb (unat p)) (bm_clear ib (unat x))" "kept_files S ib {unat x} V ?V1"
      using own used by (auto intro!: drop_file_ok [OF ok xc m1] simp: i_def)
    have "yields (undo_create ty x err) s (Inl err) (kst S ?V1 (bm_clear bb (unat p)) (bm_clear ib (unat x)))"
      if "kst S V bb ib s" for s
      unfolding undo_create_def
      by (rule yields_seq [where P = "kst S (free_view S bb (unat p) V) (bm_clear bb (unat p)) ib"])
        (use True db in \<open>auto intro!: yields_catch [OF yields_read_inode [OF that m x(2) xb, folded i_def]]
           yields_ignore [OF yields_free_block [OF _ m]] yields_seq [OF yields_ignore [OF yields_free_inode [OF _ F(1) x]]]
           simp: p_def [symmetric] data_block_def\<close>)
    then show ?thesis using D used' by (intro exI conjI) (auto simp: fun_eq_iff)
  qed
qed

text \<open>The entry of the new inode is appended, or the inode is given back.\<close>

definition appended :: "kfs_superblock \<Rightarrow> (nat \<Rightarrow> u8 list) \<Rightarrow> u8 list \<Rightarrow> 'k vnode \<Rightarrow> dent list \<Rightarrow> u8 list \<Rightarrow> u32 \<Rightarrow> u32
    \<Rightarrow> int + 'k vnode \<Rightarrow> (nat \<Rightarrow> u8 list) \<Rightarrow> u8 list \<Rightarrow> u8 list \<Rightarrow> bool" where
  "appended S V ib vn es name ty x r V' bb' ib' \<longleftrightarrow>
     (let a = ucast (fs_private vn) :: u32
      in fs_ok S nsec V' bb' ib' \<and> kept_files S ib {unat a, unat x} V V'
       \<and> (case r of
            Inl err \<Rightarrow> err < 0 \<and> inode_used S ib' = (\<lambda>b. b \<noteq> unat x \<and> inode_used S ib b) \<and> dir_at S V' (unat a) es
          | Inr v \<Rightarrow> ib' = ib \<and> v = dent_vnode vn (x, ucast ty, name) \<and> new_object S V' x a ty
              \<and> (dir_at S V' (unat a) (es @ [(x, ucast ty, name)])
                 \<or> (\<exists>w i. w < reclen_of name \<and> file_at S V' (unat a) i (dir_bytes es @ take w (rec_bytes (x, ucast ty, name)))
                      \<and> (full S bb' \<or> length (dir_bytes es) + w = MAX_FILE)))))"

lemma yields_append_entry:
  fixes vn :: "'k vnode"
  defines "a \<equiv> ucast (fs_private vn) :: u32"
  assumes s: "kst S V bb ib s" and ok: "fs_ok S nsec V bb ib" and used: "inode_used S ib (unat a)" "inode_used S ib (unat x)"
    and x: "0 < x" "x < inode_count S" "x \<noteq> a" and dir: "dir_at S V (unat a) es" and obj: "new_object S V x a ty"
    and ty: "ty = KFS_TYPE_DIR \<or> ty = KFS_TYPE_FILE" and nm: "name_ok name"
  shows "\<exists>r V' bb' ib'. yields (append_entry vn name ty di x) s r (kst S V' bb' ib') \<and> appended S V ib vn es name ty x r V' bb' ib'"
proof -
  have m: "meta_ok S nsec V bb ib" using ok by (simp add: fs_ok_def)
  obtain i where i: "file_at S V (unat a) i (dir_bytes es)" "i_type i = KFS_TYPE_DIR"
    and oks: "\<forall>e \<in> set es. name_ok (dent_name e)" using dir by (auto simp: dir_at_def)
  have len: "length (dir_bytes es) = unat (i_size i)" using i(1) length_fdata [of V i] by (auto simp: file_at_def)
  define rec where "rec = rec_bytes (x, ucast ty, name)"
  have rl: "length rec = reclen_of name" "0 < reclen_of name"
    using length_rec_bytes [OF nm] nm reclen_bounds(4) [of name] by (auto simp: rec_def name_ok_def)
  have rec: "dirent_bytes x (reclen_of name) (ucast ty) name = rec" "rec \<noteq> []" using rl by (auto simp: rec_def rec_bytes_def)
  let ?f = "\<lparr>offset = ucast (i_size i), flags = O_WRONLY\<rparr>"
  have fl: "flags ?f AND (O_WRONLY OR O_RDWR) \<noteq> 0" "flags ?f AND O_APPEND = 0" by simp_all
  obtain t where t: "kst S V bb ib t" "kmallocK (reclen_of name) s = Inr (Inr True, t)"
    using yields_kmalloc [OF s rl(2)] by (auto simp: yields_def)
  have "yields (kfs_read_inode a) t (Inr i) (kst S V bb ib)"
    using yields_read_inode [OF t(1) m inode_used_u32 [OF used(1)]] i(1) by (simp add: file_at_def)
  then obtain u where u: "kst S V bb ib u" "kfs_read_inode a t = Inr (Inr i, u)" by (auto simp: yields_def)
  obtain err f' w v V1 bb1 where wr: "kfs_vnode_write vn ?f rec u = Inr (Inr (err, f', w), v)" "kst S V1 bb1 ib v"
      "wrote_file S nsec V ib (unat a) i (dir_bytes es) (length (dir_bytes es)) rec ?f (err, f', w) V1 bb1"
    using yields_vnode_write [OF u(1) ok, of vn i "dir_bytes es" ?f rec "length (dir_bytes es)"] used(1) i(1) fl rec(2) len
    by (auto simp: yields_def a_def)
  have start: "yields (append_entry vn name ty di x) s r Q \<longleftrightarrow> yields (if err < 0 then undo_create ty x err
      else new_vnode vn (ucast x) (if ty = KFS_TYPE_DIR then VNODE_TYPE_DIR else VNODE_TYPE_FILE)) v r Q" for r Q
    using t(2) u(2) wr(1) by (simp add: append_entry_def yields_step rec a_def [symmetric])
  obtain i1 where w1: "fs_ok S nsec V1 bb1 ib" "kept_files S ib {unat a} V V1" "i_type i1 = KFS_TYPE_DIR"
      "file_at S V1 (unat a) i1 (dir_bytes es @ take w rec)" "err < 0 \<and> w = 0 \<or> err = 0"
      "w < length rec \<longrightarrow> full S bb1 \<or> length (dir_bytes es) + w = MAX_FILE" "w \<le> length rec"
    using wr(3) i(2) by (auto simp: wrote_file_def patch_def)
  have ne: "unat x \<noteq> unat a" using x(3) by (simp add: word_unat_eq_iff)
  show ?thesis
  proof (cases "err < 0")
    case True
    obtain V2 bb2 ib2 where U: "fs_ok S nsec V2 bb2 ib2" "inode_used S ib2 = (\<lambda>b. b \<noteq> unat x \<and> inode_used S ib b)"
        "kept_files S ib {unat x} V1 V2" "yields (undo_create ty x err :: ('d, 'k vnode) kfs_op) v (Inl err) (kst S V2 bb2 ib2)"
      using undo_create_yields [OF w1(1) used(2) x(1,2)] wr(2) by blast
    have "dir_at S V1 (unat a) es" using w1 oks True by (auto simp: dir_at_def)
    then have "dir_at S V2 (unat a) es" using dir_at_kept [OF U(3)] used(1) ne by auto
    moreover have "kept_files S ib {unat a, unat x} V V2" by (rule kept_files_trans [OF w1(2) U(3)]) auto
    ultimately have "appended S V ib vn es name ty x (Inl err) V2 bb2 ib2"
      using U True by (simp add: appended_def a_def)
    then show ?thesis unfolding start using U(4) True by (simp, blast)
  next
    case False
    have "new_object S V1 x a ty" using new_object_kept [OF w1(2) obj used(2)] ne by simp
    moreover have "dir_at S V1 (unat a) (es @ [(x, ucast ty, name)])
      \<or> (\<exists>w i. w < reclen_of name \<and> file_at S V1 (unat a) i (dir_bytes es @ take w rec)
           \<and> (full S bb1 \<or> length (dir_bytes es) + w = MAX_FILE))"
    proof (cases "w = length rec")
      case True
      then show ?thesis using w1(3,4) oks nm by (auto simp: dir_at_def rec_def)
    next
      case False
      then show ?thesis using w1(4,6,7) rl(1) by (metis le_neq_implies_less)
    qed
    moreover have "kept_files S ib {unat a, unat x} V V1" using w1(2) by (auto simp: kept_files_def)
    ultimately have "appended S V ib vn es name ty x (Inr (dent_vnode vn (x, ucast ty, name))) V1 bb1 ib"
      using w1(1) by (simp add: appended_def a_def [symmetric] rec_def [symmetric])
    moreover have "yields (new_vnode vn (ucast x) (if ty = KFS_TYPE_DIR then VNODE_TYPE_DIR else VNODE_TYPE_FILE)) v
        (Inr (dent_vnode vn (x, ucast ty, name))) (kst S V1 bb1 ib)"
      using yields_new_vnode [OF wr(2), of vn "ucast x"] ty by (auto simp: dent_vnode_def)
    ultimately show ?thesis unfolding start if_not_P [OF False] by blast
  qed
qed

lemma created_appended:
  assumes x: "\<not> inode_used S ib (unat x)" and ib1: "inode_used S ib1 = (\<lambda>b. b = unat x \<or> inode_used S ib b)"
    and k: "kept_files S ib {} V V1" and ap: "appended S V1 ib1 vn es name ty x r V' bb' ib'"
  shows "created S nsec V ib vn es name ty r V' bb' ib'"
proof -
  have "kept_files S ib1 {unat (ucast (fs_private vn) :: u32), unat x} V1 V'" using ap by (simp add: appended_def Let_def)
  then have "kept_files S ib {unat (ucast (fs_private vn) :: u32)} V V'"
    by (rule kept_files_trans [OF k]) (use x ib1 in auto)
  then show ?thesis
    using ap x ib1 by (auto simp: created_def appended_def Let_def fun_eq_iff split: sum.splits)
qed

lemma yields_create:
  fixes vn :: "'k vnode" and ty :: u32
  defines "a \<equiv> ucast (fs_private vn) :: u32"
    and "kt \<equiv> (if ty = VNODE_TYPE_DIR then KFS_TYPE_DIR else KFS_TYPE_FILE) :: u32"
  assumes s: "kst S V bb ib s" and ok: "fs_ok S nsec V bb ib" and used: "inode_used S ib (unat a)"
    and dir: "dir_at S V (unat a) es" and ne: "es \<noteq> []" and fresh: "name \<notin> dent_name ` set es"
    and nm: "name_ok name" "name \<noteq> []" "name \<noteq> cstr ''.''" "name \<noteq> cstr ''..''"
  shows "\<exists>r V' bb' ib'. yields (kfs_vnode_create vn name ty) s r (kst S V' bb' ib')
    \<and> created S nsec V ib vn es name kt r V' bb' ib'"
proof -
  have m: "meta_ok S nsec V bb ib" using ok by (simp add: fs_ok_def)
  obtain i where i: "file_at S V (unat a) i (dir_bytes es)" "i_type i = KFS_TYPE_DIR" using dir by (auto simp: dir_at_def)
  have "yields (kfs_read_inode a) s (Inr i) (kst S V bb ib)"
    using yields_read_inode [OF s m inode_used_u32 [OF used]] i(1) by (simp add: file_at_def)
  then obtain t where t: "kst S V bb ib t" "kfs_read_inode a s = Inr (Inr i, t)" by (auto simp: yields_def)
  have "find (\<lambda>e. dent_name e = name) es = None" using fresh unfolding find_None_iff by blast
  then have "yields (kfs_vnode_lookup vn name) t (Inl (- ENOENT)) (kst S V bb ib)"
    using yields_lookup [OF t(1) ok, of vn es name] used dir ne nm by (simp add: a_def name_ok_def)
  then obtain u where u: "kst S V bb ib u" "kfs_vnode_lookup vn name t = Inr (Inl (- ENOENT), u)" by (auto simp: yields_def)
  have kt: "kt = KFS_TYPE_DIR \<or> kt = KFS_TYPE_FILE" by (simp add: kt_def)
  have start: "yields (kfs_vnode_create vn name ty) s r Q \<longleftrightarrow> yields (seqK (kfs_alloc_inode kt) (\<lambda>x.
      seqK (if kt = KFS_TYPE_DIR then make_dir x a else retK ()) (\<lambda>_. append_entry vn name kt i x))) u r Q" for r Q
    using t(2) u(2) i(2) nm unfolding kfs_vnode_create_def Let_def kt_def [symmetric] a_def [symmetric]
    by (simp add: yields_step name_ok_def)
  show ?thesis
    using ok
  proof (cases rule: alloc_inode_cases [of S V bb ib kt])
    case full
    have "created S nsec V ib vn es name kt (Inl (- ENOSPC)) V bb ib"
      using ok dir by (simp add: created_def a_def kept_files_def)
    then show ?thesis unfolding start using full [OF u(1)] yields_seq_fail by blast
  next
    case (new x V1 ib1)
    obtain v where v: "kst S V1 bb ib1 v" "kfs_alloc_inode kt u = Inr (Inr x, v)"
      using new(8) [OF u(1)] by (auto simp: yields_def)
    note sv = yields_step(2) [where m = "kfs_alloc_inode kt", OF v(2)]
    have used1: "inode_used S ib1 (unat a)" "inode_used S ib1 (unat x)" "x \<noteq> a" using new(1,4) used by auto
    have dir1: "dir_at S V1 (unat a) es" using dir_at_kept [OF new(7) dir used] by simp
    have finish: ?thesis
      if c: "kst S V2 bb2 ib1 w" "fs_ok S nsec V2 bb2 ib1" "kept_files S ib {} V V2" "new_object S V2 x a kt"
        "(if kt = KFS_TYPE_DIR then make_dir x a else retK ()) v = Inr (Inr (), w)" for V2 bb2 w
    proof -
      have "dir_at S V2 (unat a) es" using dir_at_kept [OF c(3) dir used] by simp
      from yields_append_entry [OF c(1,2) used1(1)[unfolded a_def] used1(2) new(2,3) used1(3)[unfolded a_def]
          this[unfolded a_def] c(4)[unfolded a_def] kt nm(1)]
      obtain r V' bb' ib' where r: "yields (append_entry vn name kt i x) w r (kst S V' bb' ib')"
        "appended S V2 ib1 vn es name kt x r V' bb' ib'" by blast
      then show ?thesis
        unfolding start sv
          yields_step(2) [where m = "if kt = KFS_TYPE_DIR then make_dir x a else retK ()", OF c(5)]
        using created_appended [OF new(1,4) c(3)] by blast
    qed
    show ?thesis
    proof (cases "kt = KFS_TYPE_DIR")
      case False
      have "\<exists>i. file_at S V1 (unat x) i [] \<and> i_type i = kt" by (rule exI, rule conjI [OF new(6)]) simp
      then show ?thesis using False finish [OF v(1) new(5,7)] by (simp add: new_object_def retK_def)
    next
      case True
      note at = new(6) [unfolded True]
      show ?thesis
        using new(5) used1(2) new(2,3) at
      proof (cases rule: make_dir_cases [of S V1 bb ib1 x a])
        case (full V2 ib2)
        have k: "kept_files S ib {} V V2" by (rule kept_files_trans [OF new(7) full(3)]) (use new(1,4) in auto)
        have "created S nsec V ib vn es name kt (Inl (- ENOSPC)) V2 bb ib2"
          using full(1,2) new(1,4) k dir_at_kept [OF k dir used]
          by (auto simp: created_def a_def kept_files_def fun_eq_iff)
        moreover have "yields (seqK (make_dir x a) (\<lambda>_. append_entry vn name kt i x)) v (Inl (- ENOSPC)) (kst S V2 bb ib2)"
          by (rule yields_seq_fail) (rule full(4) [OF v(1)])
        ultimately show ?thesis unfolding start sv if_P [OF True] by blast
      next
        case (made V2 bb2)
        obtain w where w: "kst S V2 bb2 ib1 w" "make_dir x a v = Inr (Inr (), w)" using made(4) [OF v(1)] by (auto simp: yields_def)
        have "kept_files S ib {} V V2" by (rule kept_files_trans [OF new(7) made(2)]) (use new(1,4) in auto)
        then show ?thesis using finish [OF w(1) made(1)] made(3) w(2) True by (simp add: new_object_def)
      qed
    qed
  qed
qed

end

section \<open>The contract of lookup and create\<close>

lemma sample_dir: "dir_at sample_sb sample_disk 0 [(1, 1, cstr ''a'')]"
proof -
  have l: "length (dirent_bytes 1 12 1 (cstr ''a'')) = 12"
    using length_dirent_bytes [of "cstr ''a''" 12] by (simp add: cstr_def)
  have sz: "i_size sample_root = 12" by (simp add: sample_root_def)
  have b: "bmap sample_disk sample_root 0 = 4" by (simp add: bmap_def slot_of_def sample_slots)
  have "bmap sample_disk sample_root k \<noteq> 0" if "512 * k < 12" for k
  proof -
    have "k = 0" using that by linarith
    then show ?thesis using b by simp
  qed
  then have "dense sample_disk sample_root" by (simp add: dense_def sz)
  moreover have "fdata sample_disk sample_root = dir_bytes [(1, 1, cstr ''a'')]"
    using fdata_one_block [of sample_root sample_disk] b l sample_length
    by (simp add: sz sample_disk_def rec_bytes_def reclen_of_def cstr_def)
  ultimately show ?thesis
    using sample_inodes by (auto simp: dir_at_def file_at_def name_ok_def cstr_def sample_root_def)
qed

text \<open>
  C24. Looking up a name in a directory returns the vnode of the first entry of that name, and
  \<open>-ENOENT\<close> if there is none, without changing anything. (Names other than \<open>.\<close>, and than \<open>..\<close> in
  the root, which have no entry; and directories that are not empty, where \<open>kmalloc(0)\<close> fails.)
\<close>

theorem kfs_vnode_lookup_correct:
  assumes "block_device rd wr sectors n ready" and "mounted_on rd wr sectors ready S V bb ib s"
    and "fs_ok S n V bb ib" and "inode_used S ib (unat (ucast (fs_private vn) :: u32))"
    and "dir_at S V (unat (ucast (fs_private vn) :: u32)) es" and "es \<noteq> []" and "0 \<notin> set name"
    and "name \<noteq> cstr ''.''" and "name = cstr ''..'' \<Longrightarrow> ucast (fs_private vn) \<noteq> root_inode S"
  shows "\<exists>s'. kfs_vnode_lookup vn name s = Inr (case find (\<lambda>e. dent_name e = name) es of
        None \<Rightarrow> Inl (- ENOENT) | Some e \<Rightarrow> Inr (dent_vnode vn e), s')
    \<and> mounted_on rd wr sectors ready S V bb ib s'"
  using block_device.yields_lookup [OF assms] by (simp add: yields_def)

theorem kfs_vnode_lookup_correct_witness:
  "\<exists>s'. kfs_vnode_lookup \<lparr>ops = Some (), fs_private = 0, vtype = VNODE_TYPE_DIR\<rparr> (cstr ''a'') sample_kfs
      = Inr (Inr \<lparr>ops = Some (), fs_private = 1, vtype = VNODE_TYPE_FILE\<rparr>, s')
    \<and> mounted_on (ram_read 12) (ram_write 12) id (ram_ready 12) sample_sb sample_disk sample_bb sample_ib s'"
  using kfs_vnode_lookup_correct [OF ram_block_device sample_mounted sample_ok,
    where vn = "\<lparr>ops = Some (), fs_private = 0, vtype = VNODE_TYPE_DIR\<rparr>" and es = "[(1, 1, cstr ''a'')]"
      and name = "cstr ''a''"] sample_dir
  by (simp add: sample_used dent_vnode_def cstr_def)



end
