(* ===== verification/VFS.thy ===== *)
theory VFS
  imports Vnode
begin

unbundle bit_operations_syntax

text \<open>
  The virtual file system layer of \<open>kernel/fs/vfs.c\<close>: path resolution and the dispatch of file
  operations to the operation table of a vnode. The tables and the state \<open>'s\<close> they work on are
  parameters; a table is found by the name that a vnode's \<open>ops\<close> pointer stands for.
\<close>

section \<open>Operation tables\<close>

text \<open>\<open>None\<close> is a NULL function pointer. Operations return a code or a value and the new state.\<close>

type_synonym ('s, 'a) vop = "'s \<Rightarrow> ((int + 'a) \<times> 's) outcome"

record ('k, 's) vnode_ops =
  op_read :: "('k vnode \<Rightarrow> kfile \<Rightarrow> u64 \<Rightarrow> ('s, int \<times> kfile \<times> u8 list) vop) option"
  op_write :: "('k vnode \<Rightarrow> kfile \<Rightarrow> u8 list \<Rightarrow> ('s, int \<times> kfile \<times> nat) vop) option"
  op_lookup :: "('k vnode \<Rightarrow> u8 list \<Rightarrow> ('s, 'k vnode) vop) option"
  op_create :: "('k vnode \<Rightarrow> u8 list \<Rightarrow> u32 \<Rightarrow> ('s, 'k vnode) vop) option"
  op_truncate :: "('k vnode \<Rightarrow> ('s, unit) vop) option"
  op_unlink :: "('k vnode \<Rightarrow> u8 list \<Rightarrow> ('s, unit) vop) option"
  op_rmdir :: "('k vnode \<Rightarrow> u8 list \<Rightarrow> ('s, unit) vop) option"
  op_getdents :: "('k vnode \<Rightarrow> kfile \<Rightarrow> u64 \<Rightarrow> ('s, int \<times> kfile \<times> dirent option) vop) option"
  op_close :: "('k vnode \<Rightarrow> kfile \<Rightarrow> ('s, unit) vop) option"

text \<open>
  What the layer calls: the static tables, the console vnodes, the block device vnode (which may be
  missing or not allocatable) and the allocation of a \<open>struct file\<close>.
\<close>

record ('k, 's) vfs_env =
  ops_table :: "'k \<Rightarrow> ('k, 's) vnode_ops"
  tty_vnode :: "nat \<Rightarrow> 'k vnode"
  hda_vnode :: "'s \<Rightarrow> 'k vnode option \<times> 's"
  alloc_file :: "'s \<Rightarrow> bool \<times> 's"

definition op_of :: "('k, 's) vfs_env \<Rightarrow> (('k, 's) vnode_ops \<Rightarrow> 'a option) \<Rightarrow> 'k vnode \<Rightarrow> 'a option" where
  "op_of E sel vn = (case ops vn of None \<Rightarrow> None | Some k \<Rightarrow> sel (ops_table E k))"

definition vfail :: "int \<Rightarrow> ('s, 'a) vop" where
  "vfail e s = Inr (Inl e, s)"

definition vret :: "'a \<Rightarrow> ('s, 'a) vop" where
  "vret x s = Inr (Inr x, s)"

definition vseq :: "('s, 'a) vop \<Rightarrow> ('a \<Rightarrow> ('s, 'b) vop) \<Rightarrow> ('s, 'b) vop" where
  "vseq m k s = (case m s of
       Inl e \<Rightarrow> Inl e
     | Inr (Inl err, s') \<Rightarrow> Inr (Inl err, s')
     | Inr (Inr x, s') \<Rightarrow> k x s')"

lemma vseq_cong [fundef_cong]: "m = m' \<Longrightarrow> (\<And>x. k x = k' x) \<Longrightarrow> vseq m k = vseq m' k'"
  by (metis ext)

section \<open>Paths\<close>

abbreviation SLASH :: u8 where "SLASH \<equiv> 47"

text \<open>\<open>path\<close> is the string up to its terminating zero. \<open>skip_slashes\<close> is \<open>while (*path == '/') path++;\<close>.\<close>

definition skip_slashes :: "u8 list \<Rightarrow> u8 list" where
  "skip_slashes p = dropWhile (\<lambda>c. c = SLASH) p"

definition comp_of :: "u8 list \<Rightarrow> u8 list" where
  "comp_of p = takeWhile (\<lambda>c. c \<noteq> SLASH) p"

definition rest_of :: "u8 list \<Rightarrow> u8 list" where
  "rest_of p = skip_slashes (dropWhile (\<lambda>c. c \<noteq> SLASH) p)"

lemma length_skip_slashes: "length (skip_slashes p) \<le> length p"
  by (simp add: skip_slashes_def length_dropWhile_le)

lemma length_rest_of: "p \<noteq> [] \<Longrightarrow> length (rest_of p) < length p"
proof (cases p)
  case (Cons c q)
  have "length (rest_of p) \<le> length q"
  proof (cases "c = SLASH")
    case True
    then show ?thesis by (simp add: Cons rest_of_def skip_slashes_def length_dropWhile_le)
  next
    case False
    have "length (skip_slashes (dropWhile (\<lambda>c. c \<noteq> SLASH) q)) \<le> length q"
      by (meson le_trans length_dropWhile_le length_skip_slashes)
    with False show ?thesis by (simp add: Cons rest_of_def)
  qed
  then show ?thesis by (simp add: Cons)
qed simp

text \<open>The loop over the components of a path.\<close>

function vfs_walk :: "('k, 's) vfs_env \<Rightarrow> 'k vnode \<Rightarrow> u8 list \<Rightarrow> ('s, 'k vnode) vop" where
  "vfs_walk E cur p =
     (if p = [] then vret cur
      else if 255 < length (comp_of p) then vfail (- ENAMETOOLONG)
      else if comp_of p = [] \<or> comp_of p = cstr ''.'' then vfs_walk E cur (rest_of p)
      else if vtype cur \<noteq> VNODE_TYPE_DIR then vfail (- ENOTDIR)
      else (case op_of E op_lookup cur of
          None \<Rightarrow> vfail (- ENOTDIR)
        | Some lookup \<Rightarrow> vseq (lookup cur (comp_of p)) (\<lambda>nxt. vfs_walk E nxt (rest_of p))))"
  by pat_completeness auto
termination
  by (relation "measure (\<lambda>(_, _, p). length p)") (simp_all add: length_rest_of)

declare vfs_walk.simps [simp del]

definition ends_with_slash :: "u8 list \<Rightarrow> bool" where
  "ends_with_slash path \<longleftrightarrow> path \<noteq> [] \<and> last path = SLASH"

text \<open>\<open>dev/tty0\<close> to \<open>dev/tty3\<close>.\<close>

definition tty_path :: "u8 list \<Rightarrow> nat option" where
  "tty_path p =
     (if length p = 8 \<and> take 7 p = cstr ''dev/tty'' \<and> 48 \<le> p ! 7 \<and> p ! 7 \<le> 51
      then Some (unat (p ! 7) - 48) else None)"

definition vfs_resolve_from :: "('k, 's) vfs_env \<Rightarrow> 'k vnode \<Rightarrow> bool \<Rightarrow> u8 list \<Rightarrow> ('s, 'k vnode) vop" where
  "vfs_resolve_from E root trailing p =
     vseq (vfs_walk E root p) (\<lambda>cur.
     if trailing \<and> vtype cur \<noteq> VNODE_TYPE_DIR then vfail (- ENOTDIR) else vret cur)"

definition vfs_resolve_path :: "('k, 's) vfs_env \<Rightarrow> 'k vfs \<Rightarrow> u8 list option \<Rightarrow> ('s, 'k vnode) vop" where
  "vfs_resolve_path E v path =
     (case root_vnode v of
        None \<Rightarrow> vfail (- ENOENT)
      | Some root \<Rightarrow>
         (case path of
            None \<Rightarrow> vfail (- EFAULT)
          | Some pth \<Rightarrow>
             (let p = skip_slashes pth
              in if p = [] then vret root
                 else (case tty_path p of
                     Some n \<Rightarrow> vret (tty_vnode E n)
                   | None \<Rightarrow>
                       if p = cstr ''dev/hda'' then
                         (\<lambda>s. case hda_vnode E s of
                            (Some vn, s') \<Rightarrow> vret vn s'
                          | (None, s') \<Rightarrow> vfs_resolve_from E root (ends_with_slash pth) p s')
                       else vfs_resolve_from E root (ends_with_slash pth) p))))"

text \<open>Cutting slashes off the end, and a path at its last slash.\<close>

definition trim_slashes :: "u8 list \<Rightarrow> u8 list" where
  "trim_slashes p = rev (skip_slashes (rev p))"

definition last_comp :: "u8 list \<Rightarrow> u8 list" where
  "last_comp p = rev (comp_of (rev p))"

definition before_last :: "u8 list \<Rightarrow> u8 list" where
  "before_last p = take (length p - length (last_comp p) - 1) p"

definition vfs_resolve_parent ::
  "('k, 's) vfs_env \<Rightarrow> 'k vfs \<Rightarrow> u8 list option \<Rightarrow> ('s, 'k vnode \<times> u8 list) vop" where
  "vfs_resolve_parent E v path =
     (case root_vnode v of
        None \<Rightarrow> vfail (- ENOENT)
      | Some root \<Rightarrow>
         (case path of
            None \<Rightarrow> vfail (- EFAULT)
          | Some pth \<Rightarrow>
             (let p = trim_slashes (skip_slashes pth)
              in if p = [] then vfail (- EINVAL)
                 else if SLASH \<notin> set p then
                   (if 256 \<le> length p then vfail (- ENAMETOOLONG) else vret (root, p))
                 else if last_comp p = [] \<or> 256 \<le> length (last_comp p) then vfail (- EINVAL)
                 else
                   (let dir = trim_slashes (before_last p)
                    in if dir = [] then vret (root, last_comp p)
                       else if 256 \<le> length dir then vfail (- ENAMETOOLONG)
                       else vseq (vfs_resolve_path E v (Some dir)) (\<lambda>parent.
                         if vtype parent \<noteq> VNODE_TYPE_DIR then vfail (- ENOTDIR)
                         else vret (parent, last_comp p))))))"

section \<open>Opening, creating, removing\<close>

record 'k vfile =
  f_vnode :: "'k vnode option"
  f_file :: kfile

text \<open>The tail of \<open>vfs_open\<close>: the new \<open>struct file\<close> on a vnode.\<close>

definition vfs_new_file :: "('k, 's) vfs_env \<Rightarrow> u64 \<Rightarrow> 'k vnode \<Rightarrow> ('s, 'k vfile) vop" where
  "vfs_new_file E flgs vn =
     (if vtype vn \<noteq> VNODE_TYPE_FILE \<and> vtype vn \<noteq> VNODE_TYPE_DIR then vfail (- EINVAL)
      else (\<lambda>s. case alloc_file E s of
         (False, s') \<Rightarrow> vfail (- ENOMEM) s'
       | (True, s') \<Rightarrow> vret \<lparr>f_vnode = Some vn, f_file = \<lparr>offset = 0, flags = flgs\<rparr>\<rparr> s'))"

definition dot_name :: "u8 list \<Rightarrow> bool" where
  "dot_name n \<longleftrightarrow> n = cstr ''.'' \<or> n = cstr ''..''"

definition vfs_open_create :: "('k, 's) vfs_env \<Rightarrow> 'k vfs \<Rightarrow> u8 list option \<Rightarrow> ('s, 'k vnode) vop" where
  "vfs_open_create E v path =
     vseq (vfs_resolve_parent E v path) (\<lambda>(parent, name).
     if dot_name name then vfail (- EINVAL)
     else if take 4 name = cstr ''dev/'' \<or> name = cstr ''dev'' then vfail (- EACCES)
     else (case op_of E op_create parent of
         None \<Rightarrow> vfail (- ENOTSUP)
       | Some create \<Rightarrow> create parent name VNODE_TYPE_FILE))"

definition vfs_open_existing :: "('k, 's) vfs_env \<Rightarrow> u64 \<Rightarrow> 'k vnode \<Rightarrow> ('s, 'k vnode) vop" where
  "vfs_open_existing E flgs vn =
     (if flgs AND (O_CREAT OR O_EXCL) = O_CREAT OR O_EXCL then vfail (- EEXIST)
      else if flgs AND O_TRUNC \<noteq> 0 \<and> flgs AND (O_WRONLY OR O_RDWR) \<noteq> 0 then
        (case op_of E op_truncate vn of
           None \<Rightarrow> vret vn
         | Some trunc \<Rightarrow> vseq (trunc vn) (\<lambda>_. vret vn))
      else vret vn)"

definition vfs_open :: "('k, 's) vfs_env \<Rightarrow> 'k vfs \<Rightarrow> u8 list option \<Rightarrow> u64 \<Rightarrow> ('s, 'k vfile) vop" where
  "vfs_open E v path flgs =
     (if path = None then vfail (- EFAULT)
      else (\<lambda>s. case vfs_resolve_path E v path s of
          Inl e \<Rightarrow> Inl e
        | Inr (Inl err, s') \<Rightarrow>
            if err = - ENOENT \<and> flgs AND O_CREAT \<noteq> 0
            then vseq (vfs_open_create E v path) (vfs_new_file E flgs) s'
            else vfail err s'
        | Inr (Inr vn, s') \<Rightarrow> vseq (vfs_open_existing E flgs vn) (vfs_new_file E flgs) s'))"

definition vfs_mkdir :: "('k, 's) vfs_env \<Rightarrow> 'k vfs \<Rightarrow> u8 list option \<Rightarrow> u64 \<Rightarrow> ('s, unit) vop" where
  "vfs_mkdir E v path mode =
     (if path = None then vfail (- EFAULT)
      else vseq (vfs_resolve_parent E v path) (\<lambda>(parent, name).
      if dot_name name then vfail (- EINVAL)
      else
        (let make = (case op_of E op_create parent of
               None \<Rightarrow> vfail (- ENOTSUP)
             | Some create \<Rightarrow> vseq (create parent name VNODE_TYPE_DIR) (\<lambda>_. vret ()))
         in case op_of E op_lookup parent of
              None \<Rightarrow> make
            | Some lookup \<Rightarrow> (\<lambda>s. case lookup parent name s of
                  Inl e \<Rightarrow> Inl e
                | Inr (Inr _, s') \<Rightarrow> vfail (- EEXIST) s'
                | Inr (Inl _, s') \<Rightarrow> make s'))))"

definition vfs_unlink :: "('k, 's) vfs_env \<Rightarrow> 'k vfs \<Rightarrow> u8 list option \<Rightarrow> ('s, unit) vop" where
  "vfs_unlink E v path =
     (if path = None then vfail (- EFAULT)
      else vseq (vfs_resolve_parent E v path) (\<lambda>(parent, name).
      if dot_name name then vfail (- EINVAL)
      else (case op_of E op_unlink parent of
          None \<Rightarrow> vfail (- ENOTSUP)
        | Some unlink \<Rightarrow> unlink parent name)))"

definition vfs_rmdir :: "('k, 's) vfs_env \<Rightarrow> 'k vfs \<Rightarrow> u8 list option \<Rightarrow> ('s, unit) vop" where
  "vfs_rmdir E v path =
     (if path = None then vfail (- EFAULT)
      else vseq (vfs_resolve_parent E v path) (\<lambda>(parent, name).
      if dot_name name then vfail (- EINVAL)
      else (case op_of E op_rmdir parent of
          None \<Rightarrow> vfail (- ENOTSUP)
        | Some rmdir \<Rightarrow> rmdir parent name)))"

section \<open>Operations on open files\<close>

text \<open>
  \<open>f\<close> is \<open>None\<close> for a NULL file. The table is read without a check that there is one: \<open>f_table\<close> is
  a fault for a vnode whose \<open>ops\<close> is NULL.
\<close>

definition f_table :: "('k, 's) vfs_env \<Rightarrow> 'k vnode \<Rightarrow> (('k, 's) vnode_ops \<Rightarrow> 's \<Rightarrow> 'b outcome) \<Rightarrow> 's \<Rightarrow> 'b outcome" where
  "f_table E vn k s = (case ops vn of None \<Rightarrow> Inl OutOfBounds | Some key \<Rightarrow> k (ops_table E key) s)"

definition vfs_read :: "('k, 's) vfs_env \<Rightarrow> 'k vfile option \<Rightarrow> u64 \<Rightarrow> ('s, int \<times> kfile \<times> u8 list) vop" where
  "vfs_read E f count =
     (case f of
        None \<Rightarrow> vfail (- EBADF)
      | Some fl \<Rightarrow> (case f_vnode fl of
          None \<Rightarrow> vfail (- EBADF)
        | Some vn \<Rightarrow> f_table E vn (\<lambda>t. case op_read t of
            None \<Rightarrow> vfail (- EINVAL)
          | Some rd \<Rightarrow> rd vn (f_file fl) count)))"

definition vfs_write :: "('k, 's) vfs_env \<Rightarrow> 'k vfile option \<Rightarrow> u8 list \<Rightarrow> ('s, int \<times> kfile \<times> nat) vop" where
  "vfs_write E f buf =
     (case f of
        None \<Rightarrow> vfail (- EBADF)
      | Some fl \<Rightarrow> (case f_vnode fl of
          None \<Rightarrow> vfail (- EBADF)
        | Some vn \<Rightarrow> f_table E vn (\<lambda>t. case op_write t of
            None \<Rightarrow> vfail (- EINVAL)
          | Some wr \<Rightarrow> wr vn (f_file fl) buf)))"

definition vfs_getdents :: "('k, 's) vfs_env \<Rightarrow> 'k vfile option \<Rightarrow> u64 \<Rightarrow> ('s, int \<times> kfile \<times> dirent option) vop" where
  "vfs_getdents E f count =
     (case f of
        None \<Rightarrow> vfail (- EBADF)
      | Some fl \<Rightarrow> (case f_vnode fl of
          None \<Rightarrow> vfail (- EBADF)
        | Some vn \<Rightarrow>
            if vtype vn \<noteq> VNODE_TYPE_DIR then vfail (- ENOTDIR)
            else f_table E vn (\<lambda>t. case op_getdents t of
              None \<Rightarrow> vfail (- EINVAL)
            | Some gd \<Rightarrow> gd vn (f_file fl) count)))"

definition vfs_close :: "('k, 's) vfs_env \<Rightarrow> 'k vfile option \<Rightarrow> ('s, unit) vop" where
  "vfs_close E f =
     (case f of
        None \<Rightarrow> vfail (- EBADF)
      | Some fl \<Rightarrow> (case f_vnode fl of
          None \<Rightarrow> vret ()
        | Some vn \<Rightarrow> f_table E vn (\<lambda>t. case op_close t of
            None \<Rightarrow> vret ()
          | Some cl \<Rightarrow> (\<lambda>s. case cl vn (f_file fl) s of Inl e \<Rightarrow> Inl e | Inr (_, s') \<Rightarrow> vret () s'))))"

end
