(* ===== verification/VFS_Paths.thy ===== *)
theory VFS_Paths
  imports VFS
begin

unbundle bit_operations_syntax

text \<open>
  Path resolution against a reference: a path stands for the list of its components, and resolving it
  looks them up one after the other.
\<close>

section \<open>Paths as lists of components\<close>

text \<open>The reference: a path split at its slashes, without empty components and \<open>.\<close>.\<close>

fun split_path :: "u8 list \<Rightarrow> u8 list list" where
  "split_path [] = [[]]"
| "split_path (c # p) =
     (if c = SLASH then [] # split_path p
      else (case split_path p of [] \<Rightarrow> [[c]] | q # qs \<Rightarrow> (c # q) # qs))"

definition components :: "u8 list \<Rightarrow> u8 list list" where
  "components p = filter (\<lambda>c. c \<noteq> [] \<and> c \<noteq> cstr ''.'') (split_path p)"

text \<open>Looking the components up one after the other.\<close>

fun walk_comps :: "('k, 's) vfs_env \<Rightarrow> 'k vnode \<Rightarrow> u8 list list \<Rightarrow> ('s, 'k vnode) vop" where
  "walk_comps E cur [] = vret cur"
| "walk_comps E cur (c # cs) =
     (if 255 < length c then vfail (- ENAMETOOLONG)
      else if vtype cur \<noteq> VNODE_TYPE_DIR then vfail (- ENOTDIR)
      else (case op_of E op_lookup cur of
          None \<Rightarrow> vfail (- ENOTDIR)
        | Some lookup \<Rightarrow> vseq (lookup cur c) (\<lambda>nxt. walk_comps E nxt cs)))"

lemma split_path_ne [simp]: "split_path p \<noteq> []"
  by (induction p) (auto split: list.splits)

lemma split_path_append: "SLASH \<notin> set c \<Longrightarrow> split_path (c @ p) = (c @ hd (split_path p)) # tl (split_path p)"
  by (induction c) (auto split: list.splits)

lemma slash_comp_of [simp]: "SLASH \<notin> set (comp_of p)"
  using set_takeWhileD [of SLASH "\<lambda>c. c \<noteq> SLASH" p] by (auto simp: comp_of_def)

lemma split_path_slash: "split_path (p @ SLASH # q) = split_path p @ split_path q"
  by (induction p) (auto split: list.splits)

lemma split_path_single: "SLASH \<notin> set c \<Longrightarrow> split_path c = [c]"
  using split_path_append [of c "[]"] by simp

lemma components_slash [simp]: "components (SLASH # p) = components p" "components (p @ SLASH # q) = components p @ components q"
  by (simp_all add: components_def split_path_slash)

lemma components_Nil [simp]: "components [] = []"
  by (simp add: components_def)

lemma components_single:
  "SLASH \<notin> set c \<Longrightarrow> components c = (if c = [] \<or> c = cstr ''.'' then [] else [c])"
  by (simp add: components_def split_path_single)

lemma components_skip [simp]: "components (skip_slashes p) = components p"
  by (induction p) (auto simp: skip_slashes_def components_def)

lemma components_unfold:
  assumes "p \<noteq> []"
  shows "components p = (if comp_of p = [] \<or> comp_of p = cstr ''.'' then [] else [comp_of p]) @ components (rest_of p)"
proof (cases "dropWhile (\<lambda>c. c \<noteq> SLASH) p")
  case Nil
  then have c: "comp_of p = p" "SLASH \<notin> set p" by (auto simp: comp_of_def takeWhile_eq_all_conv)
  have "rest_of p = []" using Nil by (simp add: rest_of_def skip_slashes_def del: dropWhile_eq_Nil_conv)
  then show ?thesis using c by (simp add: components_single)
next
  case (Cons x q)
  then have "x = SLASH" using hd_dropWhile [of "\<lambda>c. c \<noteq> SLASH" p] by auto
  then have p: "p = comp_of p @ SLASH # q" using Cons takeWhile_dropWhile_id [of "\<lambda>c. c \<noteq> SLASH" p] by (simp add: comp_of_def)
  have "components p = components (comp_of p) @ components q" by (subst p) simp
  moreover have "components (rest_of p) = components q" using Cons \<open>x = SLASH\<close> by (simp add: rest_of_def)
  ultimately show ?thesis by (simp add: components_single)
qed

lemma vfs_walk_components: "vfs_walk E cur p = walk_comps E cur (components p)"
proof (induction "length p" arbitrary: cur p rule: less_induct)
  case less
  show ?case
  proof (cases "p = []")
    case True
    then show ?thesis by (simp add: vfs_walk.simps components_def)
  next
    case False
    note IH = less [OF length_rest_of [OF False]]
    have l: "length (cstr ''.'') = 1" by (simp add: cstr_def)
    show ?thesis
      using False l by (subst vfs_walk.simps) (auto simp: components_unfold [OF False] IH split: option.splits)
  qed
qed

section \<open>Path resolution\<close>

text \<open>The paths that \<open>vfs_resolve_path\<close> answers without walking.\<close>

definition device_path :: "u8 list \<Rightarrow> bool" where
  "device_path path \<longleftrightarrow> tty_path (skip_slashes path) \<noteq> None \<or> skip_slashes path = cstr ''dev/hda''"

definition checked :: "bool \<Rightarrow> 'k vnode \<Rightarrow> ('s, 'k vnode) vop" where
  "checked trailing cur = (if trailing \<and> vtype cur \<noteq> VNODE_TYPE_DIR then vfail (- ENOTDIR) else vret cur)"

lemma vseq_InrE:
  assumes "vseq m k s = Inr (Inr y, s2)"
  obtains x s1 where "m s = Inr (Inr x, s1)" "k x s1 = Inr (Inr y, s2)"
  using assms by (auto simp: vseq_def split: sum.splits prod.splits)

lemma resolve_components:
  assumes "root_vnode v = Some root" and "\<not> device_path path" and "vtype root = VNODE_TYPE_DIR"
  shows "vfs_resolve_path E v (Some path)
    = vseq (walk_comps E root (components path)) (checked (ends_with_slash path))"
proof (cases "skip_slashes path = []")
  case True
  then have "components path = []" using components_skip [of path] by (simp add: components_def)
  then show ?thesis using assms True by (simp add: vfs_resolve_path_def checked_def vseq_def vret_def fun_eq_iff)
next
  case False
  then show ?thesis
    using assms by (simp add: vfs_resolve_path_def device_path_def vfs_resolve_from_def vfs_walk_components
        checked_def [abs_def] fun_eq_iff)
qed

lemma walk_comps_append: "walk_comps E cur (cs @ ds) = vseq (walk_comps E cur cs) (\<lambda>x. walk_comps E x ds)"
proof (induction cs arbitrary: cur)
  case (Cons c cs)
  then show ?case by (auto simp: vseq_def vfail_def fun_eq_iff split: option.splits sum.splits)
qed (simp add: vseq_def vret_def fun_eq_iff)

section \<open>The parent of a path\<close>

lemma trim_slashes_append: "\<exists>k. p = trim_slashes p @ replicate k SLASH"
proof -
  have "rev p = takeWhile (\<lambda>c. c = SLASH) (rev p) @ skip_slashes (rev p)" by (simp add: skip_slashes_def)
  then have "p = trim_slashes p @ rev (takeWhile (\<lambda>c. c = SLASH) (rev p))"
    unfolding trim_slashes_def by (metis rev_append rev_rev_ident)
  moreover have "rev (takeWhile (\<lambda>c. c = SLASH) (rev p)) = replicate (length (takeWhile (\<lambda>c. c = SLASH) (rev p))) SLASH"
    by (rule replicate_eqI) (auto dest: set_takeWhileD)
  ultimately show ?thesis by metis
qed

lemma components_trim [simp]: "components (trim_slashes p) = components p"
proof -
  have r: "components (replicate k SLASH) = []" for k by (induction k) simp_all
  have "components (q @ replicate k SLASH) = components q" for q k by (cases k) (simp_all add: r)
  then show ?thesis using trim_slashes_append [of p] by metis
qed

lemma slash_last_comp [simp]: "SLASH \<notin> set (last_comp p)"
  by (simp add: last_comp_def)

lemma last_comp_split:
  assumes "SLASH \<in> set p"
  shows "p = before_last p @ SLASH # last_comp p"
proof -
  obtain x q where q: "dropWhile (\<lambda>c. c \<noteq> SLASH) (rev p) = x # q"
    using assms by (cases "dropWhile (\<lambda>c. c \<noteq> SLASH) (rev p)") auto
  then have "x = SLASH" using hd_dropWhile [of "\<lambda>c. c \<noteq> SLASH" "rev p"] by auto
  then have "rev p = comp_of (rev p) @ SLASH # q" using q takeWhile_dropWhile_id [of "\<lambda>c. c \<noteq> SLASH" "rev p"] by (simp add: comp_of_def)
  from arg_cong [OF this, of rev] have p: "p = rev q @ SLASH # last_comp p" by (simp add: last_comp_def)
  have "before_last (rev q @ SLASH # c) = rev q" if "SLASH \<notin> set c" for c
    using that by (simp add: before_last_def last_comp_def comp_of_def takeWhile_append)
  from this [OF slash_last_comp [of p]] show ?thesis unfolding p [symmetric] using p by metis
qed

text \<open>A device path is below \<open>dev\<close>.\<close>

lemma device_components:
  assumes "device_path path"
  shows "\<exists>cs. components path = cstr ''dev'' # cs"
proof -
  have d: "split_path (cstr ''dev/'' @ q) = cstr ''dev'' # split_path q" for q by (simp add: cstr_def)
  have "\<exists>q. skip_slashes path = cstr ''dev/'' @ q"
  proof (cases "skip_slashes path = cstr ''dev/hda''")
    case False
    then have "take 7 (skip_slashes path) = cstr ''dev/tty''" using assms by (auto simp: device_path_def tty_path_def split: if_splits)
    then have "skip_slashes path = cstr ''dev/tty'' @ drop 7 (skip_slashes path)" by (metis append_take_drop_id)
    then show ?thesis by (auto simp: cstr_def)
  qed (simp add: cstr_def)
  then obtain q where "skip_slashes path = cstr ''dev/'' @ q" by blast
  then have "components path = components (cstr ''dev/'' @ q)" using components_skip [of path] by simp
  then show ?thesis using d [of q] by (simp add: components_def cstr_def)
qed

lemma resolve_parent_spec:
  assumes root: "root_vnode v = Some root" "vtype root = VNODE_TYPE_DIR"
    and dev: "components path = [] \<or> hd (components path) \<noteq> cstr ''dev''"
    and res: "vfs_resolve_parent E v (Some path) s = Inr (Inr (parent, name), s1)"
  shows "name \<noteq> []" and "SLASH \<notin> set name" and "length name \<le> 255" and "vtype parent = VNODE_TYPE_DIR"
    and "\<exists>cs. components path = cs @ (if name = cstr ''.'' then [] else [name]) \<and> walk_comps E root cs s = Inr (Inr parent, s1)"
proof -
  define p where "p = trim_slashes (skip_slashes path)"
  have cp: "components p = components path" by (simp add: p_def)
  note r = res [unfolded vfs_resolve_parent_def root Let_def p_def [symmetric] option.case]
  have ne: "p \<noteq> []"
  proof
    assume "p = []"
    with r show False by (simp add: vfail_def)
  qed
  have split: "components path = components (before_last p) @ (if last_comp p = [] \<or> last_comp p = cstr ''.'' then [] else [last_comp p])"
    if "SLASH \<in> set p"
    using arg_cong [OF last_comp_split [OF that], of components] components_single [of "last_comp p"]
    unfolding cp components_slash by simp
  consider (top) "SLASH \<notin> set p" "length p < 256" "parent = root" "name = p" "s1 = s"
    | (sub) "SLASH \<in> set p" "last_comp p \<noteq> []" "length (last_comp p) < 256" "name = last_comp p"
      "trim_slashes (before_last p) = []" "parent = root" "s1 = s"
    | (deep) "SLASH \<in> set p" "last_comp p \<noteq> []" "length (last_comp p) < 256" "name = last_comp p"
      "trim_slashes (before_last p) \<noteq> []" "vfs_resolve_path E v (Some (trim_slashes (before_last p))) s = Inr (Inr parent, s1)"
      "vtype parent = VNODE_TYPE_DIR"
  proof (cases "SLASH \<in> set p")
    case False
    then show thesis using r ne top by (simp add: vfail_def vret_def split: if_splits)
  next
    case True
    then have l: "last_comp p \<noteq> []" "length (last_comp p) < 256" using r ne by (simp_all add: vfail_def not_le [symmetric] split: if_splits)
    show thesis
    proof (cases "trim_slashes (before_last p) = []")
      case d: True
      then have "vret (root, last_comp p) s = Inr (Inr (parent, name), s1)" using r ne l True by simp
      then show thesis using sub [OF True l _ d] by (simp add: vret_def)
    next
      case d: False
      then have "vseq (vfs_resolve_path E v (Some (trim_slashes (before_last p)))) (\<lambda>parent.
          if vtype parent \<noteq> VNODE_TYPE_DIR then vfail (- ENOTDIR) else vret (parent, last_comp p)) s = Inr (Inr (parent, name), s1)"
        using r ne l True by (simp add: vfail_def split: if_splits)
      then obtain x t where x: "vfs_resolve_path E v (Some (trim_slashes (before_last p))) s = Inr (Inr x, t)"
        "(if vtype x \<noteq> VNODE_TYPE_DIR then vfail (- ENOTDIR) else vret (x, last_comp p)) t = Inr (Inr (parent, name), s1)"
        by (rule vseq_InrE)
      then have "parent = x" "name = last_comp p" "vtype x = VNODE_TYPE_DIR" "s1 = t"
        by (simp_all add: vfail_def vret_def split: if_splits)
      then show thesis using deep [OF True l _ d] x(1) by simp
    qed
  qed
  then have "name \<noteq> [] \<and> SLASH \<notin> set name \<and> length name \<le> 255 \<and> vtype parent = VNODE_TYPE_DIR
    \<and> (\<exists>cs. components path = cs @ (if name = cstr ''.'' then [] else [name]) \<and> walk_comps E root cs s = Inr (Inr parent, s1))"
  proof cases
    case top
    then have "components path = [] @ (if name = cstr ''.'' then [] else [name])"
      using components_single [OF top(1)] ne unfolding cp [symmetric] by simp
    moreover have "walk_comps E root [] s = Inr (Inr parent, s1)" using top by (simp add: vret_def)
    moreover have "name \<noteq> [] \<and> SLASH \<notin> set name \<and> length name \<le> 255" using top ne by simp
    ultimately show ?thesis using top(3) root(2) by blast
  next
    case sub
    have "components (before_last p) = []" using components_trim [of "before_last p"] sub(5) by simp
    then have "components path = [] @ (if name = cstr ''.'' then [] else [name])" using split [OF sub(1)] sub(2,4) by simp
    moreover have "walk_comps E root [] s = Inr (Inr parent, s1)" using sub by (simp add: vret_def)
    moreover have "name \<noteq> [] \<and> SLASH \<notin> set name \<and> length name \<le> 255" using sub(2-4) by simp
    ultimately show ?thesis using sub(6) root(2) by blast
  next
    case deep
    let ?d = "trim_slashes (before_last p)"
    have c: "components path = components ?d @ (if name = cstr ''.'' then [] else [name])"
      using split [OF deep(1)] deep(2,4) by simp
    then have "\<not> device_path ?d" using dev device_components [of ?d] by auto
    then have "vseq (walk_comps E root (components ?d)) (checked (ends_with_slash ?d)) s = Inr (Inr parent, s1)"
      using deep(6) resolve_components [OF root(1) _ root(2)] by metis
    then have "walk_comps E root (components ?d) s = Inr (Inr parent, s1)"
      by (auto simp: vseq_def checked_def vret_def vfail_def split: sum.splits prod.splits if_splits)
    moreover have "name \<noteq> [] \<and> SLASH \<notin> set name \<and> length name \<le> 255" using deep(2-4) by simp
    ultimately show ?thesis using c deep(7) by blast
  qed
  then show "name \<noteq> []" and "SLASH \<notin> set name" and "length name \<le> 255" and "vtype parent = VNODE_TYPE_DIR"
    and "\<exists>cs. components path = cs @ (if name = cstr ''.'' then [] else [name]) \<and> walk_comps E root cs s = Inr (Inr parent, s1)"
    by blast+
qed

section \<open>Resolution of paths and parents\<close>

text \<open>
  C26. Resolving a path that does not name a device looks up the components of the path one after the
  other from the root, where empty components and \<open>.\<close> do not count, with all the error codes of the
  reference in its order; a path that ends in a slash must lead to a directory.
\<close>

theorem vfs_resolve_path_correct:
  assumes "root_vnode v = Some root" and "\<not> device_path path" and "vtype root = VNODE_TYPE_DIR"
  shows "vfs_resolve_path E v (Some path)
    = vseq (walk_comps E root (components path)) (\<lambda>x.
        if ends_with_slash path \<and> vtype x \<noteq> VNODE_TYPE_DIR then vfail (- ENOTDIR) else vret x)"
  using resolve_components [OF assms] by (simp add: checked_def [abs_def])

definition sample_env :: "(unit, nat) vfs_env" where
  "sample_env = \<lparr>ops_table = (\<lambda>_. \<lparr>op_read = None, op_write = None,
       op_lookup = Some (\<lambda>vn name s. vret \<lparr>ops = Some (), fs_private = fs_private vn + of_nat (length name), vtype = VNODE_TYPE_DIR\<rparr> (s + 1)),
       op_create = None, op_truncate = None, op_unlink = None, op_rmdir = None, op_getdents = None, op_close = None\<rparr>),
     tty_vnode = (\<lambda>n. \<lparr>ops = None, fs_private = of_nat n, vtype = VNODE_TYPE_FILE\<rparr>), hda_vnode = (\<lambda>s. (None, s)),
     alloc_file = (\<lambda>s. (True, s))\<rparr>"

definition sample_top :: "unit vnode" where
  "sample_top = \<lparr>ops = Some (), fs_private = 0, vtype = VNODE_TYPE_DIR\<rparr>"

theorem vfs_resolve_path_correct_witness:
  "vfs_resolve_path sample_env \<lparr>root_vnode = Some sample_top\<rparr> (Some (cstr ''//a/./bc/'')) 0
    = vseq (walk_comps sample_env sample_top [cstr ''a'', cstr ''bc'']) (\<lambda>x.
        if vtype x \<noteq> VNODE_TYPE_DIR then vfail (- ENOTDIR) else vret x) 0"
  using vfs_resolve_path_correct [of "\<lparr>root_vnode = Some sample_top\<rparr>" sample_top "cstr ''//a/./bc/''" sample_env]
  by (simp add: sample_top_def device_path_def tty_path_def skip_slashes_def components_def ends_with_slash_def cstr_def)

text \<open>
  C27. The parent and name that \<open>vfs_resolve_parent\<close> finds (for opening with \<open>O_CREAT\<close>, \<open>mkdir\<close>,
  \<open>unlink\<close> and \<open>rmdir\<close>) are those of the path: the parent is a directory, the name is one component
  that fits its buffer, and resolving the path itself is looking this name up in this parent. (For
  paths outside \<open>/dev\<close> whose last component is not \<open>.\<close>.)
\<close>

theorem vfs_resolve_parent_correct:
  assumes "root_vnode v = Some root" and "vtype root = VNODE_TYPE_DIR"
    and "components path = [] \<or> hd (components path) \<noteq> cstr ''dev''"
    and "vfs_resolve_parent E v (Some path) s = Inr (Inr (parent, name), s1)" and "name \<noteq> cstr ''.''"
  shows "vtype parent = VNODE_TYPE_DIR \<and> name \<noteq> [] \<and> SLASH \<notin> set name \<and> length name \<le> 255
    \<and> vfs_resolve_path E v (Some path) s
      = (case op_of E op_lookup parent of
           None \<Rightarrow> vfail (- ENOTDIR) s1
         | Some lookup \<Rightarrow> vseq (lookup parent name) (\<lambda>x.
             if ends_with_slash path \<and> vtype x \<noteq> VNODE_TYPE_DIR then vfail (- ENOTDIR) else vret x) s1)"
proof -
  note P = resolve_parent_spec [OF assms(1-4)]
  obtain cs where cs: "components path = cs @ [name]" "walk_comps E root cs s = Inr (Inr parent, s1)"
    using P(5) assms(5) by auto
  have "\<not> device_path path" using device_components [of path] assms(3) by auto
  from resolve_components [OF assms(1) this assms(2), of E]
  have "vfs_resolve_path E v (Some path) s = vseq (walk_comps E root (cs @ [name])) (checked (ends_with_slash path)) s"
    by (simp add: cs(1))
  also have "\<dots> = vseq (walk_comps E parent [name]) (checked (ends_with_slash path)) s1"
    using cs(2) by (simp add: walk_comps_append vseq_def)
  also have "\<dots> = (case op_of E op_lookup parent of
           None \<Rightarrow> vfail (- ENOTDIR) s1
         | Some lookup \<Rightarrow> vseq (lookup parent name) (checked (ends_with_slash path)) s1)"
    using P(3,4) by (auto simp: vseq_def vfail_def vret_def split: option.splits sum.splits prod.splits)
  finally show ?thesis using P(1-4) by (simp add: checked_def [abs_def] cong: option.case_cong)
qed

theorem vfs_resolve_parent_correct_witness:
  "vfs_resolve_parent sample_env \<lparr>root_vnode = Some sample_top\<rparr> (Some (cstr ''/a//bc/'')) 0
      = Inr (Inr (\<lparr>ops = Some (), fs_private = 1, vtype = VNODE_TYPE_DIR\<rparr>, cstr ''bc''), 1)
    \<and> vfs_resolve_path sample_env \<lparr>root_vnode = Some sample_top\<rparr> (Some (cstr ''/a//bc/'')) 0
      = Inr (Inr \<lparr>ops = Some (), fs_private = 3, vtype = VNODE_TYPE_DIR\<rparr>, 2)"
proof -
  have "vfs_resolve_parent sample_env \<lparr>root_vnode = Some sample_top\<rparr> (Some (cstr ''/a//bc/'')) 0
      = Inr (Inr (\<lparr>ops = Some (), fs_private = 1, vtype = VNODE_TYPE_DIR\<rparr>, cstr ''bc''), 1)"
    by code_simp
  with vfs_resolve_parent_correct [OF _ _ _ this, of sample_top] show ?thesis
    by (simp add: sample_top_def sample_env_def components_def cstr_def op_of_def vseq_def vret_def)
qed

end
