(* ===== verification/VFS_KFS.thy ===== *)
theory VFS_KFS
  imports VFS_Paths KFS_Dir
begin

unbundle bit_operations_syntax

text \<open>
  The virtual file system layer over KFS: the operation table of \<open>kernel/fs/kfs.c\<close>, paths through the
  directories on the medium, and opening and reading a file by its path.
\<close>

section \<open>Paths through directories\<close>

definition kfs_vnode_ops :: "('k, 'd kfs) vnode_ops" where
  "kfs_vnode_ops = \<lparr>op_read = Some kfs_vnode_read, op_write = Some kfs_vnode_write, op_lookup = Some kfs_vnode_lookup,
     op_create = Some kfs_vnode_create, op_truncate = Some kfs_vnode_truncate, op_unlink = Some kfs_vnode_unlink,
     op_rmdir = Some kfs_vnode_rmdir, op_getdents = Some kfs_vnode_getdents, op_close = Some kfs_vnode_close\<rparr>"

text \<open>Which entry a list of names leads to, from inode \<open>x\<close> of type \<open>ty\<close>.\<close>

inductive leads :: "kfs_superblock \<Rightarrow> (nat \<Rightarrow> u8 list) \<Rightarrow> u8 list \<Rightarrow> u32 \<times> u8 \<Rightarrow> u8 list list \<Rightarrow> u32 \<times> u8 \<Rightarrow> bool"
  for S V ib where
  here: "leads S V ib e [] e"
| step: "inode_used S ib (unat x) \<Longrightarrow> dir_at S V (unat x) es \<Longrightarrow> find (\<lambda>e. dent_name e = c) es = Some (y, ty, c)
    \<Longrightarrow> 0 \<notin> set c \<Longrightarrow> length c \<le> 255 \<Longrightarrow> c \<noteq> cstr ''.'' \<Longrightarrow> (c = cstr ''..'' \<longrightarrow> x \<noteq> root_inode S)
    \<Longrightarrow> leads S V ib (y, ty) cs e \<Longrightarrow> leads S V ib (x, 2) (c # cs) e"

definition kvnode :: "'k \<Rightarrow> u32 \<times> u8 \<Rightarrow> 'k vnode" where
  "kvnode k = (\<lambda>(x, ty). \<lparr>ops = Some k, fs_private = ucast x,
     vtype = (if ucast ty = KFS_TYPE_DIR then VNODE_TYPE_DIR else VNODE_TYPE_FILE)\<rparr>)"

lemma ucast_ucast_u32: "ucast (ucast (x :: u32) :: u64) = x"
  by (rule bit_word_eqI) (simp add: bit_ucast_iff)

context block_device
begin

lemma walk_leads:
  assumes "leads S V ib e cs e'" and "fs_ok S nsec V bb ib" and "ops_table E k = kfs_vnode_ops" and "kst S V bb ib s"
  shows "\<exists>s'. walk_comps E (kvnode k e) cs s = Inr (Inr (kvnode k e'), s') \<and> kst S V bb ib s'"
  using assms
proof (induction arbitrary: s rule: leads.induct)
  case (here e)
  then show ?case by (auto simp: vret_def)
next
  case (step x es c y ty cs e)
  let ?vn = "kvnode k (x, 2)"
  have ino: "ucast (fs_private ?vn) = x" by (simp add: kvnode_def ucast_ucast_u32)
  have ne: "es \<noteq> []" using step.hyps(3) by auto
  have "yields (kfs_vnode_lookup ?vn c) s (Inr (dent_vnode ?vn (y, ty, c))) (kst S V bb ib)"
    using yields_lookup [OF step.prems(3) step.prems(1), of ?vn es c] step.hyps ne by (simp add: ino)
  then obtain t where t: "kfs_vnode_lookup ?vn c s = Inr (Inr (kvnode k (y, ty)), t)" "kst S V bb ib t"
    by (auto simp: yields_def dent_vnode_def kvnode_def)
  from step.IH [OF step.prems(1,2) t(2)] obtain s' where
    "walk_comps E (kvnode k (y, ty)) cs t = Inr (Inr (kvnode k e), s')" "kst S V bb ib s'" by blast
  moreover have "op_of E op_lookup ?vn = Some kfs_vnode_lookup" "vtype ?vn = VNODE_TYPE_DIR"
    using step.prems(2) by (simp_all add: op_of_def kvnode_def kfs_vnode_ops_def)
  ultimately show ?case using t(1) step.hyps(5) by (auto simp: vseq_def)
qed

end

section \<open>Opening and reading by path\<close>

text \<open>
  C25. From a path to the bytes of a file: if the components of a path lead through the directories of
  a mounted KFS to a file, then \<open>vfs_open\<close> returns an open file at offset 0 and \<open>vfs_read\<close> on it
  returns the first bytes of that file, and neither changes the medium. (For paths other than the
  devices and without a trailing slash, opened for reading.)
\<close>

theorem vfs_open_read_kfs:
  assumes "block_device rd wr sectors n ready" and "mounted_on rd wr sectors ready S V bb ib s" and "fs_ok S n V bb ib"
    and "ops_table E k = kfs_vnode_ops" and "\<And>t. alloc_file E t = (True, t)"
    and "root_vnode v = Some (kvnode k (root_inode S, 2))" and "\<not> device_path path" and "\<not> ends_with_slash path"
    and "leads S V ib (root_inode S, 2) (components path) (x, 1)"
    and "inode_used S ib (unat x)" and "file_at S V (unat x) i data"
  shows "\<exists>s1 s2. vfs_open E v (Some path) 0 s
      = Inr (Inr \<lparr>f_vnode = Some (kvnode k (x, 1)), f_file = \<lparr>offset = 0, flags = 0\<rparr>\<rparr>, s1)
    \<and> vfs_read E (Some \<lparr>f_vnode = Some (kvnode k (x, 1)), f_file = \<lparr>offset = 0, flags = 0\<rparr>\<rparr>) count s1
      = Inr (Inr (0, \<lparr>offset = of_nat (length (take (unat count) data)), flags = 0\<rparr>, take (unat count) data), s2)
    \<and> mounted_on rd wr sectors ready S V bb ib s2"
proof -
  have root: "vtype (kvnode k (root_inode S, 2)) = VNODE_TYPE_DIR" by (simp add: kvnode_def)
  from block_device.walk_leads [OF assms(1,9,3,4,2)] obtain s1 where
    w: "walk_comps E (kvnode k (root_inode S, 2)) (components path) s = Inr (Inr (kvnode k (x, 1)), s1)"
      "mounted_on rd wr sectors ready S V bb ib s1" by blast
  have "vfs_resolve_path E v (Some path) s = Inr (Inr (kvnode k (x, 1)), s1)"
    using resolve_components [OF assms(6,7) root, of E] w(1) assms(8) by (simp add: vseq_def checked_def vret_def)
  moreover have ty: "vtype (kvnode k (x, 1)) = VNODE_TYPE_FILE" by (simp add: kvnode_def)
  ultimately have op: "vfs_open E v (Some path) 0 s
      = Inr (Inr \<lparr>f_vnode = Some (kvnode k (x, 1)), f_file = \<lparr>offset = 0, flags = 0\<rparr>\<rparr>, s1)"
    using assms(5) by (simp add: vfs_open_def vfs_open_existing_def vfs_new_file_def vseq_def vret_def)
  have x: "ucast (fs_private (kvnode k (x, 1))) = x" by (simp add: kvnode_def ucast_ucast_u32)
  from block_device.yields_vnode_read [OF assms(1) w(2) assms(3), of "kvnode k (x, 1)" i data "\<lparr>offset = 0, flags = 0\<rparr>" count]
  obtain s2 where "kfs_vnode_read (kvnode k (x, 1)) \<lparr>offset = 0, flags = 0\<rparr> count s1
      = Inr (Inr (0, \<lparr>offset = of_nat (length (take (unat count) data)), flags = 0\<rparr>, take (unat count) data), s2)"
      "mounted_on rd wr sectors ready S V bb ib s2"
    using assms(10,11) u64_bound [of count] by (auto simp: yields_def x slice_def)
  then show ?thesis
    using op assms(4) by (simp add: vfs_read_def f_table_def kvnode_def kfs_vnode_ops_def)
qed

definition kfs_env :: "(unit, (nat \<Rightarrow> u8 list) kfs) vfs_env" where
  "kfs_env = \<lparr>ops_table = (\<lambda>_. kfs_vnode_ops), tty_vnode = (\<lambda>n. \<lparr>ops = None, fs_private = of_nat n, vtype = VNODE_TYPE_FILE\<rparr>),
     hda_vnode = (\<lambda>s. (None, s)), alloc_file = (\<lambda>s. (True, s))\<rparr>"

lemma sample_leads: "leads sample_sb sample_disk sample_ib (root_inode sample_sb, 2) [cstr ''a''] (1, 1)"
proof -
  have r: "unat (root_inode sample_sb) = 0" by (simp add: sample_sb_def)
  show ?thesis
    by (rule leads.step [where es = "[(1, 1, cstr ''a'')]" and y = 1 and ty = 1])
      (use sample_dir in \<open>auto simp: r sample_used cstr_def intro: leads.here\<close>)
qed

theorem vfs_open_read_kfs_witness:
  "\<exists>s1 s2. vfs_open kfs_env \<lparr>root_vnode = Some (kvnode () (root_inode sample_sb, 2))\<rparr> (Some (cstr ''/a'')) 0 sample_kfs
      = Inr (Inr \<lparr>f_vnode = Some (kvnode () (1, 1)), f_file = \<lparr>offset = 0, flags = 0\<rparr>\<rparr>, s1)
    \<and> vfs_read kfs_env (Some \<lparr>f_vnode = Some (kvnode () (1, 1)), f_file = \<lparr>offset = 0, flags = 0\<rparr>\<rparr>) 10 s1
      = Inr (Inr (0, \<lparr>offset = 0, flags = 0\<rparr>, []), s2)
    \<and> mounted_on (ram_read 12) (ram_write 12) id (ram_ready 12) sample_sb sample_disk sample_bb sample_ib s2"
proof -
  have "components (cstr ''/a'') = [cstr ''a'']" "\<not> device_path (cstr ''/a'')" "\<not> ends_with_slash (cstr ''/a'')"
    by (simp_all add: components_def device_path_def tty_path_def skip_slashes_def ends_with_slash_def cstr_def)
  then show ?thesis
    using vfs_open_read_kfs [OF ram_block_device sample_mounted sample_ok, where k = "()" and E = kfs_env
        and v = "\<lparr>root_vnode = Some (kvnode () (root_inode sample_sb, 2))\<rparr>" and path = "cstr ''/a''"
        and x = 1 and i = sample_file and data = "[]" and count = 10] sample_leads sample_file_at
    by (simp add: kfs_env_def sample_used)
qed

end
