(* ===== verification/Thread.thy ===== *)
theory Thread
  imports KMemory
begin

unbundle bit_operations_syntax

text \<open>
  Threads and the round-robin scheduler of \<open>kernel/thread/thread.c\<close>. Thread and process structures
  live in stores indexed by their addresses. The allocator is a parameter: the state holds the
  results of the calls of \<open>kmalloc\<close> to come. The switch of register contexts is the recorded call of
  \<open>context_switch\<close>.
\<close>

section \<open>Structures and state\<close>

datatype thread_state =
  THREAD_NEW | THREAD_READY | THREAD_RUNNING | THREAD_BLOCKED | THREAD_WAITING_CHILD | THREAD_DEAD

record thread =
  tid :: u64
  trsp :: u64
  t_process :: u64
  kernel_stack_base :: u64
  kernel_stack_size :: u64
  user_stack_base :: u64
  user_stack_size :: u64
  t_state :: thread_state
  nxt :: u64
  next_waiter :: u64

datatype process_state = PROCESS_RUNNING | PROCESS_TERMINATED | PROCESS_DEAD | PROCESS_ZOMBIE

abbreviation MAX_FDS :: nat where "MAX_FDS \<equiv> 32"

record process =
  pid :: u32
  p_state :: process_state
  pml4_phys :: u64
  fd_table :: "u64 list"
  parent :: u64
  children_head :: u64
  next_sibling :: u64
  exit_status :: u32
  waiter :: u64
  brk_start :: u64
  brk_current :: u64

text \<open>
  The static variables of \<open>thread.c\<close> and \<open>process.c\<close>, the wait queues of the terminals, the stack
  pointer in the task state segment, the context switches so far (old and new thread and the value
  for CR3), the allocator's answers and what was given back to it, and memory.
\<close>

record kstate =
  threads :: "u64 \<Rightarrow> thread"
  procs :: "u64 \<Rightarrow> process"
  cur :: u64
  thead :: u64
  next_tid :: u64
  scheduler_ticks :: u64
  in_scheduler :: bool
  preemption_enabled :: bool
  kernel_process :: u64
  next_pid :: u32
  wait_queue :: "nat \<Rightarrow> u64"
  rsp0 :: u64
  switches :: "(u64 \<times> u64 \<times> u64) list"
  kmallocs :: "nat \<Rightarrow> u64"
  kcalls :: nat
  freed :: "u64 list"
  kmem :: mem

definition ks_kmalloc :: "kstate \<Rightarrow> u64 \<times> kstate" where
  "ks_kmalloc s = (kmallocs s (kcalls s), s\<lparr>kcalls := kcalls s + 1\<rparr>)"

definition ks_kfree :: "u64 \<Rightarrow> kstate \<Rightarrow> kstate" where
  "ks_kfree p s = (if p = 0 then s else s\<lparr>freed := freed s @ [p]\<rparr>)"

definition upd_thread :: "u64 \<Rightarrow> (thread \<Rightarrow> thread) \<Rightarrow> kstate \<Rightarrow> kstate" where
  "upd_thread t f s = s\<lparr>threads := (threads s)(t := f (threads s t))\<rparr>"

section \<open>Creating threads\<close>

definition thread_init :: "kstate \<Rightarrow> kstate outcome" where
  "thread_init s =
     (let (t, s1) = ks_kmalloc s
      in if t = 0 then Inl (Panic ''main_thread != NULL'')
         else Inr ((upd_thread t (\<lambda>r. r\<lparr>tid := 0, trsp := 0, kernel_stack_base := 0, kernel_stack_size := 0,
           user_stack_base := 0, user_stack_size := 0, t_state := THREAD_RUNNING,
           t_process := kernel_process s, nxt := t\<rparr>) s1)\<lparr>cur := t, thead := t\<rparr>))"

definition thread_current :: "kstate \<Rightarrow> u64" where
  "thread_current s = cur s"

text \<open>Pushing 64-bit words on a stack, first to last.\<close>

fun push_words :: "mem \<Rightarrow> u64 \<Rightarrow> u64 list \<Rightarrow> mem \<times> u64" where
  "push_words m sp [] = (m, sp)"
| "push_words m sp (w # ws) = push_words (wr64 m (sp - 8) w) (sp - 8) ws"

text \<open>\<open>while (tail->next != head) tail = tail->next;\<close>\<close>

partial_function (option) find_tail :: "(u64 \<Rightarrow> thread) \<Rightarrow> u64 \<Rightarrow> u64 \<Rightarrow> u64 option" where
  "find_tail T h tail = (if nxt (T tail) = h then Some tail else find_tail T h (nxt (T tail)))"

text \<open>Addresses of the code that a new thread's stack refers to.\<close>

record code_addrs =
  thread_exit_addr :: u64
  thread_start_wrapper_addr :: u64
  user_thread_start_wrapper_addr :: u64
  jump_to_usermode_addr :: u64

abbreviation STACK_SIZE :: u64 where "STACK_SIZE \<equiv> 16384"

text \<open>
  The common body of \<open>thread_create_process\<close> and \<open>thread_create_user\<close>: \<open>frame\<close> are the words pushed on
  the new kernel stack. The new thread goes between the last thread of the ring and its head.
\<close>

definition new_thread :: "u64 list \<Rightarrow> u64 \<Rightarrow> kstate \<Rightarrow> (u64 \<times> kstate) outcome" where
  "new_thread frame process s =
     (let (t, s1) = ks_kmalloc s
      in if t = 0 then Inl (Panic ''t != NULL'')
         else
           (let s2 = (upd_thread t (\<lambda>r. r\<lparr>tid := next_tid s, kernel_stack_size := STACK_SIZE\<rparr>) s1)
                  \<lparr>next_tid := next_tid s + 1\<rparr>;
                (stk, s3) = ks_kmalloc s2
            in if stk = 0 then Inl (Panic ''t->kernel_stack_base != NULL'')
               else
                 (let (m, sp) = push_words (kmem s3) ((stk + STACK_SIZE) AND NOT 0xF) frame;
                      s4 = (upd_thread t (\<lambda>r. r\<lparr>kernel_stack_base := stk, user_stack_size := 0, user_stack_base := 0,
                        trsp := sp, t_state := THREAD_READY, t_process := process\<rparr>) s3)\<lparr>kmem := m\<rparr>
                  in if thead s4 = 0 then Inl OutOfBounds
                     else (case find_tail (threads s4) (thead s4) (thead s4) of
                         None \<Rightarrow> Inl Diverges
                       | Some tail \<Rightarrow>
                           Inr (t, upd_thread t (\<lambda>r. r\<lparr>nxt := thead s4\<rparr>) (upd_thread tail (\<lambda>r. r\<lparr>nxt := t\<rparr>) s4))))))"

definition thread_create_process :: "code_addrs \<Rightarrow> u64 \<Rightarrow> u64 \<Rightarrow> kstate \<Rightarrow> (u64 \<times> kstate) outcome" where
  "thread_create_process C entry_point process =
     new_thread [0, thread_exit_addr C, thread_start_wrapper_addr C, 0, 0, entry_point, 0, 0, 0] process"

definition thread_create :: "code_addrs \<Rightarrow> u64 \<Rightarrow> kstate \<Rightarrow> (u64 \<times> kstate) outcome" where
  "thread_create C entry_point s = thread_create_process C entry_point (kernel_process s) s"

definition thread_create_user :: "code_addrs \<Rightarrow> u64 \<Rightarrow> u64 \<Rightarrow> u64 \<Rightarrow> kstate \<Rightarrow> (u64 \<times> kstate) outcome" where
  "thread_create_user C process rip rsp =
     new_thread [0, thread_exit_addr C, user_thread_start_wrapper_addr C, 0, 0, jump_to_usermode_addr C, rip, rsp, 0]
       process"

section \<open>Reaping\<close>

text \<open>The walk of \<open>tty_remove_waiter\<close> along one wait queue.\<close>

partial_function (option) unlink_waiter :: "(u64 \<Rightarrow> thread) \<Rightarrow> u64 \<Rightarrow> u64 \<Rightarrow> (u64 \<Rightarrow> thread) option" where
  "unlink_waiter T t tw =
     (if tw = 0 \<or> next_waiter (T tw) = 0 then Some T
      else if next_waiter (T tw) = t then Some (T(tw := (T tw)\<lparr>next_waiter := next_waiter (T t)\<rparr>))
      else unlink_waiter T t (next_waiter (T tw)))"

abbreviation MAX_TTYS :: nat where "MAX_TTYS \<equiv> 4"

fun remove_waiter_from :: "nat list \<Rightarrow> u64 \<Rightarrow> kstate \<Rightarrow> kstate option" where
  "remove_waiter_from [] t s = Some s"
| "remove_waiter_from (i # is) t s =
     (if wait_queue s i = t
      then remove_waiter_from is t (s\<lparr>wait_queue := (wait_queue s)(i := next_waiter (threads s t))\<rparr>)
      else (case unlink_waiter (threads s) t (wait_queue s i) of
          None \<Rightarrow> None
        | Some T \<Rightarrow> remove_waiter_from is t (s\<lparr>threads := T\<rparr>)))"

definition tty_remove_waiter :: "u64 \<Rightarrow> kstate \<Rightarrow> kstate option" where
  "tty_remove_waiter t s = remove_waiter_from [0 ..< MAX_TTYS] t s"

text \<open>Giving back a dead thread that is out of the ring.\<close>

definition free_thread :: "u64 \<Rightarrow> kstate \<Rightarrow> kstate option" where
  "free_thread t s =
     (case tty_remove_waiter t (ks_kfree (user_stack_base (threads s t)) (ks_kfree (kernel_stack_base (threads s t)) s)) of
        None \<Rightarrow> None
      | Some s1 \<Rightarrow> Some (ks_kfree t s1))"

partial_function (option) reap_loop :: "u64 \<Rightarrow> u64 \<Rightarrow> u64 \<Rightarrow> kstate \<Rightarrow> kstate option" where
  "reap_loop prev t start s =
     (let next_node = nxt (threads s t)
      in if t_state (threads s t) = THREAD_DEAD \<and> t \<noteq> cur s then
           (let s1 = upd_thread prev (\<lambda>r. r\<lparr>nxt := next_node\<rparr>) s;
                start1 = (if t = thead s then next_node else start);
                s2 = (if t = thead s then s1\<lparr>thead := next_node\<rparr> else s1)
            in case free_thread t s2 of
                 None \<Rightarrow> None
               | Some s3 \<Rightarrow>
                   if t = next_node then Some (s3\<lparr>thead := 0\<rparr>)
                   else if next_node = start1 then Some s3
                   else reap_loop prev next_node start1 s3)
         else if next_node = start then Some s
         else reap_loop t next_node start s)"

definition reap_dead_threads :: "kstate \<Rightarrow> kstate option" where
  "reap_dead_threads s =
     (if thead s = 0 then Some s
      else (case find_tail (threads s) (thead s) (thead s) of
          None \<Rightarrow> None
        | Some temp \<Rightarrow> reap_loop temp (thead s) (thead s) s))"

section \<open>Scheduling\<close>

definition thread_wake_waiter :: "u64 \<Rightarrow> kstate \<Rightarrow> kstate" where
  "thread_wake_waiter t s =
     (if t = 0 then s
      else if t_state (threads s t) = THREAD_WAITING_CHILD then upd_thread t (\<lambda>r. r\<lparr>t_state := THREAD_READY\<rparr>) s
      else s)"

datatype pick = Run u64 | Stay | Stop

partial_function (option) pick_next :: "(u64 \<Rightarrow> thread) \<Rightarrow> u64 \<Rightarrow> u64 \<Rightarrow> pick option" where
  "pick_next T current t =
     (if t_state (T t) = THREAD_READY then Some (Run t)
      else if t = current then
        (if t_state (T current) = THREAD_READY then Some Stay else Some Stop)
      else pick_next T current (nxt (T t)))"

text \<open>\<open>schedule\<close> from the choice of the next thread on.\<close>

definition switch_to :: "u64 \<Rightarrow> kstate \<Rightarrow> kstate" where
  "switch_to t s =
     (let old = cur s;
          s1 = (upd_thread t (\<lambda>r. r\<lparr>t_state := THREAD_RUNNING\<rparr>) s)\<lparr>cur := t, in_scheduler := False\<rparr>;
          s2 = (if kernel_stack_base (threads s1 t) \<noteq> 0
                then s1\<lparr>rsp0 := kernel_stack_base (threads s1 t) + kernel_stack_size (threads s1 t)\<rparr> else s1)
      in if old = t then s2
         else s2\<lparr>switches := switches s2 @ [(old, t,
           if t_process (threads s2 old) \<noteq> t_process (threads s2 t)
           then pml4_phys (procs s2 (t_process (threads s2 t))) else 0)]\<rparr>)"

definition schedule :: "kstate \<Rightarrow> kstate outcome" where
  "schedule s =
     (if in_scheduler s then Inr s
      else (case reap_dead_threads (s\<lparr>in_scheduler := True\<rparr>) of
          None \<Rightarrow> Inl Diverges
        | Some s1 \<Rightarrow>
            (let s2 = (if t_state (threads s1 (cur s1)) = THREAD_RUNNING
                       then upd_thread (cur s1) (\<lambda>r. r\<lparr>t_state := THREAD_READY\<rparr>) s1 else s1)
             in case pick_next (threads s2) (cur s2) (nxt (threads s2 (cur s2))) of
                  None \<Rightarrow> Inl Diverges
                | Some Stay \<Rightarrow> Inr ((upd_thread (cur s2) (\<lambda>r. r\<lparr>t_state := THREAD_RUNNING\<rparr>) s2)\<lparr>in_scheduler := False\<rparr>)
                | Some Stop \<Rightarrow> Inl Halted
                | Some (Run t) \<Rightarrow> Inr (switch_to t s2))))"

definition thread_block_on_process :: "u64 \<Rightarrow> kstate \<Rightarrow> kstate outcome" where
  "thread_block_on_process p s =
     (if p = 0 then Inr s
      else schedule (upd_thread (cur s) (\<lambda>r. r\<lparr>t_state := THREAD_WAITING_CHILD\<rparr>)
        (s\<lparr>procs := (procs s)(p := (procs s p)\<lparr>waiter := cur s\<rparr>)\<rparr>)))"

definition timer_handler :: "kstate \<Rightarrow> kstate outcome" where
  "timer_handler s =
     (let s1 = s\<lparr>scheduler_ticks := scheduler_ticks s + 1\<rparr>
      in if preemption_enabled s1 then schedule s1 else Inr s1)"

definition thread_yield :: "kstate \<Rightarrow> kstate outcome" where
  "thread_yield s = (if cur s = 0 then Inl (Panic ''current != NULL'') else schedule s)"

text \<open>
  A call of \<open>schedule\<close> that must not come back: if it returns without a switch, the assertion behind
  it fails.
\<close>

definition schedule_away :: "string \<Rightarrow> kstate \<Rightarrow> kstate outcome" where
  "schedule_away msg s =
     bindF (schedule s) (\<lambda>s1. if cur s1 = cur s then Inl (Panic msg) else Inr s1)"

definition thread_exit :: "kstate \<Rightarrow> kstate outcome" where
  "thread_exit s =
     (if cur s = 0 then Inl (Panic ''current != NULL'')
      else schedule_away ''thread_exit returned!'' (upd_thread (cur s) (\<lambda>r. r\<lparr>t_state := THREAD_DEAD\<rparr>) s))"

definition schedule_after_exit :: "kstate \<Rightarrow> kstate outcome" where
  "schedule_after_exit s =
     (if cur s = 0 then Inl (Panic ''current != NULL'')
      else schedule_away ''schedule_after_exit returned!'' s)"

partial_function (option) terminate_loop :: "u64 \<Rightarrow> u64 \<Rightarrow> u64 \<Rightarrow> (u64 \<Rightarrow> thread) \<Rightarrow> (u64 \<Rightarrow> thread) option" where
  "terminate_loop proc start t T =
     (let T1 = (if t_process (T t) = proc then T(t := (T t)\<lparr>t_state := THREAD_DEAD\<rparr>) else T)
      in if nxt (T1 t) = start then Some T1 else terminate_loop proc start (nxt (T1 t)) T1)"

definition thread_terminate_process :: "u64 \<Rightarrow> kstate \<Rightarrow> kstate outcome" where
  "thread_terminate_process proc s =
     (if thead s = 0 \<or> proc = 0 then Inr s
      else (case terminate_loop proc (thead s) (thead s) (threads s) of
          None \<Rightarrow> Inl Diverges
        | Some T \<Rightarrow> Inr (s\<lparr>threads := T\<rparr>)))"

section \<open>Waiting for a terminal\<close>

text \<open>What \<open>tty_read_vfs\<close> does when terminal \<open>i\<close> has no complete line.\<close>

definition tty_wait :: "nat \<Rightarrow> kstate \<Rightarrow> kstate outcome" where
  "tty_wait i s =
     schedule ((upd_thread (cur s) (\<lambda>r. r\<lparr>next_waiter := wait_queue s i, t_state := THREAD_BLOCKED\<rparr>) s)
       \<lparr>wait_queue := (wait_queue s)(i := cur s)\<rparr>)"

text \<open>How \<open>tty_receive_char\<close> wakes the threads that wait for a line of terminal \<open>i\<close>.\<close>

partial_function (option) wake_loop :: "(u64 \<Rightarrow> thread) \<Rightarrow> u64 \<Rightarrow> (u64 \<Rightarrow> thread) option" where
  "wake_loop T t =
     (if t = 0 then Some T
      else wake_loop (T(t := (T t)\<lparr>t_state := THREAD_READY, next_waiter := 0\<rparr>)) (next_waiter (T t)))"

definition tty_wake :: "nat \<Rightarrow> kstate \<Rightarrow> kstate outcome" where
  "tty_wake i s =
     (case wake_loop (threads s) (wait_queue s i) of
        None \<Rightarrow> Inl Diverges
      | Some T \<Rightarrow> Inr (s\<lparr>threads := T, wait_queue := (wait_queue s)(i := 0)\<rparr>))"

end
