(* ===== verification/Console.thy ===== *)
theory Console
  imports Kryos_Prelude
begin

unbundle bit_operations_syntax

text \<open>
  The VGA text screen of \<open>kernel/drivers/vga.c\<close> and the virtual terminals of \<open>kernel/fs/vt.c\<close>. The
  static functions of \<open>vt.c\<close> work on one terminal, \<open>vts[vt_num]\<close>, and the screen. A store outside a
  terminal's buffer or through the unset screen pointer is \<open>OutOfBounds\<close>.
\<close>

section \<open>The screen\<close>

abbreviation VGA_WIDTH :: int where "VGA_WIDTH \<equiv> 80"
abbreviation VGA_HEIGHT :: int where "VGA_HEIGHT \<equiv> 25"
abbreviation VGA_CELLS :: nat where "VGA_CELLS \<equiv> 2000"

text \<open>
  \<open>vga_buffer\<close> are the cells it points to (\<open>None\<close> for the NULL pointer); the cursor registers are
  reached through an index and a data port.
\<close>

record vga =
  vga_buffer :: "u16 list option"
  crtc_index :: u8
  crtc :: "u8 \<Rightarrow> u8"

abbreviation VGA_CMD_PORT :: u16 where "VGA_CMD_PORT \<equiv> 0x3D4"
abbreviation VGA_DATA_PORT :: u16 where "VGA_DATA_PORT \<equiv> 0x3D5"

definition vga_outb :: "u16 \<Rightarrow> u8 \<Rightarrow> vga \<Rightarrow> vga" where
  "vga_outb port val g =
     (if port = VGA_CMD_PORT then g\<lparr>crtc_index := val\<rparr>
      else if port = VGA_DATA_PORT then g\<lparr>crtc := (crtc g)(crtc_index g := val)\<rparr> else g)"

definition vga_init :: "u16 list \<Rightarrow> vga \<Rightarrow> vga" where
  "vga_init cells g = g\<lparr>vga_buffer := Some cells\<rparr>"

definition vga_set_cursor :: "int \<Rightarrow> int \<Rightarrow> vga \<Rightarrow> vga" where
  "vga_set_cursor x y g =
     (let pos = (of_int (y * VGA_WIDTH + x) :: u16)
      in vga_outb VGA_DATA_PORT (ucast (drop_bit 8 pos AND 0xFF)) (vga_outb VGA_CMD_PORT 0x0E
           (vga_outb VGA_DATA_PORT (ucast (pos AND 0xFF)) (vga_outb VGA_CMD_PORT 0x0F g))))"

definition cell :: "u8 \<Rightarrow> u8 \<Rightarrow> u16" where
  "cell attr c = push_bit 8 (ucast attr) OR ucast c"

definition vga_putc :: "int \<Rightarrow> int \<Rightarrow> u8 \<Rightarrow> u8 \<Rightarrow> vga \<Rightarrow> vga outcome" where
  "vga_putc x y c color g =
     (if 0 \<le> x \<and> x < VGA_WIDTH \<and> 0 \<le> y \<and> y < VGA_HEIGHT then
        (case vga_buffer g of
           None \<Rightarrow> Inl OutOfBounds
         | Some cells \<Rightarrow> Inr (g\<lparr>vga_buffer := Some (cells[nat (y * VGA_WIDTH + x) := cell color c])\<rparr>))
      else Inr g)"

definition vga_blit :: "u16 list \<Rightarrow> vga \<Rightarrow> vga" where
  "vga_blit buffer g =
     (case vga_buffer g of
        None \<Rightarrow> g
      | Some cells \<Rightarrow> g\<lparr>vga_buffer := Some (foldl (\<lambda>s i. s[i := buffer ! i]) cells [0 ..< VGA_CELLS])\<rparr>)"

section \<open>One terminal\<close>

record vt =
  vbuffer :: "u16 list"
  cursor_x :: int
  cursor_y :: int
  current_attr :: u8
  ansi_state :: int
  ansi_param :: int
  ansi_param2 :: int
  active :: bool

type_synonym shown_vt = "vt \<times> vga"

definition vt_clear :: "vt \<Rightarrow> vt" where
  "vt_clear v = v\<lparr>vbuffer := foldl (\<lambda>b i. b[i := cell (current_attr v) 32]) (vbuffer v) [0 ..< VGA_CELLS],
     cursor_x := 0, cursor_y := 0\<rparr>"

text \<open>The two nested loops copy every row over the row above it.\<close>

definition scroll_row :: "nat \<Rightarrow> u16 list \<Rightarrow> u16 list" where
  "scroll_row y b = foldl (\<lambda>b x. b[(y - 1) * 80 + x := b ! (y * 80 + x)]) b [0 ..< 80]"

definition vt_scroll :: "vt \<Rightarrow> vt" where
  "vt_scroll v =
     (let b = foldl (\<lambda>b y. scroll_row y b) (vbuffer v) [1 ..< 25]
      in v\<lparr>vbuffer := foldl (\<lambda>b x. b[24 * 80 + x := cell (current_attr v) 32]) b [0 ..< 80],
           cursor_y := VGA_HEIGHT - 1\<rparr>)"

definition vt_sync_cursor :: "shown_vt \<Rightarrow> shown_vt" where
  "vt_sync_cursor = (\<lambda>(v, g). (v, if active v then vga_set_cursor (cursor_x v) (cursor_y v) g else g))"

text \<open>\<open>v->buffer[v->cursor_y * VGA_WIDTH + v->cursor_x] = w\<close>\<close>

definition vt_store :: "u16 \<Rightarrow> vt \<Rightarrow> vt outcome" where
  "vt_store w v =
     (let i = cursor_y v * VGA_WIDTH + cursor_x v
      in if 0 \<le> i \<and> i < int VGA_CELLS then Inr (v\<lparr>vbuffer := (vbuffer v)[nat i := w]\<rparr>) else Inl OutOfBounds)"

text \<open>The end of \<open>vt_putc\<close>: wrap at the end of the row, scroll at the end of the screen.\<close>

definition vt_advance :: "shown_vt \<Rightarrow> shown_vt" where
  "vt_advance = (\<lambda>(v, g).
     (let v1 = (if cursor_x v \<ge> VGA_WIDTH then v\<lparr>cursor_x := 0, cursor_y := cursor_y v + 1\<rparr> else v);
          (v2, g2) = (if cursor_y v1 \<ge> VGA_HEIGHT
            then (vt_scroll v1, if active v1 then vga_blit (vbuffer (vt_scroll v1)) g else g) else (v1, g))
      in vt_sync_cursor (v2, g2)))"

definition vt_putc :: "u8 \<Rightarrow> shown_vt \<Rightarrow> shown_vt outcome" where
  "vt_putc c = (\<lambda>(v, g).
     bindF
       (if c = 10 then Inr (v\<lparr>cursor_x := 0, cursor_y := cursor_y v + 1\<rparr>, g)
        else if c = 8 then
          bindF (vt_store (cell (current_attr v) 32)
              (if cursor_x v > 0 then v\<lparr>cursor_x := cursor_x v - 1\<rparr>
               else if cursor_y v > 0 then v\<lparr>cursor_y := cursor_y v - 1, cursor_x := VGA_WIDTH - 1\<rparr> else v))
            (\<lambda>v1. Inr (v1, g))
        else if c = 13 then Inr (v\<lparr>cursor_x := 0\<rparr>, g)
        else
          bindF (vt_store (cell (current_attr v) c) v) (\<lambda>v1.
          bindF (if active v1 then vga_putc (cursor_x v1) (cursor_y v1) c (current_attr v1) g else Inr g) (\<lambda>g1.
          Inr (v1\<lparr>cursor_x := cursor_x v1 + 1\<rparr>, g1))))
       (\<lambda>r. Inr (vt_advance r)))"

section \<open>Escape sequences\<close>

text \<open>Results of \<open>int\<close> arithmetic, with the wrap-around of two's complement.\<close>

definition wrap32 :: "int \<Rightarrow> int" where
  "wrap32 n = sint (of_int n :: 32 word)"

definition ansi_digit :: "u8 \<Rightarrow> vt \<Rightarrow> vt" where
  "ansi_digit c v =
     (let v1 = (if ansi_state v = 2 then v\<lparr>ansi_state := 3\<rparr> else v)
      in if ansi_state v1 = 3 then v1\<lparr>ansi_param := wrap32 (ansi_param v1 * 10 + (uint c - 48))\<rparr>
         else if ansi_state v1 = 4 then v1\<lparr>ansi_param2 := wrap32 (ansi_param2 v1 * 10 + (uint c - 48))\<rparr>
         else v1)"

abbreviation DEFAULT_ATTR :: u8 where "DEFAULT_ATTR \<equiv> 7"

definition ansi_color :: "vt \<Rightarrow> vt" where
  "ansi_color v =
     (if ansi_param v = 0 then v\<lparr>current_attr := DEFAULT_ATTR\<rparr>
      else if 30 \<le> ansi_param v \<and> ansi_param v \<le> 37
      then v\<lparr>current_attr := (current_attr v AND 0xF0) OR ([0, 4, 2, 6, 1, 5, 3, 7] ! nat (ansi_param v - 30))\<rparr>
      else v)"

definition ansi_move :: "vt \<Rightarrow> vt" where
  "ansi_move v =
     (let x = (if ansi_param2 v > 0 then ansi_param2 v - 1 else 0);
          y = (if ansi_param v > 0 then ansi_param v - 1 else 0);
          x1 = (if x < 0 then 0 else x); x2 = (if x1 \<ge> VGA_WIDTH then VGA_WIDTH - 1 else x1);
          y1 = (if y < 0 then 0 else y); y2 = (if y1 \<ge> VGA_HEIGHT then VGA_HEIGHT - 1 else y1)
      in v\<lparr>cursor_x := x2, cursor_y := y2\<rparr>)"

definition vt_parse_ansi :: "u8 \<Rightarrow> shown_vt \<Rightarrow> shown_vt outcome" where
  "vt_parse_ansi c = (\<lambda>(v, g).
     if ansi_state v = 0 then
       (if c = 0x1B then Inr (v\<lparr>ansi_state := 1, ansi_param := 0, ansi_param2 := 0\<rparr>, g) else vt_putc c (v, g))
     else if ansi_state v = 1 then
       (if c = 91 then Inr (v\<lparr>ansi_state := 2\<rparr>, g) else vt_putc c (v\<lparr>ansi_state := 0\<rparr>, g))
     else if ansi_state v = 2 \<or> ansi_state v = 3 \<or> ansi_state v = 4 then
       (if 48 \<le> c \<and> c \<le> 57 then Inr (ansi_digit c v, g)
        else if c = 59 then Inr (v\<lparr>ansi_state := 4\<rparr>, g)
        else if c = 109 then Inr ((ansi_color v)\<lparr>ansi_state := 0\<rparr>, g)
        else if c = 74 then
          (if ansi_param v = 2
           then Inr ((vt_clear v)\<lparr>ansi_state := 0\<rparr>, if active v then vga_blit (vbuffer (vt_clear v)) g else g)
           else Inr (v\<lparr>ansi_state := 0\<rparr>, g))
        else if c = 72 then
          (case vt_sync_cursor (ansi_move v, g) of (v1, g1) \<Rightarrow> Inr (v1\<lparr>ansi_state := 0\<rparr>, g1))
        else Inr (v\<lparr>ansi_state := 0\<rparr>, g))
     else Inr (v, g))"

section \<open>All terminals\<close>

abbreviation MAX_VTS :: nat where "MAX_VTS \<equiv> 4"

record console =
  vts :: "vt list"
  active_vt_idx :: nat
  vgas :: vga
  serial :: "u8 list"

definition vt_init :: "u16 list \<Rightarrow> console \<Rightarrow> console" where
  "vt_init cells c =
     (let vs = map (\<lambda>i. (vt_clear ((vts c ! i)\<lparr>current_attr := DEFAULT_ATTR, active := (i = 0)\<rparr>))\<lparr>ansi_state := 0\<rparr>)
            [0 ..< MAX_VTS]
      in c\<lparr>vts := vs, vgas := vga_set_cursor 0 0 (vga_blit (vbuffer (vs ! 0)) (vga_init cells (vgas c)))\<rparr>)"

definition vt_switch :: "int \<Rightarrow> console \<Rightarrow> console" where
  "vt_switch vt_num c =
     (if vt_num < 0 \<or> vt_num \<ge> int MAX_VTS then c
      else if nat vt_num = active_vt_idx c then c
      else
        (let n = nat vt_num;
             vs1 = (vts c)[active_vt_idx c := (vts c ! active_vt_idx c)\<lparr>active := False\<rparr>];
             vs2 = vs1[n := (vs1 ! n)\<lparr>active := True\<rparr>]
         in c\<lparr>vts := vs2, active_vt_idx := n,
              vgas := vga_set_cursor (cursor_x (vs2 ! n)) (cursor_y (vs2 ! n)) (vga_blit (vbuffer (vs2 ! n)) (vgas c))\<rparr>))"

definition vt_get_active :: "console \<Rightarrow> nat" where
  "vt_get_active c = active_vt_idx c"

text \<open>\<open>serial_puts\<close> stops at the first zero byte.\<close>

definition serial_puts :: "u8 list \<Rightarrow> console \<Rightarrow> console" where
  "serial_puts s c = c\<lparr>serial := serial c @ takeWhile (\<lambda>b. b \<noteq> 0) s\<rparr>"

fun vt_write_loop :: "nat \<Rightarrow> u8 list \<Rightarrow> console \<Rightarrow> console outcome" where
  "vt_write_loop n [] c = Inr c"
| "vt_write_loop n (b # data) c =
     (let c1 = (if b = 8 then serial_puts [8, 32, 8] c else serial_puts [b, 0] c)
      in bindF (vt_parse_ansi b (vts c1 ! n, vgas c1))
           (\<lambda>(v, g). vt_write_loop n data (c1\<lparr>vts := (vts c1)[n := v], vgas := g\<rparr>)))"

definition vt_write :: "int \<Rightarrow> u8 list \<Rightarrow> console \<Rightarrow> console outcome" where
  "vt_write vt_num data c =
     (if vt_num < 0 \<or> vt_num \<ge> int MAX_VTS then Inr c else vt_write_loop (nat vt_num) data c)"

end
