(* ===== verification/TTY.thy ===== *)
theory TTY
  imports Thread Console Vnode
begin

unbundle bit_operations_syntax

text \<open>
  The line discipline of \<open>kernel/fs/tty.c\<close> and the keyboard of \<open>kernel/drivers/ps2.c\<close>, over the virtual
  terminals and the threads. The wait queue of a terminal is in the state of the threads.
\<close>

section \<open>Terminals\<close>

abbreviation TTY_LINE_MAX :: nat where "TTY_LINE_MAX \<equiv> 256"

record tty =
  tbuf :: "u8 list"
  tlen :: int

record keyboard =
  shift_pressed :: bool
  alt_pressed :: bool
  extended_mode :: bool
  raw_buffer :: "u8 list"
  raw_head :: nat
  raw_tail :: nat

record machine =
  con :: console
  ttys :: "tty list"
  ks :: kstate
  kbd :: keyboard

definition tty_init :: "u16 list \<Rightarrow> machine \<Rightarrow> machine" where
  "tty_init cells m = m\<lparr>con := vt_init cells (con m), ttys := map (\<lambda>i. (ttys m ! i)\<lparr>tlen := 0\<rparr>) [0 ..< MAX_TTYS],
     ks := (ks m)\<lparr>wait_queue := \<lambda>i. if i < MAX_TTYS then 0 else wait_queue (ks m) i\<rparr>\<rparr>"

text \<open>The table of operations is a parameter, as for every vnode.\<close>

definition tty_get_vnode :: "'k \<Rightarrow> int \<Rightarrow> 'k vnode option" where
  "tty_get_vnode tty_vnode_ops tty_num =
     (if tty_num < 0 \<or> tty_num \<ge> int MAX_TTYS then None
      else Some \<lparr>ops = Some tty_vnode_ops, fs_private = of_int tty_num, vtype = VNODE_TYPE_FILE\<rparr>)"

definition set_tty :: "nat \<Rightarrow> tty \<Rightarrow> machine \<Rightarrow> machine" where
  "set_tty i t m = m\<lparr>ttys := (ttys m)[i := t]\<rparr>"

definition tty_echo :: "nat \<Rightarrow> u8 list \<Rightarrow> machine \<Rightarrow> machine outcome" where
  "tty_echo i data m = bindF (vt_write (int i) data (con m)) (\<lambda>c. Inr (m\<lparr>con := c\<rparr>))"

text \<open>\<open>t->buf[t->len++] = c\<close>\<close>

definition tty_push :: "u8 \<Rightarrow> tty \<Rightarrow> tty outcome" where
  "tty_push c t =
     (if 0 \<le> tlen t \<and> tlen t < int TTY_LINE_MAX then Inr (t\<lparr>tbuf := (tbuf t)[nat (tlen t) := c], tlen := tlen t + 1\<rparr>)
      else Inl OutOfBounds)"

definition tty_receive_char :: "u8 \<Rightarrow> machine \<Rightarrow> machine outcome" where
  "tty_receive_char c m =
     (let i = vt_get_active (con m); t = ttys m ! i
      in if c = 8 then
           (if tlen t > 0 \<and> tbuf t ! nat (tlen t - 1) \<noteq> 10
            then tty_echo i [8, 32, 8] (set_tty i (t\<lparr>tlen := tlen t - 1\<rparr>) m) else Inr m)
         else if c = 10 then
           bindF (tty_push 10 (if tlen t \<ge> int TTY_LINE_MAX then t\<lparr>tlen := int TTY_LINE_MAX - 1\<rparr> else t)) (\<lambda>t1.
           bindF (tty_echo i [10] (set_tty i t1 m)) (\<lambda>m1.
           bindF (tty_wake i (ks m1)) (\<lambda>k. Inr (m1\<lparr>ks := k\<rparr>))))
         else if tlen t < int TTY_LINE_MAX - 1 then
           bindF (tty_push c t) (\<lambda>t1. tty_echo i [c] (set_tty i t1 m))
         else Inr m)"

text \<open>
  One pass of the loop of \<open>tty_read_vfs\<close>: it returns the bytes of a line, or it has put the current
  thread to sleep, which runs the loop again when it is woken.
\<close>

datatype tty_read = Line "u8 list" | Waiting

definition nl_pos :: "tty \<Rightarrow> nat option" where
  "nl_pos t = find (\<lambda>i. tbuf t ! i = 10) [0 ..< nat (tlen t)]"

definition tty_take :: "nat \<Rightarrow> tty \<Rightarrow> tty" where
  "tty_take to_copy t =
     (let len = tlen t - int to_copy
      in t\<lparr>tlen := len, tbuf := foldl (\<lambda>b i. b[i := b ! (i + to_copy)]) (tbuf t) [0 ..< nat len]\<rparr>)"

definition tty_read_vfs :: "nat \<Rightarrow> nat \<Rightarrow> machine \<Rightarrow> (tty_read \<times> machine) outcome" where
  "tty_read_vfs tty_num count m =
     (let t = ttys m ! tty_num
      in case nl_pos t of
           Some p \<Rightarrow>
             (let to_copy = (if count > p + 1 then p + 1 else count)
              in Inr (Line (take to_copy (tbuf t)), set_tty tty_num (tty_take to_copy t) m))
         | None \<Rightarrow> bindF (tty_wait tty_num (ks m)) (\<lambda>k. Inr (Waiting, m\<lparr>ks := k\<rparr>)))"

definition tty_write_vfs :: "nat \<Rightarrow> u8 list option \<Rightarrow> bool \<Rightarrow> machine \<Rightarrow> (int \<times> nat option \<times> machine) outcome" where
  "tty_write_vfs tty_num buf count_ptr m =
     (case buf of
        None \<Rightarrow> Inr (- EINVAL, None, m)
      | Some data \<Rightarrow>
          if \<not> count_ptr then Inr (- EINVAL, None, m)
          else bindF (tty_echo tty_num data m) (\<lambda>m1. Inr (0, Some (length data), m1)))"

section \<open>The keyboard\<close>

definition scancode_ascii :: "u8 list" where
  "scancode_ascii =
    [0, 27, 49, 50, 51, 52, 53, 54, 55, 56, 57, 48, 45, 61, 8,
     9, 113, 119, 101, 114, 116, 121, 117, 105, 111, 112, 91, 93, 10,
     0, 97, 115, 100, 102, 103, 104, 106, 107, 108, 59, 39, 96, 0,
     92, 122, 120, 99, 118, 98, 110, 109, 44, 46, 47, 0, 42, 0, 32]"

definition scancode_ascii_shift :: "u8 list" where
  "scancode_ascii_shift =
    [0, 27, 33, 64, 35, 36, 37, 94, 38, 42, 40, 41, 95, 43, 8,
     9, 81, 87, 69, 82, 84, 89, 85, 73, 79, 80, 123, 125, 10,
     0, 65, 83, 68, 70, 71, 72, 74, 75, 76, 58, 34, 126, 0,
     124, 90, 88, 67, 86, 66, 78, 77, 60, 62, 63, 0, 42, 0, 32]"

abbreviation RAW_BUF_SIZE :: nat where "RAW_BUF_SIZE \<equiv> 256"

definition raw_store :: "u8 \<Rightarrow> keyboard \<Rightarrow> keyboard" where
  "raw_store scancode k =
     (let h = (raw_head k + 1) mod RAW_BUF_SIZE
      in k\<lparr>raw_buffer := (raw_buffer k)[raw_head k := scancode], raw_head := h,
           raw_tail := (if h = raw_tail k then (raw_tail k + 1) mod RAW_BUF_SIZE else raw_tail k)\<rparr>)"

definition ps2_is_shift_pressed :: "machine \<Rightarrow> bool" where
  "ps2_is_shift_pressed m = shift_pressed (kbd m)"

definition ps2_is_alt_pressed :: "machine \<Rightarrow> bool" where
  "ps2_is_alt_pressed m = alt_pressed (kbd m)"

definition ps2_break :: "u8 \<Rightarrow> keyboard \<Rightarrow> keyboard" where
  "ps2_break scancode k =
     (let make_code = scancode AND 0x7F
      in if make_code = 0x2A \<or> make_code = 0x36 then k\<lparr>shift_pressed := False\<rparr>
         else if make_code = 0x38 then k\<lparr>alt_pressed := False\<rparr> else k)"

definition ps2_make :: "u8 \<Rightarrow> machine \<Rightarrow> machine outcome" where
  "ps2_make scancode m =
     (let k = kbd m
      in if scancode = 0x2A \<or> scancode = 0x36 then Inr (m\<lparr>kbd := k\<lparr>shift_pressed := True\<rparr>\<rparr>)
         else if scancode = 0x38 then Inr (m\<lparr>kbd := k\<lparr>alt_pressed := True\<rparr>\<rparr>)
         else if alt_pressed k \<and> 0x3B \<le> scancode \<and> scancode \<le> 0x3E
         then Inr (m\<lparr>con := vt_switch (uint scancode - 0x3B) (con m)\<rparr>)
         else if unat scancode < length scancode_ascii then
           (let c = (if shift_pressed k then scancode_ascii_shift ! unat scancode else scancode_ascii ! unat scancode)
            in if c \<noteq> 0 then tty_receive_char c m else Inr m)
         else Inr m)"

definition ps2_handle_scancode :: "u8 \<Rightarrow> machine \<Rightarrow> machine outcome" where
  "ps2_handle_scancode scancode m0 =
     (let k = raw_store scancode (kbd m0); m = m0\<lparr>kbd := k\<rparr>
      in if scancode = 0xE0 then Inr (m\<lparr>kbd := k\<lparr>extended_mode := True\<rparr>\<rparr>)
         else if extended_mode k then
           (let k1 = k\<lparr>extended_mode := False\<rparr>
            in Inr (m\<lparr>kbd := (if scancode = 0x38 then k1\<lparr>alt_pressed := True\<rparr>
                 else if scancode = 0xB8 then k1\<lparr>alt_pressed := False\<rparr> else k1)\<rparr>))
         else if scancode AND 0x80 \<noteq> 0 then Inr (m\<lparr>kbd := ps2_break scancode k\<rparr>)
         else ps2_make scancode m)"

text \<open>The interrupt handler, with what the status and data ports return.\<close>

definition keyboard_irq_handler :: "u8 \<Rightarrow> u8 \<Rightarrow> machine \<Rightarrow> machine outcome" where
  "keyboard_irq_handler status data m =
     (if status AND 1 = 0 then Inr m else ps2_handle_scancode data m)"

end
