(* ===== verification/Thread_Ring.thy ===== *)
theory Thread_Ring
  imports Thread
begin

text \<open>
  The linked structures of the scheduler: the circular list of threads through \<open>next\<close>, the wait
  queues of the terminals through \<open>next_waiter\<close>, and what \<open>reap_dead_threads\<close> takes out of them.
\<close>

section \<open>Rings\<close>

text \<open>\<open>xs\<close> are the threads from \<open>a\<close> up to \<open>b\<close> along the \<open>next\<close> pointers.\<close>

fun path :: "(u64 \<Rightarrow> thread) \<Rightarrow> u64 \<Rightarrow> u64 list \<Rightarrow> u64 \<Rightarrow> bool" where
  "path T a [] b \<longleftrightarrow> a = b"
| "path T a (x # xs) b \<longleftrightarrow> a = x \<and> path T (nxt (T x)) xs b"

definition ring :: "(u64 \<Rightarrow> thread) \<Rightarrow> u64 list \<Rightarrow> bool" where
  "ring T xs \<longleftrightarrow> xs \<noteq> [] \<and> path T (hd xs) xs (hd xs) \<and> distinct xs \<and> 0 \<notin> set xs"

lemma path_append: "path T a (xs @ ys) b \<longleftrightarrow> (\<exists>c. path T a xs c \<and> path T c ys b)"
  by (induction xs arbitrary: a) auto

lemma path_cong: "(\<And>x. x \<in> set xs \<Longrightarrow> nxt (T' x) = nxt (T x)) \<Longrightarrow> path T' a xs b = path T a xs b"
  by (induction xs arbitrary: a) auto

lemma path_snoc: "path T a (xs @ [x]) b \<longleftrightarrow> path T a xs x \<and> nxt (T x) = b"
  by (auto simp: path_append)

lemma ring_cong: "(\<And>x. x \<in> set xs \<Longrightarrow> nxt (T' x) = nxt (T x)) \<Longrightarrow> ring T' xs = ring T xs"
  unfolding ring_def using path_cong [of xs T' T "hd xs" "hd xs"] by blast

text \<open>A ring can be read from any of its threads.\<close>

lemma ring_from:
  assumes "ring T (us @ vs)" and "vs \<noteq> []"
  shows "ring T (vs @ us)"
proof (cases us)
  case Nil
  then show ?thesis using assms by simp
next
  case (Cons u us')
  obtain c where c: "path T u us c" "path T c vs u" using assms(1) by (auto simp: ring_def path_append Cons)
  have "c = hd vs" using c(2) assms(2) by (cases vs) auto
  then have "path T (hd vs) (vs @ us) (hd vs)" using c by (auto simp: path_append)
  then show ?thesis using assms by (auto simp: ring_def)
qed

lemma find_tail_path:
  "path T a xs h \<Longrightarrow> xs \<noteq> [] \<Longrightarrow> h \<notin> set (tl xs) \<Longrightarrow> find_tail T h a = Some (last xs)"
proof (induction xs arbitrary: a)
  case (Cons x xs)
  have a: "a = x" "path T (nxt (T x)) xs h" using Cons.prems(1) by simp_all
  show ?case
  proof (cases "xs = []")
    case True
    then show ?thesis using a find_tail.simps [of T h x] by simp
  next
    case False
    have "nxt (T x) \<in> set xs" using a(2) False by (cases xs) auto
    then have ne: "nxt (T x) \<noteq> h" using Cons.prems(3) by auto
    have "find_tail T h (nxt (T x)) = Some (last xs)"
      by (rule Cons.IH [OF a(2) False]) (use Cons.prems(3) in \<open>cases xs; simp\<close>)
    then show ?thesis using ne a(1) False find_tail.simps [of T h x] by simp
  qed
qed simp

lemma ring_tail: "ring T xs \<Longrightarrow> find_tail T (hd xs) (hd xs) = Some (last xs)"
  using find_tail_path [of T "hd xs" xs "hd xs"] by (cases xs) (auto simp: ring_def)

text \<open>Changing the pointer of the last thread of a path.\<close>

lemma path_upd_last:
  assumes "path T a (xs @ [x]) b" and "x \<notin> set xs" and "nxt r = c"
  shows "path (T(x := r)) a (xs @ [x]) c"
proof -
  have "path (T(x := r)) a xs x = path T a xs x" by (rule path_cong) (use assms(2) in auto)
  then show ?thesis using assms by (simp add: path_snoc)
qed

section \<open>Wait queues\<close>

fun queue :: "(u64 \<Rightarrow> thread) \<Rightarrow> u64 \<Rightarrow> u64 list \<Rightarrow> bool" where
  "queue T a [] \<longleftrightarrow> a = 0"
| "queue T a (x # q) \<longleftrightarrow> a = x \<and> x \<noteq> 0 \<and> queue T (next_waiter (T x)) q"

definition waitqs :: "(u64 \<Rightarrow> thread) \<Rightarrow> (nat \<Rightarrow> u64) \<Rightarrow> (nat \<Rightarrow> u64 list) \<Rightarrow> bool" where
  "waitqs T W qs \<longleftrightarrow> (\<forall>i < MAX_TTYS. queue T (W i) (qs i) \<and> distinct (qs i))
     \<and> (\<forall>i < MAX_TTYS. \<forall>j < MAX_TTYS. i \<noteq> j \<longrightarrow> set (qs i) \<inter> set (qs j) = {})"

text \<open>Threads that differ at most in their links.\<close>

definition same_threads :: "(u64 \<Rightarrow> thread) \<Rightarrow> (u64 \<Rightarrow> thread) \<Rightarrow> bool" where
  "same_threads T T' \<longleftrightarrow> (\<forall>a. (T' a)\<lparr>nxt := 0, next_waiter := 0\<rparr> = (T a)\<lparr>nxt := 0, next_waiter := 0\<rparr>)"

lemma same_threadsD:
  assumes "same_threads T T'"
  shows "t_state (T' a) = t_state (T a)" "t_process (T' a) = t_process (T a)"
    "kernel_stack_base (T' a) = kernel_stack_base (T a)" "kernel_stack_size (T' a) = kernel_stack_size (T a)"
    "tid (T' a) = tid (T a)"
proof -
  from assms have "(T' a)\<lparr>nxt := 0, next_waiter := 0\<rparr> = (T a)\<lparr>nxt := 0, next_waiter := 0\<rparr>" by (simp add: same_threads_def)
  then show "t_state (T' a) = t_state (T a)" "t_process (T' a) = t_process (T a)"
    "kernel_stack_base (T' a) = kernel_stack_base (T a)" "kernel_stack_size (T' a) = kernel_stack_size (T a)"
    "tid (T' a) = tid (T a)"
    by (cases "T a"; cases "T' a"; simp)+
qed

lemma same_threads_refl [simp]: "same_threads T T"
  by (simp add: same_threads_def)

lemma same_threads_trans: "same_threads T T1 \<Longrightarrow> same_threads T1 T2 \<Longrightarrow> same_threads T T2"
  by (simp add: same_threads_def)

lemma queue_cong: "(\<And>x. x \<in> set q \<Longrightarrow> next_waiter (T' x) = next_waiter (T x)) \<Longrightarrow> queue T' a q = queue T a q"
  by (induction q arbitrary: a) auto

lemma unlink_waiter_spec:
  assumes "queue T a q" and "distinct q" and "a \<noteq> t"
  shows "\<exists>T'. unlink_waiter T t a = Some T' \<and> same_threads T T' \<and> (\<forall>x. nxt (T' x) = nxt (T x))
    \<and> queue T' a (removeAll t q) \<and> (\<forall>x. x \<notin> set q \<longrightarrow> T' x = T x)"
  using assms
proof (induction q arbitrary: a)
  case Nil
  then show ?case using unlink_waiter.simps [of T t a] by auto
next
  case (Cons x q)
  have a: "a = x" "x \<noteq> 0" "queue T (next_waiter (T x)) q" using Cons.prems by auto
  consider "next_waiter (T x) = 0" | "next_waiter (T x) \<noteq> 0" "next_waiter (T x) = t" | "next_waiter (T x) \<noteq> 0" "next_waiter (T x) \<noteq> t"
    by blast
  then show ?case
  proof cases
    case 1
    then have "q = []" using a(3) by (cases q) auto
    then show ?thesis using 1 a Cons.prems unlink_waiter.simps [of T t x] by auto
  next
    case 2
    then obtain q' where q: "q = t # q'" using a(3) by (cases q) auto
    let ?T = "T(x := (T x)\<lparr>next_waiter := next_waiter (T t)\<rparr>)"
    have "queue ?T (next_waiter (T t)) q'" using a(3) Cons.prems(2) q by (subst queue_cong [of _ _ T]) auto
    moreover have "removeAll t q' = q'" using Cons.prems(2) q by simp
    ultimately show ?thesis
      using 2 a Cons.prems q unlink_waiter.simps [of T t x] by (auto simp: same_threads_def)
  next
    case 3
    from Cons.IH [OF a(3)] Cons.prems(2) 3 obtain T' where
      T': "unlink_waiter T t (next_waiter (T x)) = Some T'" "same_threads T T'" "\<forall>y. nxt (T' y) = nxt (T y)"
        "queue T' (next_waiter (T x)) (removeAll t q)" "\<forall>y. y \<notin> set q \<longrightarrow> T' y = T y" by auto
    moreover have "T' x = T x" using T'(5) Cons.prems(2) by simp
    ultimately show ?thesis using 3 a Cons.prems unlink_waiter.simps [of T t x] by auto
  qed
qed

text \<open>A step changes only links, wait queues and what has been given back.\<close>

definition only_links :: "kstate \<Rightarrow> kstate \<Rightarrow> bool" where
  "only_links s s' \<longleftrightarrow> same_threads (threads s) (threads s')
     \<and> s'\<lparr>threads := threads s, wait_queue := wait_queue s, freed := freed s\<rparr> = s"

lemma only_linksD:
  assumes "only_links s s'"
  shows "same_threads (threads s) (threads s')" "cur s' = cur s" "thead s' = thead s" "procs s' = procs s"
    "in_scheduler s' = in_scheduler s" "switches s' = switches s" "rsp0 s' = rsp0 s"
proof -
  have e: "s'\<lparr>threads := threads s, wait_queue := wait_queue s, freed := freed s\<rparr> = s" using assms by (simp add: only_links_def)
  show "same_threads (threads s) (threads s')" using assms by (simp add: only_links_def)
  show "cur s' = cur s" using arg_cong [OF e, of cur] by simp
  show "thead s' = thead s" using arg_cong [OF e, of thead] by simp
  show "procs s' = procs s" using arg_cong [OF e, of procs] by simp
  show "in_scheduler s' = in_scheduler s" using arg_cong [OF e, of in_scheduler] by simp
  show "switches s' = switches s" using arg_cong [OF e, of switches] by simp
  show "rsp0 s' = rsp0 s" using arg_cong [OF e, of rsp0] by simp
qed

lemma only_links_refl [simp]: "only_links s s"
  by (simp add: only_links_def)

lemma only_links_trans:
  assumes "only_links s s1" and "only_links s1 s2"
  shows "only_links s s2"
proof -
  have "s2\<lparr>threads := threads s, wait_queue := wait_queue s, freed := freed s\<rparr>
      = (s2\<lparr>threads := threads s1, wait_queue := wait_queue s1, freed := freed s1\<rparr>)\<lparr>threads := threads s, wait_queue := wait_queue s, freed := freed s\<rparr>"
    by simp
  also have "\<dots> = s1\<lparr>threads := threads s, wait_queue := wait_queue s, freed := freed s\<rparr>"
    using assms(2) by (simp only: only_links_def)
  also have "\<dots> = s" using assms(1) by (simp only: only_links_def)
  finally show ?thesis using assms same_threads_trans by (auto simp: only_links_def)
qed

lemma only_links_waitq: "only_links s (s\<lparr>wait_queue := W\<rparr>)" "only_links s (ks_kfree p s)"
  by (simp_all add: only_links_def ks_kfree_def)

lemma only_links_threads: "same_threads (threads s) T \<Longrightarrow> only_links s (s\<lparr>threads := T\<rparr>)"
  by (simp add: only_links_def)

lemma remove_waiter_from_spec:
  assumes "waitqs (threads s) (wait_queue s) qs" and "set is \<subseteq> {..< MAX_TTYS}" and "t \<noteq> 0"
  shows "\<exists>s' qs'. remove_waiter_from is t s = Some s' \<and> only_links s s' \<and> (\<forall>x. nxt (threads s' x) = nxt (threads s x))
    \<and> waitqs (threads s') (wait_queue s') qs' \<and> (\<forall>i. set (qs' i) \<subseteq> set (qs i) \<and> (i \<in> set is \<longrightarrow> t \<notin> set (qs' i)))"
  using assms
proof (induction "is" arbitrary: s qs)
  case Nil
  then show ?case by auto
next
  case (Cons i "is")
  let ?qs = "qs(i := removeAll t (qs i))"
  have i: "i < MAX_TTYS" "queue (threads s) (wait_queue s i) (qs i)" "distinct (qs i)"
    using Cons.prems by (auto simp: waitqs_def)
  have dj: "\<forall>j < MAX_TTYS. \<forall>k < MAX_TTYS. j \<noteq> k \<longrightarrow> set (?qs j) \<inter> set (?qs k) = {}"
    using Cons.prems(1) by (auto simp: waitqs_def)
  obtain s1 where s1: "remove_waiter_from (i # is) t s = remove_waiter_from is t s1" "only_links s s1"
      "\<forall>x. nxt (threads s1 x) = nxt (threads s x)" "waitqs (threads s1) (wait_queue s1) ?qs"
  proof (cases "wait_queue s i = t")
    case True
    then obtain q where q: "qs i = t # q" using i(2) Cons.prems(3) by (cases "qs i") auto
    let ?s = "s\<lparr>wait_queue := (wait_queue s)(i := next_waiter (threads s t))\<rparr>"
    have "queue (threads s) (next_waiter (threads s t)) q" "removeAll t q = q" using i q by auto
    then have "waitqs (threads ?s) (wait_queue ?s) ?qs" using Cons.prems(1) dj q by (auto simp: waitqs_def)
    then show ?thesis using that [of ?s] True by (simp add: only_links_waitq)
  next
    case False
    from unlink_waiter_spec [OF i(2,3) False] obtain T where
      T: "unlink_waiter (threads s) t (wait_queue s i) = Some T" "same_threads (threads s) T" "\<forall>x. nxt (T x) = nxt (threads s x)"
        "queue T (wait_queue s i) (removeAll t (qs i))" "\<forall>x. x \<notin> set (qs i) \<longrightarrow> T x = threads s x" by blast
    let ?s = "s\<lparr>threads := T\<rparr>"
    have "queue T (wait_queue s j) (qs j)" if "j < MAX_TTYS" "j \<noteq> i" for j
    proof -
      have "queue T (wait_queue s j) (qs j) = queue (threads s) (wait_queue s j) (qs j)"
        by (rule queue_cong) (use T(5) Cons.prems(1) i(1) that in \<open>fastforce simp: waitqs_def\<close>)
      then show ?thesis using Cons.prems(1) that(1) by (simp add: waitqs_def)
    qed
    then have "waitqs (threads ?s) (wait_queue ?s) ?qs" using Cons.prems(1) dj T(4) by (auto simp: waitqs_def distinct_removeAll)
    then show ?thesis using that [of ?s] False T by (simp add: only_links_threads)
  qed
  from Cons.IH [OF s1(4)] Cons.prems(2,3) obtain s' qs' where
    s': "remove_waiter_from is t s1 = Some s'" "only_links s1 s'" "\<forall>x. nxt (threads s' x) = nxt (threads s1 x)"
      "waitqs (threads s') (wait_queue s') qs'" "\<forall>j. set (qs' j) \<subseteq> set (?qs j) \<and> (j \<in> set is \<longrightarrow> t \<notin> set (qs' j))" by auto
  have "set (qs' j) \<subseteq> set (qs j) \<and> (j \<in> set (i # is) \<longrightarrow> t \<notin> set (qs' j))" for j
    using s'(5) by (cases "j = i") (auto dest: spec [of _ j] split: if_splits)
  then show ?case using s1 s' only_links_trans [OF s1(2) s'(2)] by (intro exI [of _ s'] exI [of _ qs']) auto
qed

lemma free_thread_spec:
  assumes "waitqs (threads s) (wait_queue s) qs" and "t \<noteq> 0"
  shows "\<exists>s' qs'. free_thread t s = Some s' \<and> only_links s s' \<and> (\<forall>x. nxt (threads s' x) = nxt (threads s x))
    \<and> waitqs (threads s') (wait_queue s') qs' \<and> (\<forall>i < MAX_TTYS. set (qs' i) \<subseteq> set (qs i) - {t})"
proof -
  define s0 where "s0 = ks_kfree (user_stack_base (threads s t)) (ks_kfree (kernel_stack_base (threads s t)) s)"
  have s0: "only_links s s0" "threads s0 = threads s" "wait_queue s0 = wait_queue s"
    unfolding s0_def by (blast intro: only_links_waitq only_links_trans) (simp_all add: ks_kfree_def)
  have sub: "set [0 ..< MAX_TTYS] \<subseteq> {..< MAX_TTYS}" by auto
  obtain s1 qs' where s1: "tty_remove_waiter t s0 = Some s1" "only_links s0 s1" "\<forall>x. nxt (threads s1 x) = nxt (threads s x)"
      "waitqs (threads s1) (wait_queue s1) qs'" "\<forall>i. set (qs' i) \<subseteq> set (qs i) \<and> (i \<in> set [0 ..< MAX_TTYS] \<longrightarrow> t \<notin> set (qs' i))"
    using remove_waiter_from_spec [of s0 qs "[0 ..< MAX_TTYS]" t] assms sub s0 unfolding tty_remove_waiter_def by auto
  have "free_thread t s = Some (ks_kfree t s1)" using s1(1) by (simp add: free_thread_def s0_def)
  moreover have "only_links s (ks_kfree t s1)" using only_links_trans [OF only_links_trans [OF s0(1) s1(2)] only_links_waitq(2)] .
  moreover have "threads (ks_kfree t s1) = threads s1" "wait_queue (ks_kfree t s1) = wait_queue s1" by (simp_all add: ks_kfree_def)
  moreover have "\<forall>i < MAX_TTYS. set (qs' i) \<subseteq> set (qs i) - {t}" using s1(5) by force
  ultimately show ?thesis using s1(3,4) by (intro exI [of _ "ks_kfree t s1"] exI [of _ qs']) simp
qed

section \<open>Reaping\<close>

definition alive :: "kstate \<Rightarrow> u64 \<Rightarrow> bool" where
  "alive s t \<longleftrightarrow> t_state (threads s t) \<noteq> THREAD_DEAD \<or> t = cur s"

text \<open>Taking a thread out of a ring, when it is not the first.\<close>

lemma ring_remove:
  assumes "ring T (ks @ t # rest)" and "ks \<noteq> []" and "nxt r = nxt (T t)"
  shows "ring (T(last ks := r)) (ks @ rest)"
proof -
  obtain us where ks: "ks = us @ [last ks]" using assms(2) by (metis append_butlast_last_id)
  obtain c where c: "path T (hd ks) (us @ [last ks]) c" "path T c (t # rest) (hd ks)"
    using assms(1,2) ks by (auto simp: ring_def path_append)
  have d: "last ks \<notin> set us" "last ks \<notin> set rest" using assms(1) ks by (auto simp: ring_def) (metis distinct_append distinct.simps(2) not_distinct_conv_prefix last_in_set disjoint_iff list.set_intros(2) assms(2))+
  have "path (T(last ks := r)) (hd ks) (us @ [last ks]) (nxt (T t))"
    by (rule path_upd_last [OF c(1) d(1) assms(3)])
  moreover have "path (T(last ks := r)) (nxt (T t)) rest (hd ks)"
    using c(2) d(2) by (subst path_cong [of _ _ T]) auto
  ultimately have "path (T(last ks := r)) (hd ks) (ks @ rest) (hd ks)" using ks by (auto simp: path_append)
  then show ?thesis using assms(1,2) by (auto simp: ring_def)
qed

lemma reap_loop_spec:
  assumes "ring (threads s) (ks @ rest)" and "ks \<noteq> []" and "rest \<noteq> []" and "thead s = hd ks"
    and "waitqs (threads s) (wait_queue s) qs"
  shows "\<exists>s' qs'. reap_loop (last ks) (hd rest) (hd ks) s = Some s' \<and> only_links s s'
    \<and> ring (threads s') (ks @ filter (alive s) rest) \<and> waitqs (threads s') (wait_queue s') qs'
    \<and> (\<forall>i < MAX_TTYS. set (qs' i) \<subseteq> set (qs i) \<and> (\<forall>t \<in> set rest. \<not> alive s t \<longrightarrow> t \<notin> set (qs' i)))"
  using assms
proof (induction rest arbitrary: ks s qs)
  case (Cons t rest)
  note R = Cons.prems(1)
  have nx: "nxt (threads s t) = hd (rest @ ks)"
  proof -
    have "path (threads s) (hd ks) (ks @ t # rest) (hd ks)" using R Cons.prems(2) by (simp add: ring_def)
    then have "path (threads s) (nxt (threads s t)) rest (hd ks)" by (auto simp: path_append)
    then show ?thesis using Cons.prems(2) by (cases rest) auto
  qed
  have t0: "t \<noteq> 0" "t \<noteq> hd ks" using R Cons.prems(2) by (auto simp: ring_def)
  have nh: "nxt (threads s t) = hd ks \<longleftrightarrow> rest = []" "nxt (threads s t) \<noteq> t"
    using nx R Cons.prems(2) by (cases rest; auto simp: ring_def)+
  show ?case
  proof (cases "alive s t")
    case True
    then have step: "reap_loop (last ks) t (hd ks) s
        = (if rest = [] then Some s else reap_loop t (nxt (threads s t)) (hd ks) s)"
      using nh(1) reap_loop.simps [of "last ks" t "hd ks" s] by (auto simp: alive_def Let_def)
    show ?thesis
    proof (cases "rest = []")
      case r: True
      then show ?thesis using step True Cons.prems by (intro exI [of _ s] exI [of _ qs]) auto
    next
      case r: False
      from Cons.IH [of s "ks @ [t]" qs] R r Cons.prems(2,4,5) step True nx show ?thesis by auto
    qed
  next
    case False
    define s1 where "s1 = upd_thread (last ks) (\<lambda>r. r\<lparr>nxt := nxt (threads s t)\<rparr>) s"
    have s1: "only_links s s1" "wait_queue s1 = wait_queue s" "thead s1 = thead s" "cur s1 = cur s"
      by (simp_all add: s1_def upd_thread_def only_links_def same_threads_def)
    have r1: "ring (threads s1) (ks @ rest)"
      using ring_remove [OF R Cons.prems(2)] by (simp add: s1_def upd_thread_def)
    have w1: "waitqs (threads s1) (wait_queue s1) qs"
    proof -
      have "queue (threads s1) a q = queue (threads s) a q" for a q by (rule queue_cong) (simp add: s1_def upd_thread_def)
      then show ?thesis using Cons.prems(5) s1(2) by (simp add: waitqs_def)
    qed
    from free_thread_spec [OF w1 t0(1)] obtain s2 qs2 where
      s2: "free_thread t s1 = Some s2" "only_links s1 s2" "\<forall>x. nxt (threads s2 x) = nxt (threads s1 x)"
        "waitqs (threads s2) (wait_queue s2) qs2" "\<forall>i < MAX_TTYS. set (qs2 i) \<subseteq> set (qs i) - {t}" by blast
    have step: "reap_loop (last ks) t (hd ks) s
        = (if rest = [] then Some s2 else reap_loop (last ks) (nxt (threads s t)) (hd ks) s2)"
      using False nh t0(2) Cons.prems(4) s2(1) reap_loop.simps [of "last ks" t "hd ks" s]
      by (auto simp: alive_def Let_def s1_def)
    have l2: "only_links s s2" by (rule only_links_trans [OF s1(1) s2(2)])
    have r2: "ring (threads s2) (ks @ rest)" using r1 s2(3) by (subst ring_cong [of _ _ "threads s1"]) auto
    have al: "alive s2 = alive s" using only_linksD(1,2) [OF l2] by (simp add: fun_eq_iff alive_def same_threadsD)
    show ?thesis
    proof (cases "rest = []")
      case True
      then show ?thesis using step l2 r2 s2 False by (intro exI [of _ s2] exI [of _ qs2]) auto
    next
      case r: False
      have "thead s2 = hd ks" using only_linksD(3) [OF l2] Cons.prems(4) by simp
      from Cons.IH [OF r2 Cons.prems(2) r this s2(4)] obtain s' qs' where
        s': "reap_loop (last ks) (hd rest) (hd ks) s2 = Some s'" "only_links s2 s'" "ring (threads s') (ks @ filter (alive s) rest)"
          "waitqs (threads s') (wait_queue s') qs'"
          "\<forall>i < MAX_TTYS. set (qs' i) \<subseteq> set (qs2 i) \<and> (\<forall>t \<in> set rest. \<not> alive s t \<longrightarrow> t \<notin> set (qs' i))"
        unfolding al by blast
      then show ?thesis
        using step r nx False s2(5) only_links_trans [OF l2 s'(2)]
        by (intro exI [of _ s'] exI [of _ qs']) (auto, blast+)
    qed
  qed
qed simp


text \<open>What \<open>reap_dead_threads\<close> leaves of the ring \<open>xs\<close> that starts at the head.\<close>

definition reaped :: "kstate \<Rightarrow> u64 list \<Rightarrow> u64 list" where
  "reaped s xs = (if alive s (hd xs) then filter (alive s) xs else tl xs)"

lemma reap_dead_threads_spec:
  assumes R: "ring (threads s) xs" and H: "thead s = hd xs" and C: "cur s \<in> set xs"
    and W: "waitqs (threads s) (wait_queue s) qs"
  shows "\<exists>s' qs'. reap_dead_threads s = Some s' \<and> only_links s (s'\<lparr>thead := thead s\<rparr>)
    \<and> ring (threads s') (reaped s xs) \<and> thead s' = hd (reaped s xs) \<and> waitqs (threads s') (wait_queue s') qs'
    \<and> (\<forall>i < MAX_TTYS. set (qs' i) \<subseteq> set (qs i) - (set xs - set (reaped s xs)))"
proof -
  obtain h rest where xs: "xs = h # rest" using R by (cases xs) (auto simp: ring_def)
  have h: "h \<noteq> 0" "h \<notin> set rest" using R xs by (auto simp: ring_def)
  have nx: "nxt (threads s h) = hd (rest @ [h])" using R xs by (cases rest) (auto simp: ring_def)
  have red: "reap_dead_threads s = reap_loop (last xs) h h s"
    using ring_tail [OF R] H h xs by (simp add: reap_dead_threads_def)
  show ?thesis
  proof (cases "alive s h")
    case True
    have step: "reap_loop (last xs) h h s = (if rest = [] then Some s else reap_loop h (hd rest) h s)"
      using True nx h(2) reap_loop.simps [of "last xs" h h s] by (cases rest) (auto simp: alive_def Let_def)
    show ?thesis
    proof (cases "rest = []")
      case r: True
      then show ?thesis using red step True xs R H W by (intro exI [of _ s] exI [of _ qs]) (auto simp: reaped_def)
    next
      case r: False
      from reap_loop_spec [of s "[h]" rest qs] R H W xs r obtain s' qs' where
        s': "reap_loop h (hd rest) h s = Some s'" "only_links s s'" "ring (threads s') (h # filter (alive s) rest)"
          "waitqs (threads s') (wait_queue s') qs'"
          "\<forall>i < MAX_TTYS. set (qs' i) \<subseteq> set (qs i) \<and> (\<forall>t \<in> set rest. \<not> alive s t \<longrightarrow> t \<notin> set (qs' i))" by auto
      have th: "thead s' = h" using only_linksD(3) [OF s'(2)] H xs by simp
      then have "s'\<lparr>thead := thead s\<rparr> = s'" using H xs by (cases s') simp
      then have "only_links s (s'\<lparr>thead := thead s\<rparr>)" using s'(2) by simp
      then show ?thesis using red step r s' th True xs by (intro exI [of _ s'] exI [of _ qs']) (auto simp: reaped_def)
    qed
  next
    case False
    have r: "rest \<noteq> []" using False C xs by (auto simp: alive_def)
    define s1 where "s1 = (upd_thread (last xs) (\<lambda>r. r\<lparr>nxt := nxt (threads s h)\<rparr>) s)\<lparr>thead := hd rest\<rparr>"
    have nr: "nxt (threads s h) = hd rest" "hd rest \<noteq> h" using nx r h(2) by (cases rest; auto)+
    have lr: "last xs = last rest" "rest @ [h] \<noteq> []" using xs r by auto
    have s1: "only_links s (s1\<lparr>thead := thead s\<rparr>)" "wait_queue s1 = wait_queue s"
      by (simp_all add: s1_def upd_thread_def only_links_def same_threads_def)
    have "ring (threads s) (rest @ [h])" using ring_from [of "threads s" "[h]" rest] R xs r by simp
    then have r1: "ring (threads s1) rest"
      using ring_remove [of "threads s" rest h "[]"] r lr(1) by (simp add: s1_def upd_thread_def)
    have w1: "waitqs (threads s1) (wait_queue s1) qs"
    proof -
      have "queue (threads s1) a q = queue (threads s) a q" for a q by (rule queue_cong) (simp add: s1_def upd_thread_def)
      then show ?thesis using W s1(2) by (simp add: waitqs_def)
    qed
    from free_thread_spec [OF w1 h(1)] obtain s2 qs2 where
      s2: "free_thread h s1 = Some s2" "only_links s1 s2" "\<forall>x. nxt (threads s2 x) = nxt (threads s1 x)"
        "waitqs (threads s2) (wait_queue s2) qs2" "\<forall>i < MAX_TTYS. set (qs2 i) \<subseteq> set (qs i) - {h}" by blast
    have step: "reap_loop (last xs) h h s = Some s2"
      using False nr H xs s2(1) reap_loop.simps [of "last xs" h h s]
      by (auto simp: alive_def Let_def s1_def upd_thread_def)
    have r2: "ring (threads s2) rest" using r1 s2(3) by (subst ring_cong [of _ _ "threads s1"]) auto
    have l2: "only_links s (s2\<lparr>thead := thead s\<rparr>)"
    proof -
      have "only_links (s1\<lparr>thead := thead s\<rparr>) (s2\<lparr>thead := thead s\<rparr>)"
        using s2(2) unfolding only_links_def by (cases s1; cases s2; simp)
      then show ?thesis by (rule only_links_trans [OF s1(1)])
    qed
    have "thead s2 = hd rest" using only_linksD(3) [OF s2(2)] by (simp add: s1_def)
    then show ?thesis using red step l2 r2 s2(4,5) False xs
      by (intro exI [of _ s2] exI [of _ qs2]) (auto simp: reaped_def)
  qed
qed

end
