(* ===== verification/Scheduler.thy ===== *)
theory Scheduler
  imports Thread_Ring
begin

text \<open>
  Correctness of the scheduler: the invariant that every operation on threads keeps, the choice of the
  next thread, and that no ready thread starves.
\<close>

section \<open>The scheduler's invariant\<close>

text \<open>
  The threads form one ring from \<open>head\<close>, the current thread is in it, the wait queues of the
  terminals are disjoint lists of threads of the ring, which are BLOCKED or DEAD, and no thread but
  the current one is RUNNING.
\<close>

definition sched_ok :: "kstate \<Rightarrow> u64 list \<Rightarrow> (nat \<Rightarrow> u64 list) \<Rightarrow> bool" where
  "sched_ok s xs qs \<longleftrightarrow> ring (threads s) xs \<and> thead s = hd xs \<and> cur s \<in> set xs
     \<and> waitqs (threads s) (wait_queue s) qs \<and> (\<forall>i < MAX_TTYS. set (qs i) \<subseteq> set xs)
     \<and> (\<forall>t \<in> set xs. t_state (threads s t) = THREAD_RUNNING \<longrightarrow> t = cur s)
     \<and> (\<forall>i < MAX_TTYS. \<forall>t \<in> set (qs i). t_state (threads s t) \<in> {THREAD_BLOCKED, THREAD_DEAD}) \<and> \<not> in_scheduler s"

lemma sched_ok_queue:
  "sched_ok s xs qs \<Longrightarrow> i < MAX_TTYS \<Longrightarrow> t \<in> set (qs i) \<Longrightarrow> t_state (threads s t) \<in> {THREAD_BLOCKED, THREAD_DEAD} \<and> t \<in> set xs"
  unfolding sched_ok_def by blast

lemma cur_reaped: "sched_ok s xs qs \<Longrightarrow> cur s \<in> set (reaped s xs)"
  by (cases xs) (auto simp: sched_ok_def reaped_def alive_def)

lemma set_reaped: "set (reaped s xs) \<subseteq> set xs"
  by (cases xs) (auto simp: reaped_def)

text \<open>Threads that \<open>schedule\<close> may give the processor to.\<close>

definition runnable :: "kstate \<Rightarrow> u64 \<Rightarrow> bool" where
  "runnable s t \<longleftrightarrow> t_state (threads s t) = THREAD_READY \<or> t = cur s \<and> t_state (threads s t) = THREAD_RUNNING"

lemma pick_next_path:
  assumes "path T a (xs @ [c]) b" and "c \<notin> set xs"
  shows "pick_next T c a = Some (case find (\<lambda>t. t_state (T t) = THREAD_READY) (xs @ [c]) of None \<Rightarrow> Stop | Some t \<Rightarrow> Run t)"
  using assms
proof (induction xs arbitrary: a)
  case Nil
  then show ?case using pick_next.simps [of T c c] by simp
next
  case (Cons x xs)
  then show ?case using pick_next.simps [of T c x] by auto
qed


text \<open>
  What \<open>schedule\<close> does after reaping: \<open>t\<close> becomes the running thread, the thread that was running
  becomes READY, and a switch of contexts loads the page table of another process.
\<close>

definition dispatched :: "kstate \<Rightarrow> u64 \<Rightarrow> kstate \<Rightarrow> bool" where
  "dispatched s t s' \<longleftrightarrow> cur s' = t \<and> \<not> in_scheduler s' \<and> procs s' = procs s
     \<and> (\<forall>x. t_state (threads s' x) = (if x = t then THREAD_RUNNING
          else if x = cur s \<and> t_state (threads s x) = THREAD_RUNNING then THREAD_READY else t_state (threads s x)))
     \<and> (\<forall>x. t_process (threads s' x) = t_process (threads s x))
     \<and> rsp0 s' = (if kernel_stack_base (threads s t) = 0 then rsp0 s else kernel_stack_base (threads s t) + kernel_stack_size (threads s t))
     \<and> switches s' = switches s @ (if t = cur s then [] else [(cur s, t,
          if t_process (threads s (cur s)) = t_process (threads s t) then 0 else pml4_phys (procs s (t_process (threads s t))))])"

lemma switch_to_simps:
  "cur (switch_to t s) = t" "thead (switch_to t s) = thead s" "wait_queue (switch_to t s) = wait_queue s"
  "procs (switch_to t s) = procs s" "in_scheduler (switch_to t s) = False"
  "nxt (threads (switch_to t s) x) = nxt (threads s x)"
  "next_waiter (threads (switch_to t s) x) = next_waiter (threads s x)"
  "t_process (threads (switch_to t s) x) = t_process (threads s x)"
  "t_state (threads (switch_to t s) x) = (if x = t then THREAD_RUNNING else t_state (threads s x))"
  by (simp_all add: switch_to_def upd_thread_def Let_def)

lemma switch_to_rsp0: "rsp0 (switch_to t s) = (if kernel_stack_base (threads s t) = 0 then rsp0 s
    else kernel_stack_base (threads s t) + kernel_stack_size (threads s t))"
  by (simp add: switch_to_def upd_thread_def Let_def)

lemma switch_to_switches: "switches (switch_to t s) = switches s @ (if t = cur s then [] else [(cur s, t,
    if t_process (threads s (cur s)) = t_process (threads s t) then 0 else pml4_phys (procs s (t_process (threads s t))))])"
  by (simp add: switch_to_def upd_thread_def Let_def)

lemma find_SomeD: "find P xs = Some t \<Longrightarrow> t \<in> set xs \<and> P t"
  by (induction xs) (auto split: if_splits)

lemma schedule_spec:
  assumes ok: "sched_ok s xs qs" and split: "reaped s xs = us @ cur s # vs"
  shows "case find (runnable s) (vs @ us @ [cur s]) of
      None \<Rightarrow> schedule s = Inl Halted
    | Some t \<Rightarrow> \<exists>s' qs'. schedule s = Inr s' \<and> dispatched s t s' \<and> sched_ok s' (reaped s xs) qs'"
proof -
  let ?s0 = "s\<lparr>in_scheduler := True\<rparr>"
  have "alive ?s0 = alive s" by (simp add: fun_eq_iff alive_def)
  then have rp: "reaped ?s0 xs = reaped s xs" by (simp add: reaped_def)
  from reap_dead_threads_spec [of ?s0 xs qs] ok obtain s1 qs1 where
    s1: "reap_dead_threads ?s0 = Some s1" "only_links ?s0 (s1\<lparr>thead := thead s\<rparr>)" "ring (threads s1) (reaped s xs)"
      "thead s1 = hd (reaped s xs)" "waitqs (threads s1) (wait_queue s1) qs1"
      "\<forall>i < MAX_TTYS. set (qs1 i) \<subseteq> set (qs i) - (set xs - set (reaped s xs))"
    unfolding rp by (auto simp: sched_ok_def)
  note L = only_linksD [OF s1(2), simplified]
  note st = same_threadsD [OF L(1)]
  define s2 where "s2 = (if t_state (threads s1 (cur s1)) = THREAD_RUNNING
    then upd_thread (cur s1) (\<lambda>r. r\<lparr>t_state := THREAD_READY\<rparr>) s1 else s1)"
  have links: "nxt (threads s2 x) = nxt (threads s1 x)" "next_waiter (threads s2 x) = next_waiter (threads s1 x)" for x
    by (simp_all add: s2_def upd_thread_def)
  have state: "t_state (threads s2 x) = (if x = cur s \<and> t_state (threads s x) = THREAD_RUNNING then THREAD_READY
      else t_state (threads s x))" for x
    using L(2) st(1) by (auto simp: s2_def upd_thread_def)
  have rest: "t_process (threads s2 x) = t_process (threads s x)" "kernel_stack_base (threads s2 x) = kernel_stack_base (threads s x)"
    "kernel_stack_size (threads s2 x) = kernel_stack_size (threads s x)" for x
    using st by (simp_all add: s2_def upd_thread_def)
  have s2: "cur s2 = cur s" "thead s2 = hd (reaped s xs)" "wait_queue s2 = wait_queue s1" "procs s2 = procs s"
    "switches s2 = switches s" "rsp0 s2 = rsp0 s"
    using L s1(4) by (simp_all add: s2_def upd_thread_def)
  have run: "(\<lambda>t. t_state (threads s2 t) = THREAD_READY) = runnable s"
    by (auto simp: fun_eq_iff state runnable_def)
  have "ring (threads s2) (reaped s xs)" using s1(3) links(1) by (subst ring_cong [of _ _ "threads s1"]) auto
  then have R: "ring (threads s2) (reaped s xs)" and R2: "ring (threads s2) (cur s # vs @ us)"
    using ring_from [of "threads s2" us "cur s # vs"] split by simp_all
  have p: "path (threads s2) (nxt (threads s2 (cur s))) ((vs @ us) @ [cur s]) (nxt (threads s2 (cur s)))"
    using R2 unfolding path_snoc by (simp add: ring_def)
  have "cur s \<notin> set (vs @ us)" using R2 by (auto simp: ring_def)
  from pick_next_path [OF p this] have pick: "pick_next (threads s2) (cur s2) (nxt (threads s2 (cur s2)))
      = Some (case find (runnable s) (vs @ us @ [cur s]) of None \<Rightarrow> Stop | Some t \<Rightarrow> Run t)"
    by (simp add: run s2(1))
  have sch: "schedule s = (case find (runnable s) (vs @ us @ [cur s]) of None \<Rightarrow> Inl Halted | Some t \<Rightarrow> Inr (switch_to t s2))"
    using ok s1(1) pick by (simp add: schedule_def sched_ok_def s2_def [symmetric] split: option.splits)
  show ?thesis
  proof (cases "find (runnable s) (vs @ us @ [cur s])")
    case None
    then show ?thesis using sch by simp
  next
    case (Some t)
    have t: "t \<in> set (reaped s xs)" using find_SomeD [OF Some] split by auto
    let ?s' = "switch_to t s2"
    have "dispatched s t ?s'"
      unfolding dispatched_def switch_to_simps switch_to_rsp0 switch_to_switches s2 rest state by simp
    moreover have "sched_ok ?s' (reaped s xs) qs1"
    proof -
      have "ring (threads ?s') (reaped s xs)" using R by (subst ring_cong [of _ _ "threads s2"]) (simp_all add: switch_to_simps)
      moreover have "queue (threads ?s') a q = queue (threads s1) a q" for a q by (rule queue_cong) (simp add: switch_to_simps links)
      then have "waitqs (threads ?s') (wait_queue ?s') qs1" using s1(5) by (simp add: waitqs_def switch_to_simps s2)
      moreover have "\<forall>i < MAX_TTYS. set (qs1 i) \<subseteq> set (reaped s xs)" 
      proof (intro allI impI)
        fix i assume i: "i < MAX_TTYS"
        then have "set (qs i) \<subseteq> set xs" using ok by (simp add: sched_ok_def)
        then show "set (qs1 i) \<subseteq> set (reaped s xs)" using s1(6) i by blast
      qed
      moreover have "\<forall>x \<in> set (reaped s xs). t_state (threads ?s' x) = THREAD_RUNNING \<longrightarrow> x = t"
      proof (intro ballI impI)
        fix x assume x: "x \<in> set (reaped s xs)" "t_state (threads ?s' x) = THREAD_RUNNING"
        then have "x \<in> set xs" using set_reaped [of s xs] by blast
        then have "t_state (threads s x) = THREAD_RUNNING \<Longrightarrow> x = cur s" using ok by (simp add: sched_ok_def)
        then show "x = t" using x(2) by (auto simp: switch_to_simps state split: if_splits)
      qed
      moreover have "\<forall>i < MAX_TTYS. \<forall>x \<in> set (qs1 i). t_state (threads ?s' x) \<in> {THREAD_BLOCKED, THREAD_DEAD}"
      proof (intro allI impI ballI)
        fix i x assume i: "i < MAX_TTYS" and x: "x \<in> set (qs1 i)"
        then have "x \<in> set (qs i)" using s1(6) by blast
        then have "t_state (threads s x) \<in> {THREAD_BLOCKED, THREAD_DEAD}" using ok i unfolding sched_ok_def by blast
        then show "t_state (threads ?s' x) \<in> {THREAD_BLOCKED, THREAD_DEAD}"
          using find_SomeD [OF Some] by (auto simp: switch_to_simps state runnable_def)
      qed
      ultimately show ?thesis unfolding sched_ok_def switch_to_simps(1,2,5) s2 using t by blast
    qed
    moreover have "schedule s = Inr ?s'" using sch Some by simp
    ultimately show ?thesis unfolding Some option.case by blast
  qed
qed


section \<open>Every operation keeps the invariant\<close>

lemma schedule_ok:
  assumes "sched_ok s xs qs"
  shows "schedule s = Inl Halted \<or> (\<exists>t s' qs'. schedule s = Inr s' \<and> t \<in> set xs \<and> runnable s t \<and> dispatched s t s'
    \<and> sched_ok s' (reaped s xs) qs')"
proof -
  obtain us vs where "reaped s xs = us @ cur s # vs" using cur_reaped [OF assms] by (meson split_list)
  note sp = schedule_spec [OF assms this] and eq = this
  show ?thesis
  proof (cases "find (runnable s) (vs @ us @ [cur s])")
    case None
    then show ?thesis using sp by simp
  next
    case (Some t)
    then have "t \<in> set xs" "runnable s t" using find_SomeD [OF Some] eq set_reaped [of s xs] by auto
    then show ?thesis using sp unfolding Some option.case by blast
  qed
qed

lemma schedule_keeps: "sched_ok s xs qs \<Longrightarrow> schedule s = Inr s' \<Longrightarrow> \<exists>xs' qs'. sched_ok s' xs' qs'"
  using schedule_ok [of s xs qs] by auto

text \<open>A change of thread structures that keeps the links.\<close>

lemma sched_ok_upd:
  assumes "sched_ok s xs qs" and "\<And>x. nxt (T x) = nxt (threads s x)" and "\<And>x. next_waiter (T x) = next_waiter (threads s x)"
    and "\<And>x. t_state (T x) = THREAD_RUNNING \<Longrightarrow> t_state (threads s x) = THREAD_RUNNING"
    and "\<And>x. t_state (threads s x) \<in> {THREAD_BLOCKED, THREAD_DEAD} \<Longrightarrow> t_state (T x) \<in> {THREAD_BLOCKED, THREAD_DEAD}"
  shows "sched_ok (s\<lparr>threads := T\<rparr>) xs qs"
proof -
  have "ring T xs = ring (threads s) xs" by (rule ring_cong) (rule assms(2))
  moreover have "queue T a q = queue (threads s) a q" for a q by (rule queue_cong) (rule assms(3))
  then have "waitqs T (wait_queue s) qs = waitqs (threads s) (wait_queue s) qs" by (simp add: waitqs_def)
  moreover have "\<forall>i < MAX_TTYS. \<forall>t \<in> set (qs i). t_state (T t) \<in> {THREAD_BLOCKED, THREAD_DEAD}"
    using assms(1,5) unfolding sched_ok_def by blast
  moreover have "\<forall>t \<in> set xs. t_state (T t) = THREAD_RUNNING \<longrightarrow> t = cur s"
    using assms(1,4) unfolding sched_ok_def by blast
  ultimately show ?thesis using assms(1) unfolding sched_ok_def by simp
qed

lemma sched_ok_other [simp]:
  "sched_ok (s\<lparr>procs := P\<rparr>) xs qs = sched_ok s xs qs" "sched_ok (s\<lparr>scheduler_ticks := k\<rparr>) xs qs = sched_ok s xs qs"
  "sched_ok (s\<lparr>kmem := m\<rparr>) xs qs = sched_ok s xs qs" "sched_ok (s\<lparr>next_tid := k\<rparr>) xs qs = sched_ok s xs qs"
  "sched_ok (s\<lparr>kcalls := n\<rparr>) xs qs = sched_ok s xs qs"
  by (simp_all add: sched_ok_def)

lemma thread_exit_ok:
  assumes "sched_ok s xs qs"
  shows "thread_exit s = Inl Halted \<or> (\<exists>s' xs' qs'. thread_exit s = Inr s' \<and> cur s' \<noteq> cur s \<and> sched_ok s' xs' qs')"
proof -
  let ?s = "upd_thread (cur s) (\<lambda>r. r\<lparr>t_state := THREAD_DEAD\<rparr>) s"
  have ok: "sched_ok ?s xs qs" unfolding upd_thread_def by (rule sched_ok_upd [OF assms]) (auto split: if_splits)
  have "cur s \<noteq> 0" using assms by (auto simp: sched_ok_def ring_def)
  then have e: "thread_exit s = schedule_away ''thread_exit returned!'' ?s" by (simp add: thread_exit_def)
  have c: "cur ?s = cur s" "\<not> runnable ?s (cur s)" by (simp_all add: upd_thread_def runnable_def)
  from schedule_ok [OF ok] show ?thesis
  proof (elim disjE exE conjE)
    fix t s' qs' assume "schedule ?s = Inr s'" "runnable ?s t" "dispatched ?s t s'" "sched_ok s' (reaped ?s xs) qs'"
    moreover from this have "cur s' \<noteq> cur s" using c by (auto simp: dispatched_def)
    ultimately show ?thesis using e c by (auto simp: schedule_away_def)
  qed (simp add: e schedule_away_def)
qed


lemma thread_wake_waiter_ok:
  assumes "sched_ok s xs qs"
  shows "sched_ok (thread_wake_waiter t s) xs qs"
proof -
  have "sched_ok (upd_thread t (\<lambda>r. r\<lparr>t_state := THREAD_READY\<rparr>) s) xs qs" if "t_state (threads s t) = THREAD_WAITING_CHILD"
    unfolding upd_thread_def by (rule sched_ok_upd [OF assms]) (use that in \<open>auto split: if_splits\<close>)
  then show ?thesis using assms by (simp add: thread_wake_waiter_def)
qed

text \<open>The walk over the ring that marks the threads of a process.\<close>

lemma terminate_loop_path:
  assumes "path T a xs h" and "xs \<noteq> []" and "distinct xs" and "h \<notin> set (tl xs)"
  shows "terminate_loop p h a T = Some (\<lambda>x. if x \<in> set xs \<and> t_process (T x) = p then (T x)\<lparr>t_state := THREAD_DEAD\<rparr> else T x)"
  using assms
proof (induction xs arbitrary: a T)
  case (Cons x xs)
  define T1 where "T1 = (if t_process (T x) = p then T(x := (T x)\<lparr>t_state := THREAD_DEAD\<rparr>) else T)"
  have T1: "nxt (T1 y) = nxt (T y)" for y by (simp add: T1_def)
  have a: "a = x" "path T1 (nxt (T x)) xs h" using Cons.prems(1) T1 path_cong [of xs T1 T] by simp_all
  have un: "terminate_loop p h x T = (if nxt (T x) = h then Some T1 else terminate_loop p h (nxt (T x)) T1)"
    using terminate_loop.simps [of p h x T] T1 by (simp add: T1_def Let_def)
  show ?case
  proof (cases "xs = []")
    case True
    then show ?thesis using a un Cons.prems(1) by (auto simp: T1_def fun_eq_iff)
  next
    case False
    then obtain y ys where xs: "xs = y # ys" by (cases xs) auto
    have "nxt (T x) \<noteq> h" using a(2) Cons.prems(4) xs by auto
    moreover have "terminate_loop p h (nxt (T x)) T1
        = Some (\<lambda>z. if z \<in> set xs \<and> t_process (T1 z) = p then (T1 z)\<lparr>t_state := THREAD_DEAD\<rparr> else T1 z)"
      by (rule Cons.IH [OF a(2) False]) (use Cons.prems xs in auto)
    moreover have "(\<lambda>z. if z \<in> set xs \<and> t_process (T1 z) = p then (T1 z)\<lparr>t_state := THREAD_DEAD\<rparr> else T1 z)
        = (\<lambda>z. if z \<in> set (x # xs) \<and> t_process (T z) = p then (T z)\<lparr>t_state := THREAD_DEAD\<rparr> else T z)"
      using Cons.prems(3) by (auto simp: T1_def fun_eq_iff)
    ultimately show ?thesis using un a(1) by simp
  qed
qed simp

lemma thread_terminate_process_spec:
  assumes ok: "sched_ok s xs qs" and p: "p \<noteq> 0"
  shows "thread_terminate_process p s = Inr (s\<lparr>threads := \<lambda>x. if x \<in> set xs \<and> t_process (threads s x) = p
    then (threads s x)\<lparr>t_state := THREAD_DEAD\<rparr> else threads s x\<rparr>)"
proof -
  have R: "xs \<noteq> []" "path (threads s) (hd xs) xs (hd xs)" "distinct xs" "0 \<notin> set xs" "thead s = hd xs"
    using ok by (auto simp: sched_ok_def ring_def)
  have "hd xs \<notin> set (tl xs)" "hd xs \<noteq> 0" using R by (cases xs; auto)+
  then show ?thesis using terminate_loop_path [OF R(2,1,3)] R(5) p by (simp add: thread_terminate_process_def)
qed

lemma thread_terminate_process_ok:
  assumes ok: "sched_ok s xs qs"
  shows "\<exists>s'. thread_terminate_process p s = Inr s' \<and> sched_ok s' xs qs"
proof (cases "p = 0")
  case True
  then show ?thesis using ok by (simp add: thread_terminate_process_def)
next
  case False
  let ?T = "\<lambda>x. if x \<in> set xs \<and> t_process (threads s x) = p then (threads s x)\<lparr>t_state := THREAD_DEAD\<rparr> else threads s x"
  have "sched_ok (s\<lparr>threads := ?T\<rparr>) xs qs" by (rule sched_ok_upd [OF ok]) (auto split: if_splits)
  then show ?thesis unfolding thread_terminate_process_spec [OF ok False] by blast
qed

text \<open>Waiting and waking. A thread that waits runs when it asks for it.\<close>

lemma thread_block_on_process_ok:
  assumes ok: "sched_ok s xs qs" and run: "t_state (threads s (cur s)) = THREAD_RUNNING"
  shows "thread_block_on_process p s = Inl Halted
    \<or> (\<exists>s' xs' qs'. thread_block_on_process p s = Inr s' \<and> sched_ok s' xs' qs')"
proof (cases "p = 0")
  case True
  then show ?thesis using ok by (auto simp: thread_block_on_process_def)
next
  case False
  let ?s = "s\<lparr>procs := (procs s)(p := (procs s p)\<lparr>waiter := cur s\<rparr>)\<rparr>"
  let ?s1 = "upd_thread (cur s) (\<lambda>r. r\<lparr>t_state := THREAD_WAITING_CHILD\<rparr>) ?s"
  have "sched_ok ?s xs qs" using ok by simp
  then have "sched_ok ?s1 xs qs" unfolding upd_thread_def
    by (rule sched_ok_upd) (use run in \<open>auto split: if_splits\<close>)
  from schedule_ok [OF this] False show ?thesis by (auto simp: thread_block_on_process_def)
qed

lemma tty_wait_ok:
  assumes ok: "sched_ok s xs qs" and run: "t_state (threads s (cur s)) = THREAD_RUNNING" and i: "i < MAX_TTYS"
  shows "tty_wait i s = Inl Halted \<or> (\<exists>s' xs' qs'. tty_wait i s = Inr s' \<and> sched_ok s' xs' qs')"
proof -
  define s1 where "s1 = (upd_thread (cur s) (\<lambda>r. r\<lparr>next_waiter := wait_queue s i, t_state := THREAD_BLOCKED\<rparr>) s)
    \<lparr>wait_queue := (wait_queue s)(i := cur s)\<rparr>"
  let ?qs = "qs(i := cur s # qs i)"
  have out: "cur s \<notin> set (qs j)" if "j < MAX_TTYS" for j
    using sched_ok_queue [OF ok that] run by fastforce
  have T: "nxt (threads s1 x) = nxt (threads s x)" "x \<noteq> cur s \<Longrightarrow> threads s1 x = threads s x"
    "threads s1 (cur s) = (threads s (cur s))\<lparr>next_waiter := wait_queue s i, t_state := THREAD_BLOCKED\<rparr>"
    "cur s1 = cur s" "thead s1 = thead s" "in_scheduler s1 = in_scheduler s" "wait_queue s1 = (wait_queue s)(i := cur s)" for x
    by (simp_all add: s1_def upd_thread_def)
  have q: "queue (threads s1) a (qs j) = queue (threads s) a (qs j)" if "j < MAX_TTYS" for a j
    by (rule queue_cong) (use out [OF that] T(2) in metis)
  have c: "cur s \<in> set xs" "cur s \<noteq> 0" using ok by (auto simp: sched_ok_def ring_def)
  have W: "waitqs (threads s) (wait_queue s) qs" using ok by (simp add: sched_ok_def)
  have "waitqs (threads s1) (wait_queue s1) ?qs"
    unfolding waitqs_def
  proof (intro conjI allI impI)
    fix j assume j: "j < MAX_TTYS"
    show "queue (threads s1) (wait_queue s1 j) (?qs j)" using W j q c(2) T by (simp add: waitqs_def)
    show "distinct (?qs j)" using W j out by (simp add: waitqs_def)
    fix k assume "k < MAX_TTYS" "j \<noteq> k"
    then show "set (?qs j) \<inter> set (?qs k) = {}" using W j out by (auto simp: waitqs_def)
  qed
  moreover have "ring (threads s1) xs" using ok T(1) by (subst ring_cong [of _ _ "threads s"]) (auto simp: sched_ok_def)
  moreover have st: "t_state (threads s1 x) = (if x = cur s then THREAD_BLOCKED else t_state (threads s x))" for x
    using T(2,3) by simp
  have "\<forall>x \<in> set xs. t_state (threads s1 x) = THREAD_RUNNING \<longrightarrow> x = cur s" using ok by (simp add: st sched_ok_def)
  moreover have "\<forall>j < MAX_TTYS. set (?qs j) \<subseteq> set xs" using ok c(1) unfolding sched_ok_def by simp
  moreover have "\<forall>j < MAX_TTYS. \<forall>x \<in> set (?qs j). t_state (threads s1 x) \<in> {THREAD_BLOCKED, THREAD_DEAD}"
    using ok unfolding sched_ok_def st by simp
  moreover have "\<not> in_scheduler s" "thead s = hd xs" using ok by (simp_all add: sched_ok_def)
  ultimately have "sched_ok s1 xs ?qs" unfolding sched_ok_def T(4-6) using c(1) by blast
  from schedule_ok [OF this] show ?thesis by (auto simp: tty_wait_def s1_def)
qed


lemma wake_loop_queue:
  assumes "queue T a q" and "distinct q"
  shows "wake_loop T a = Some (\<lambda>x. if x \<in> set q then (T x)\<lparr>t_state := THREAD_READY, next_waiter := 0\<rparr> else T x)"
  using assms
proof (induction q arbitrary: a T)
  case Nil
  then show ?case using wake_loop.simps [of T 0] by simp
next
  case (Cons x q)
  let ?T = "T(x := (T x)\<lparr>t_state := THREAD_READY, next_waiter := 0\<rparr>)"
  have a: "a = x" "x \<noteq> 0" "x \<notin> set q" "distinct q" using Cons.prems by auto
  have "queue ?T (next_waiter (T x)) q" using Cons.prems a(3) by (subst queue_cong [of _ _ T]) auto
  note Cons.IH [OF this a(4)]
  moreover have "wake_loop T a = wake_loop ?T (next_waiter (T x))" using a wake_loop.simps [of T x] by simp
  moreover have "(\<lambda>y. if y \<in> set q then (?T y)\<lparr>t_state := THREAD_READY, next_waiter := 0\<rparr> else ?T y)
      = (\<lambda>y. if y \<in> set (x # q) then (T y)\<lparr>t_state := THREAD_READY, next_waiter := 0\<rparr> else T y)"
    using a(3) by (auto simp: fun_eq_iff)
  ultimately show ?case by (simp only:)
qed

lemma tty_wake_ok:
  assumes ok: "sched_ok s xs qs" and i: "i < MAX_TTYS"
  shows "\<exists>s'. tty_wake i s = Inr s' \<and> sched_ok s' xs (qs(i := []))
    \<and> (\<forall>t \<in> set (qs i). t_state (threads s' t) = THREAD_READY)"
proof -
  have W: "waitqs (threads s) (wait_queue s) qs" using ok by (simp add: sched_ok_def)
  then have q: "queue (threads s) (wait_queue s i) (qs i)" "distinct (qs i)" using i by (simp_all add: waitqs_def)
  define T where "T = (\<lambda>x. if x \<in> set (qs i) then (threads s x)\<lparr>t_state := THREAD_READY, next_waiter := 0\<rparr> else threads s x)"
  let ?s = "s\<lparr>threads := T, wait_queue := (wait_queue s)(i := 0)\<rparr>"
  have "tty_wake i s = Inr ?s" using wake_loop_queue [OF q] by (simp add: tty_wake_def T_def)
  moreover have "sched_ok ?s xs (qs(i := []))"
  proof -
    have "queue T a (qs j) = queue (threads s) a (qs j)" if "j < MAX_TTYS" "j \<noteq> i" for a j
    proof (rule queue_cong)
      fix x assume "x \<in> set (qs j)"
      then have "x \<notin> set (qs i)" using W that i unfolding waitqs_def by blast
      then show "next_waiter (T x) = next_waiter (threads s x)" by (simp add: T_def)
    qed
    then have "waitqs T ((wait_queue s)(i := 0)) (qs(i := []))" using W by (simp add: waitqs_def)
    moreover have "ring T xs = ring (threads s) xs" by (rule ring_cong) (simp add: T_def)
    moreover have "\<forall>x \<in> set xs. t_state (T x) = THREAD_RUNNING \<longrightarrow> x = cur s" using ok by (simp add: T_def sched_ok_def)
    moreover have "\<forall>j < MAX_TTYS. \<forall>x \<in> set ((qs(i := [])) j). t_state (T x) \<in> {THREAD_BLOCKED, THREAD_DEAD}"
    proof (intro allI impI ballI)
      fix j x assume j: "j < MAX_TTYS" and x: "x \<in> set ((qs(i := [])) j)"
      then have x': "x \<in> set (qs j)" "j \<noteq> i" by (auto split: if_splits)
      then have "x \<notin> set (qs i)" using W j i unfolding waitqs_def by blast
      then show "t_state (T x) \<in> {THREAD_BLOCKED, THREAD_DEAD}" using sched_ok_queue [OF ok j x'(1)] by (simp add: T_def)
    qed
    moreover have "\<forall>j < MAX_TTYS. set ((qs(i := [])) j) \<subseteq> set xs" using ok unfolding sched_ok_def by simp
    ultimately show ?thesis using ok unfolding sched_ok_def by simp
  qed
  moreover have "\<forall>t \<in> set (qs i). t_state (threads ?s t) = THREAD_READY" by (simp add: T_def)
  ultimately show ?thesis by blast
qed

text \<open>A new thread joins the ring behind its last thread.\<close>

lemma ring_extend:
  assumes "ring T xs" and "t \<notin> set xs" and "t \<noteq> 0" and "nxt r = t" and "nxt r' = hd xs"
  shows "ring (T(last xs := r, t := r')) (xs @ [t])"
proof -
  obtain us where xs: "xs = us @ [last xs]" using assms(1) by (metis append_butlast_last_id ring_def)
  have ne: "xs \<noteq> []" "last xs \<noteq> t" "hd (xs @ [t]) = hd xs" using assms(1,2) by (auto simp: ring_def)
  have "path T (hd xs) (us @ [last xs]) (hd xs)" using assms(1) xs by (simp add: ring_def)
  moreover have "last xs \<notin> set us" using assms(1) xs by (metis distinct_append disjoint_insert(1) list.simps(15) ring_def)
  ultimately have "path (T(last xs := r)) (hd xs) xs t" using path_upd_last assms(4) xs by metis
  moreover have "path (T(last xs := r, t := r')) (hd xs) xs t = path (T(last xs := r)) (hd xs) xs t"
    by (rule path_cong) (use assms(2) in auto)
  ultimately have "path (T(last xs := r, t := r')) (hd xs) (xs @ [t]) (hd xs)" using assms(5) by (simp add: path_snoc)
  then show ?thesis using assms(1,2,3) ne by (simp add: ring_def)
qed

lemma new_thread_ok:
  assumes ok: "sched_ok s xs qs" and t: "kmallocs s (kcalls s) = t" "t \<notin> set xs" "t \<noteq> 0" and stk: "kmallocs s (kcalls s + 1) \<noteq> 0"
  shows "\<exists>s'. new_thread frame p s = Inr (t, s') \<and> sched_ok s' (xs @ [t]) qs \<and> t_state (threads s' t) = THREAD_READY
    \<and> t_process (threads s' t) = p \<and> tid (threads s' t) = next_tid s \<and> (\<forall>x. x \<noteq> t \<longrightarrow> t_state (threads s' x) = t_state (threads s x))"
proof -
  have R: "ring (threads s) xs" "thead s = hd xs" using ok by (simp_all add: sched_ok_def)
  have hd: "hd xs \<noteq> 0" "last xs \<noteq> t" using R t(2) by (cases xs; auto simp: ring_def)+
  obtain m sp where ms: "push_words (kmem s) ((kmallocs s (kcalls s + 1) + STACK_SIZE) AND NOT 0xF) frame = (m, sp)" by fastforce
  define n where "n = (threads s t)\<lparr>tid := next_tid s, kernel_stack_size := STACK_SIZE, kernel_stack_base := kmallocs s (kcalls s + 1),
    user_stack_size := 0, user_stack_base := 0, trsp := sp, t_state := THREAD_READY, t_process := p\<rparr>"
  define T where "T = (threads s)(last xs := (threads s (last xs))\<lparr>nxt := t\<rparr>, t := n\<lparr>nxt := hd xs\<rparr>)"
  define s' where "s' = s\<lparr>kcalls := kcalls s + 2, next_tid := next_tid s + 1, kmem := m, threads := T\<rparr>"
  have "ring ((threads s)(t := n)) xs = ring (threads s) xs" by (rule ring_cong) (use t(2) in auto)
  then have "find_tail ((threads s)(t := n)) (hd xs) (hd xs) = Some (last xs)" using ring_tail R(1) by blast
  then have "new_thread frame p s = Inr (t, s')"
    using t stk hd ms R(2)
    by (simp add: new_thread_def ks_kmalloc_def upd_thread_def Let_def s'_def T_def n_def fun_upd_twist)
  moreover have "sched_ok s' (xs @ [t]) qs"
  proof -
    have W: "waitqs (threads s) (wait_queue s) qs" using ok by (simp add: sched_ok_def)
    have old: "next_waiter (T x) = next_waiter (threads s x)" "t_state (T x) = t_state (threads s x)" if "x \<noteq> t" for x
      using that by (simp_all add: T_def)
    have notin: "x \<noteq> t" if "i < MAX_TTYS" "x \<in> set (qs i)" for i x using sched_ok_queue [OF ok that] t(2) by auto
    have "queue T a (qs i) = queue (threads s) a (qs i)" if "i < MAX_TTYS" for i a
      by (rule queue_cong) (use notin [OF that] old(1) in blast)
    then have "waitqs T (wait_queue s) qs" using W by (simp add: waitqs_def)
    moreover have "ring T (xs @ [t])" unfolding T_def by (rule ring_extend [OF R(1) t(2,3)]) simp_all
    moreover have "\<forall>x \<in> set (xs @ [t]). t_state (T x) = THREAD_RUNNING \<longrightarrow> x = cur s"
      using ok old(2) by (auto simp: sched_ok_def T_def n_def)
    moreover have "\<forall>i < MAX_TTYS. \<forall>x \<in> set (qs i). t_state (T x) \<in> {THREAD_BLOCKED, THREAD_DEAD}"
      using sched_ok_queue [OF ok] notin old(2) by metis
    moreover have "hd (xs @ [t]) = hd xs" using R(1) by (simp add: ring_def)
    moreover have "\<forall>i < MAX_TTYS. set (qs i) \<subseteq> set (xs @ [t])" using sched_ok_queue [OF ok] by auto
    moreover have "cur s \<in> set (xs @ [t])" "\<not> in_scheduler s" using ok by (auto simp: sched_ok_def)
    moreover have "threads s' = T" "wait_queue s' = wait_queue s" "thead s' = thead s" "cur s' = cur s" "in_scheduler s' = in_scheduler s"
      by (simp_all add: s'_def)
    ultimately show ?thesis unfolding sched_ok_def using R(2) by (simp only:) blast
  qed
  moreover have "t_state (threads s' t) = THREAD_READY" "t_process (threads s' t) = p" "tid (threads s' t) = next_tid s"
    "\<forall>x. x \<noteq> t \<longrightarrow> t_state (threads s' x) = t_state (threads s x)"
    by (simp_all add: s'_def T_def n_def)
  ultimately show ?thesis by blast
qed


section \<open>Reachable states\<close>

definition linked :: "kstate \<Rightarrow> u64 set" where
  "linked s = {t. \<exists>xs. ring (threads s) xs \<and> hd xs = thead s \<and> t \<in> set xs}"

text \<open>
  The operations on threads. The allocator returns memory that no thread of the ring occupies; a
  thread that asks to wait is running; the terminals are those of \<open>ttys\<close>.
\<close>

inductive sched_step :: "code_addrs \<Rightarrow> kstate \<Rightarrow> kstate \<Rightarrow> bool" for C where
  create: "kmallocs s (kcalls s) \<notin> linked s \<Longrightarrow> thread_create_process C e p s = Inr (t, s') \<Longrightarrow> sched_step C s s'"
| create_user: "kmallocs s (kcalls s) \<notin> linked s \<Longrightarrow> thread_create_user C p rip rsp s = Inr (t, s') \<Longrightarrow> sched_step C s s'"
| yield: "thread_yield s = Inr s' \<Longrightarrow> sched_step C s s'"
| tick: "timer_handler s = Inr s' \<Longrightarrow> sched_step C s s'"
| exit: "thread_exit s = Inr s' \<Longrightarrow> sched_step C s s'"
| after_exit: "schedule_after_exit s = Inr s' \<Longrightarrow> sched_step C s s'"
| terminate: "thread_terminate_process p s = Inr s' \<Longrightarrow> sched_step C s s'"
| wake: "sched_step C s (thread_wake_waiter t s)"
| block: "t_state (threads s (cur s)) = THREAD_RUNNING \<Longrightarrow> thread_block_on_process p s = Inr s' \<Longrightarrow> sched_step C s s'"
| wait: "t_state (threads s (cur s)) = THREAD_RUNNING \<Longrightarrow> i < MAX_TTYS \<Longrightarrow> tty_wait i s = Inr s' \<Longrightarrow> sched_step C s s'"
| line: "i < MAX_TTYS \<Longrightarrow> tty_wake i s = Inr s' \<Longrightarrow> sched_step C s s'"

inductive reachable :: "code_addrs \<Rightarrow> kstate \<Rightarrow> bool" for C where
  init: "thread_init s = Inr s' \<Longrightarrow> \<not> in_scheduler s \<Longrightarrow> wait_queue s = (\<lambda>_. 0) \<Longrightarrow> reachable C s'"
| step: "reachable C s \<Longrightarrow> sched_step C s s' \<Longrightarrow> reachable C s'"

lemma thread_init_ok:
  assumes "thread_init s = Inr s'" and "\<not> in_scheduler s" and "wait_queue s = (\<lambda>_. 0)"
  shows "sched_ok s' [kmallocs s (kcalls s)] (\<lambda>_. [])"
  using assms by (auto simp: thread_init_def ks_kmalloc_def upd_thread_def Let_def sched_ok_def ring_def waitqs_def split: if_splits)

lemma new_thread_mallocs:
  assumes "new_thread frame p s = Inr (t, s')"
  shows "kmallocs s (kcalls s) \<noteq> 0" "kmallocs s (kcalls s + 1) \<noteq> 0"
proof -
  show 1: "kmallocs s (kcalls s) \<noteq> 0" using assms by (auto simp: new_thread_def ks_kmalloc_def)
  show "kmallocs s (kcalls s + 1) \<noteq> 0"
    using assms 1 by (auto simp: new_thread_def ks_kmalloc_def upd_thread_def Let_def split: if_splits)
qed

lemma new_thread_keeps:
  assumes ok: "sched_ok s xs qs" and fresh: "kmallocs s (kcalls s) \<notin> linked s" and new: "new_thread frame p s = Inr (t, s')"
  shows "\<exists>xs' qs'. sched_ok s' xs' qs'"
proof -
  have "kmallocs s (kcalls s) \<notin> set xs" using fresh ok by (auto simp: linked_def sched_ok_def)
  from new_thread_ok [OF ok refl this new_thread_mallocs [OF new], of frame p] new show ?thesis by fastforce
qed

lemma timer_handler_keeps:
  assumes ok: "sched_ok s xs qs" and "timer_handler s = Inr s'"
  shows "\<exists>xs' qs'. sched_ok s' xs' qs'"
proof -
  have "sched_ok (s\<lparr>scheduler_ticks := scheduler_ticks s + 1\<rparr>) xs qs" using ok by simp
  from schedule_keeps [OF this] this assms(2) show ?thesis
    by (cases "preemption_enabled s") (force simp: timer_handler_def Let_def)+
qed

lemma sched_step_ok:
  assumes "sched_step C s s'" and ok: "sched_ok s xs qs"
  shows "\<exists>xs' qs'. sched_ok s' xs' qs'"
  using assms(1)
proof cases
  case (create e p t)
  then show ?thesis using new_thread_keeps [OF ok] unfolding thread_create_process_def by blast
next
  case (create_user p rip rsp t)
  then show ?thesis using new_thread_keeps [OF ok] unfolding thread_create_user_def by blast
next
  case yield
  then have "schedule s = Inr s'" by (auto simp: thread_yield_def split: if_splits)
  then show ?thesis by (rule schedule_keeps [OF ok])
next
  case tick
  then show ?thesis by (rule timer_handler_keeps [OF ok])
next
  case exit
  then show ?thesis using thread_exit_ok [OF ok] by auto
next
  case after_exit
  then have "schedule s = Inr s'"
    by (cases "schedule s") (auto simp: schedule_after_exit_def schedule_away_def split: if_splits)
  then show ?thesis by (rule schedule_keeps [OF ok])
next
  case (terminate p)
  then show ?thesis using thread_terminate_process_ok [OF ok, of p] by auto
next
  case (wake t)
  then show ?thesis using thread_wake_waiter_ok [OF ok] by blast
next
  case (block p)
  then show ?thesis using thread_block_on_process_ok [OF ok block(1), of p] by auto
next
  case (wait i)
  then show ?thesis using tty_wait_ok [OF ok wait(1,2)] by auto
next
  case (line i)
  then show ?thesis using tty_wake_ok [OF ok line(1)] by auto
qed

lemma reachable_ok: "reachable C s \<Longrightarrow> \<exists>xs qs. sched_ok s xs qs"
proof (induction rule: reachable.induct)
  case (init s s')
  then show ?case using thread_init_ok by blast
next
  case (step s s')
  then show ?case using sched_step_ok by blast
qed

text \<open>A ring is determined by its first thread.\<close>

lemma path_unique: "path T a xs h \<Longrightarrow> path T a ys h \<Longrightarrow> h \<notin> set xs \<Longrightarrow> h \<notin> set ys \<Longrightarrow> xs = ys"
proof (induction xs arbitrary: a ys)
  case Nil
  then show ?case by (cases ys) auto
next
  case (Cons x xs)
  then show ?case by (cases ys) auto
qed

lemma ring_unique: "ring T xs \<Longrightarrow> ring T ys \<Longrightarrow> hd xs = hd ys \<Longrightarrow> xs = ys"
  using path_unique [of T _ "tl xs" "hd xs" "tl ys"] by (cases xs; cases ys) (auto simp: ring_def)

lemma sched_ok_linked:
  assumes "sched_ok s xs qs"
  shows "linked s = set xs"
proof -
  have r: "ring (threads s) xs" and h: "thead s = hd xs" using assms unfolding sched_ok_def by blast+
  then show ?thesis unfolding linked_def h using ring_unique [OF _ r] by blast
qed

section \<open>Every ready thread runs\<close>

fun yield_n :: "nat \<Rightarrow> kstate \<Rightarrow> kstate outcome" where
  "yield_n 0 s = Inr s"
| "yield_n (Suc n) s = bindF (thread_yield s) (yield_n n)"

lemma sched_ok_cur: "sched_ok s xs qs \<Longrightarrow> cur s \<noteq> 0 \<and> distinct xs"
  by (auto simp: sched_ok_def ring_def)

text \<open>Reaping keeps the order in which the threads follow the current one.\<close>

lemma reaped_order:
  assumes "xs = us @ c # vs" and "distinct xs" and "c = cur s" and "alive s t"
  shows "\<exists>us' vs' Q. reaped s xs = us' @ c # vs' \<and> vs' @ us' = filter Q (vs @ us) \<and> Q t"
proof (cases "alive s (hd xs)")
  case True
  then have "reaped s xs = filter (alive s) us @ c # filter (alive s) vs" using assms by (simp add: reaped_def alive_def)
  moreover have "filter (alive s) vs @ filter (alive s) us = filter (alive s) (vs @ us)" by simp
  ultimately show ?thesis using assms(4) by blast
next
  case False
  then obtain u us' where us: "us = u # us'" using assms(1,3) by (cases us) (auto simp: alive_def)
  have "u \<noteq> t" using False us assms(1,4) by auto
  moreover have "filter (\<lambda>x. x \<noteq> u) vs = vs" "filter (\<lambda>x. x \<noteq> u) us' = us'"
    using assms(1,2) us by (auto simp: filter_id_conv)
  then have "filter (\<lambda>x. x \<noteq> u) (vs @ us) = vs @ us'" using us by simp
  moreover have "reaped s xs = us' @ c # vs" using False us assms(1) by (simp add: reaped_def)
  ultimately show ?thesis by (intro exI [of _ us'] exI [of _ vs] exI [of _ "\<lambda>x. x \<noteq> u"]) simp
qed

text \<open>The order after another thread of the ring.\<close>

lemma order_shift:
  assumes "xs = us @ c # vs" and "vs @ us = as @ u # bs"
  shows "\<exists>us' vs'. xs = us' @ u # vs' \<and> vs' @ us' = bs @ c # as"
proof -
  from assms(2) consider p where "vs = as @ u # p" "bs = p @ us" | q where "us = q @ u # bs" "as = vs @ q"
    by (auto simp: append_eq_append_conv2 append_eq_Cons_conv Cons_eq_append_conv)
  then show ?thesis
  proof cases
    case 1
    then have "xs = (us @ c # as) @ u # p" "p @ us @ c # as = bs @ c # as" using assms(1) by simp_all
    then show ?thesis by blast
  next
    case 2
    then have "xs = q @ u # (bs @ c # vs)" "(bs @ c # vs) @ q = bs @ c # as" using assms(1) by simp_all
    then show ?thesis by blast
  qed
qed

lemma find_upto:
  assumes "P t"
  shows "\<exists>u. find P (as @ t # bs) = Some u \<and> (u = t \<or> (\<exists>as1 as2. as = as1 @ u # as2))"
  using assms
proof (induction as)
  case (Cons a as)
  then show ?case by (cases "P a") (fastforce intro: exI [of _ "[]"] simp: Cons_eq_append_conv)+
qed simp

lemma ready_thread_runs:
  assumes "sched_ok s xs qs" and "xs = us @ cur s # vs" and "vs @ us = as @ t # bs" and "t_state (threads s t) = THREAD_READY"
  shows "\<exists>n s'. n \<le> length as + 1 \<and> yield_n n s = Inr s' \<and> cur s' = t"
  using assms
proof (induction as arbitrary: s xs qs us vs bs rule: length_induct)
  case (1 as)
  note ok = 1(2)
  have al: "alive s t" and rn: "runnable s t" using 1(5) by (simp_all add: alive_def runnable_def)
  have nc: "cur s \<noteq> 0" "distinct xs" using sched_ok_cur [OF ok] by simp_all
  obtain us' vs' Q where r: "reaped s xs = us' @ cur s # vs'" "vs' @ us' = filter Q (vs @ us)" "Q t"
    using reaped_order [OF 1(3) nc(2) refl al] by blast
  define as' bs' where "as' = filter Q as" and "bs' = filter Q bs"
  have ord: "vs' @ us' = as' @ t # bs'" using r(2,3) 1(4) by (simp add: as'_def bs'_def)
  obtain u where u: "find (runnable s) (as' @ t # bs' @ [cur s]) = Some u" "u = t \<or> (\<exists>as1 as2. as' = as1 @ u # as2)"
    using find_upto [of "runnable s" t as' "bs' @ [cur s]"] rn by blast
  have "find (runnable s) (vs' @ us' @ [cur s]) = Some u" using u(1) ord by (metis append.assoc append_Cons)
  with schedule_spec [OF ok r(1)] obtain s' qs' where
    s': "schedule s = Inr s'" "dispatched s u s'" "sched_ok s' (reaped s xs) qs'" by auto
  have y: "thread_yield s = Inr s'" "cur s' = u" using s' nc(1) by (simp_all add: thread_yield_def dispatched_def)
  show ?case
  proof (cases "u = t")
    case True
    then have "yield_n 1 s = Inr s'" using y by simp
    then show ?thesis using y True by (intro exI [of _ 1]) auto
  next
    case False
    then obtain as1 as2 where as1: "as' = as1 @ u # as2" using u(2) by blast
    have "length as' \<le> length as" by (simp add: as'_def)
    then have shorter: "length as2 < length as" using as1 by simp
    have st: "t_state (threads s' t) = THREAD_READY"
      using s'(2) False 1(5) by (simp add: dispatched_def)
    obtain us2 vs2 where sh: "reaped s xs = us2 @ u # vs2" "vs2 @ us2 = (as2 @ t # bs') @ cur s # as1"
      using order_shift [OF r(1), of as1 u "as2 @ t # bs'"] ord as1 by auto
    obtain n s2 where n: "n \<le> length as2 + 1" "yield_n n s' = Inr s2" "cur s2 = t"
      using 1(1) [rule_format, OF shorter s'(3), of us2 vs2 "bs' @ cur s # as1"] sh y(2) st by auto
    have "yield_n (Suc n) s = Inr s2" using y(1) n(2) by simp
    then show ?thesis using n shorter by (intro exI [of _ "Suc n"] exI [of _ s2]) simp
  qed
qed

text \<open>
  C29. In every state that the operations on threads reach, the threads form one ring that holds the
  current thread, the wait queues of the terminals are disjoint lists of threads of that ring that
  are blocked or dead, and at most the current thread is RUNNING. From such a state the scheduler
  never runs off a pointer or loops for ever: it returns with a RUNNING thread of the ring as the current
  one, or halts the machine because no thread is ready; and a thread that exits never runs on.
\<close>

theorem scheduler_invariant:
  assumes "reachable C s"
  shows "\<exists>xs qs. sched_ok s xs qs
    \<and> (schedule s = Inl Halted \<or> (\<exists>s'. schedule s = Inr s' \<and> cur s' \<in> set xs \<and> t_state (threads s' (cur s')) = THREAD_RUNNING))
    \<and> (thread_exit s = Inl Halted \<or> (\<exists>s'. thread_exit s = Inr s' \<and> cur s' \<noteq> cur s))"
proof -
  from reachable_ok [OF assms] obtain xs qs where ok: "sched_ok s xs qs" by blast
  have "schedule s = Inl Halted \<or> (\<exists>s'. schedule s = Inr s' \<and> cur s' \<in> set xs \<and> t_state (threads s' (cur s')) = THREAD_RUNNING)"
    using schedule_ok [OF ok] by (auto simp: dispatched_def)
  then show ?thesis using ok thread_exit_ok [OF ok] by blast
qed

text \<open>A machine that has booted, created one thread and not yet switched to it.\<close>

definition boot_state :: kstate where
  "boot_state = \<lparr>threads = \<lambda>_. \<lparr>tid = 0, trsp = 0, t_process = 0, kernel_stack_base = 0, kernel_stack_size = 0,
       user_stack_base = 0, user_stack_size = 0, t_state = THREAD_NEW, nxt = 0, next_waiter = 0\<rparr>,
     procs = \<lambda>_. \<lparr>pid = 0, p_state = PROCESS_RUNNING, pml4_phys = 4096, fd_table = replicate MAX_FDS 0, parent = 0,
       children_head = 0, next_sibling = 0, exit_status = 0, waiter = 0, brk_start = 0, brk_current = 0\<rparr>,
     cur = 0, thead = 0, next_tid = 1, scheduler_ticks = 0, in_scheduler = False, preemption_enabled = False,
     kernel_process = 64, next_pid = 1, wait_queue = \<lambda>_. 0, rsp0 = 0, switches = [], kmallocs = \<lambda>n. 4096 * (of_nat n + 1),
     kcalls = 0, freed = [], kmem = \<lambda>_. 0\<rparr>"

definition sample_code :: code_addrs where
  "sample_code = \<lparr>thread_exit_addr = 1, thread_start_wrapper_addr = 2, user_thread_start_wrapper_addr = 3, jump_to_usermode_addr = 4\<rparr>"

definition sample_init :: kstate where
  "sample_init = projr (thread_init boot_state)"

definition sample_two :: kstate where
  "sample_two = snd (projr (thread_create sample_code 5 sample_init))"

lemma sample_init_ok: "thread_init boot_state = Inr sample_init" "sched_ok sample_init [4096] (\<lambda>_. [])"
  "kcalls sample_init = 1" "kmallocs sample_init = (\<lambda>n. 4096 * (of_nat n + 1))" "t_state (threads sample_init 4096) = THREAD_RUNNING"
  "cur sample_init = 4096"
proof -
  show e: "thread_init boot_state = Inr sample_init"
    by (simp add: sample_init_def thread_init_def ks_kmalloc_def boot_state_def Let_def)
  from thread_init_ok [OF e] show "sched_ok sample_init [4096] (\<lambda>_. [])" by (simp add: boot_state_def)
  show "kcalls sample_init = 1" "kmallocs sample_init = (\<lambda>n. 4096 * (of_nat n + 1))" "t_state (threads sample_init 4096) = THREAD_RUNNING"
    "cur sample_init = 4096"
    by (simp_all add: sample_init_def thread_init_def ks_kmalloc_def boot_state_def Let_def upd_thread_def)
qed

lemma sample_two_ok: "thread_create sample_code 5 sample_init = Inr (8192, sample_two)" "sched_ok sample_two [4096, 8192] (\<lambda>_. [])"
  "t_state (threads sample_two 8192) = THREAD_READY" "t_state (threads sample_two 4096) = THREAD_RUNNING"
proof -
  have *: "kmallocs sample_init (kcalls sample_init) = 8192" "(8192 :: u64) \<notin> set [4096]" "(8192 :: u64) \<noteq> 0"
    "kmallocs sample_init (kcalls sample_init + 1) \<noteq> 0" by (simp_all add: sample_init_ok)
  obtain s where s: "thread_create sample_code 5 sample_init = Inr (8192, s)" "sched_ok s ([4096] @ [8192]) (\<lambda>_. [])"
    "t_state (threads s 8192) = THREAD_READY" "\<forall>x. x \<noteq> 8192 \<longrightarrow> t_state (threads s x) = t_state (threads sample_init x)"
    using new_thread_ok [OF sample_init_ok(2) *] unfolding thread_create_def thread_create_process_def by blast
  then have "sample_two = s" by (simp add: sample_two_def)
  then show "thread_create sample_code 5 sample_init = Inr (8192, sample_two)" "sched_ok sample_two [4096, 8192] (\<lambda>_. [])"
    "t_state (threads sample_two 8192) = THREAD_READY" "t_state (threads sample_two 4096) = THREAD_RUNNING"
    using s sample_init_ok(5) by simp_all
qed

lemma sample_two_reachable: "reachable sample_code sample_two"
proof -
  have "reachable sample_code sample_init"
    by (rule reachable.init [OF sample_init_ok(1)]) (simp_all add: boot_state_def)
  moreover have "sched_step sample_code sample_init sample_two"
  proof (rule sched_step.create)
    show "kmallocs sample_init (kcalls sample_init) \<notin> linked sample_init"
      unfolding sched_ok_linked [OF sample_init_ok(2)] by (simp add: sample_init_ok)
    show "thread_create_process sample_code 5 (kernel_process sample_init) sample_init = Inr (8192, sample_two)"
      using sample_two_ok(1) by (simp add: thread_create_def)
  qed
  ultimately show ?thesis by (rule reachable.step)
qed

lemma sample_two_cur: "cur sample_two = 4096"
  using sample_two_ok(2,4) by (auto simp: sched_ok_def)

theorem scheduler_invariant_witness:
  "reachable sample_code sample_two \<and> (\<exists>xs qs. sched_ok sample_two xs qs
    \<and> (schedule sample_two = Inl Halted
       \<or> (\<exists>s'. schedule sample_two = Inr s' \<and> cur s' \<in> set xs \<and> t_state (threads s' (cur s')) = THREAD_RUNNING))
    \<and> (thread_exit sample_two = Inl Halted \<or> (\<exists>s'. thread_exit sample_two = Inr s' \<and> cur s' \<noteq> cur sample_two)))"
  using scheduler_invariant [OF sample_two_reachable] sample_two_reachable by blast

text \<open>
  C28. The scheduler is round robin. It first takes the dead threads out of the ring (only the head, if
  the head is dead). Of the threads that follow the current one in the ring, with the current one last,
  the first that can run gets the processor: it becomes the one RUNNING thread, the thread that was
  running becomes READY, the stack for interrupts and the page table are those of the new thread, and
  nothing else of any thread's state changes. The machine halts only if no thread can run.
\<close>

theorem schedule_round_robin:
  assumes "sched_ok s xs qs" and "reaped s xs = us @ cur s # vs"
  shows "case find (runnable s) (vs @ us @ [cur s]) of
      None \<Rightarrow> schedule s = Inl Halted
    | Some t \<Rightarrow> \<exists>s' qs'. schedule s = Inr s' \<and> dispatched s t s' \<and> sched_ok s' (reaped s xs) qs'"
  by (rule schedule_spec [OF assms])

lemma sample_two_reaped: "reaped sample_two [4096, 8192] = [4096, 8192]"
  by (simp add: reaped_def alive_def sample_two_ok)

theorem schedule_round_robin_witness:
  "sched_ok sample_two [4096, 8192] (\<lambda>_. []) \<and> reaped sample_two [4096, 8192] = [] @ cur sample_two # [8192]
   \<and> (\<exists>s' qs'. schedule sample_two = Inr s' \<and> dispatched sample_two 8192 s' \<and> sched_ok s' [4096, 8192] qs')"
  using schedule_round_robin [OF sample_two_ok(2), of "[]" "[8192]"] sample_two_ok
  by (simp add: sample_two_reaped sample_two_cur runnable_def)

text \<open>
  C30. No ready thread starves: a READY thread of the ring becomes the current thread after at most as
  many calls of \<open>thread_yield\<close> as the ring has threads, whatever threads are ready before it and
  whatever dead threads are reaped in between.
\<close>

theorem ready_thread_scheduled:
  assumes "sched_ok s xs qs" and "t \<in> set xs" and "t_state (threads s t) = THREAD_READY"
  shows "\<exists>n s'. n \<le> length xs \<and> yield_n n s = Inr s' \<and> cur s' = t"
proof (cases "t = cur s")
  case True
  then show ?thesis by (intro exI [of _ 0]) simp
next
  case False
  obtain us vs where xs: "xs = us @ cur s # vs" using assms(1) unfolding sched_ok_def by (meson split_list)
  then have "t \<in> set (vs @ us)" using assms(2) False by auto
  then obtain as bs where ord: "vs @ us = as @ t # bs" by (meson split_list)
  have "length as + 1 \<le> length (vs @ us)" unfolding ord by simp
  then have "length as + 1 \<le> length xs" using xs by simp
  moreover obtain n s' where "n \<le> length as + 1" "yield_n n s = Inr s'" "cur s' = t"
    using ready_thread_runs [OF assms(1) xs ord assms(3)] by blast
  ultimately show ?thesis by (intro exI [of _ n] exI [of _ s']) simp
qed

theorem ready_thread_scheduled_witness:
  "sched_ok sample_two [4096, 8192] (\<lambda>_. []) \<and> t_state (threads sample_two 8192) = THREAD_READY
   \<and> (\<exists>n s'. n \<le> 2 \<and> yield_n n sample_two = Inr s' \<and> cur s' = 8192)"
  using ready_thread_scheduled [OF sample_two_ok(2), of 8192] sample_two_ok by (simp add: numeral_2_eq_2)

end
