(* ===== verification/Console_Correct.thy ===== *)
theory Console_Correct
  imports Console
begin

unbundle bit_operations_syntax

text \<open>
  Correctness of terminal output: the invariant of the terminals and the screen, that no write leaves the
  screen, and when the screen shows the active terminal.
\<close>

section \<open>The loops over cells\<close>

lemma foldl_update:
  "m \<le> length xs \<Longrightarrow> foldl (\<lambda>b i. b[i := f i]) xs [0 ..< m] = map f [0 ..< m] @ drop m xs"
proof (induction m)
  case (Suc m)
  then have "drop m xs = xs ! m # drop (Suc m) xs" by (simp add: Cons_nth_drop_Suc)
  then show ?case using Suc by (simp add: list_update_append)
qed simp

lemma length_foldl_update: "length (foldl (\<lambda>b i. b[g i := f b i]) xs is) = length xs"
  by (induction "is" arbitrary: xs) simp_all

lemma vga_blit_cells: "vga_buffer g = Some cells \<Longrightarrow> length cells = VGA_CELLS \<Longrightarrow> length b = VGA_CELLS
  \<Longrightarrow> vga_blit b g = g\<lparr>vga_buffer := Some b\<rparr>"
  using foldl_update [of VGA_CELLS cells "(!) b"] map_nth [of b] by (simp add: vga_blit_def)

lemma vt_clear_fields [simp]:
  "cursor_x (vt_clear v) = 0" "cursor_y (vt_clear v) = 0" "active (vt_clear v) = active v" "ansi_state (vt_clear v) = ansi_state v"
  "length (vbuffer (vt_clear v)) = length (vbuffer v)"
  by (simp_all add: vt_clear_def length_foldl_update)

lemma length_scroll_rows: "length (foldl (\<lambda>b y. scroll_row y b) b ys) = length b"
  by (induction ys arbitrary: b) (simp_all add: scroll_row_def length_foldl_update)

lemma vt_scroll_fields [simp]:
  "cursor_x (vt_scroll v) = cursor_x v" "cursor_y (vt_scroll v) = 24" "active (vt_scroll v) = active v"
  "ansi_state (vt_scroll v) = ansi_state v" "length (vbuffer (vt_scroll v)) = length (vbuffer v)"
  by (simp_all add: vt_scroll_def Let_def length_foldl_update length_scroll_rows)

section \<open>The invariant of a terminal and of the screen\<close>

definition vt_ok :: "vt \<Rightarrow> bool" where
  "vt_ok v \<longleftrightarrow> length (vbuffer v) = VGA_CELLS \<and> 0 \<le> cursor_x v \<and> cursor_x v < VGA_WIDTH
     \<and> 0 \<le> cursor_y v \<and> cursor_y v < VGA_HEIGHT \<and> ansi_state v \<in> {0 .. 4}"

definition vga_ok :: "vga \<Rightarrow> bool" where
  "vga_ok g \<longleftrightarrow> (\<exists>cells. vga_buffer g = Some cells \<and> length cells = VGA_CELLS)"

definition cursor_at :: "int \<Rightarrow> int \<Rightarrow> vga \<Rightarrow> bool" where
  "cursor_at x y g \<longleftrightarrow> crtc g 0x0F = ucast (of_int (y * VGA_WIDTH + x) AND 0xFF :: u16)
     \<and> crtc g 0x0E = ucast (drop_bit 8 (of_int (y * VGA_WIDTH + x)) AND 0xFF :: u16)"

text \<open>The screen shows the terminal, if it is the active one: its cells, and its cursor.\<close>

definition same_cells :: "vt \<Rightarrow> vga \<Rightarrow> bool" where
  "same_cells v g \<longleftrightarrow> (active v \<longrightarrow> vga_buffer g = Some (vbuffer v))"

definition same_cursor :: "vt \<Rightarrow> vga \<Rightarrow> bool" where
  "same_cursor v g \<longleftrightarrow> (active v \<longrightarrow> cursor_at (cursor_x v) (cursor_y v) g)"

lemma vga_set_cursor_facts [simp]:
  "vga_buffer (vga_set_cursor x y g) = vga_buffer g" "cursor_at x y (vga_set_cursor x y g)"
  by (simp_all add: vga_set_cursor_def vga_outb_def cursor_at_def Let_def)

lemma vga_ok_update [simp]: "vga_ok (vga_set_cursor x y g) = vga_ok g" "length cells = VGA_CELLS \<Longrightarrow> vga_ok (g\<lparr>vga_buffer := Some cells\<rparr>)"
  by (simp_all add: vga_ok_def)

lemma vt_advance_ok:
  assumes "length (vbuffer v) = VGA_CELLS" and "0 \<le> cursor_x v" "cursor_x v \<le> VGA_WIDTH" and "0 \<le> cursor_y v" "cursor_y v \<le> VGA_HEIGHT"
    and "ansi_state v \<in> {0 .. 4}" and "vga_ok g"
  shows "\<exists>v' g'. vt_advance (v, g) = (v', g') \<and> vt_ok v' \<and> vga_ok g' \<and> active v' = active v \<and> (\<not> active v \<longrightarrow> g' = g)
    \<and> (same_cells v g \<longrightarrow> same_cells v' g') \<and> same_cursor v' g'"
proof -
  define v1 where "v1 = (if cursor_x v \<ge> VGA_WIDTH then v\<lparr>cursor_x := 0, cursor_y := cursor_y v + 1\<rparr> else v)"
  have v1: "vbuffer v1 = vbuffer v" "active v1 = active v" "0 \<le> cursor_x v1" "cursor_x v1 < VGA_WIDTH" "0 \<le> cursor_y v1" "ansi_state v1 \<in> {0 .. 4}"
    using assms by (simp_all add: v1_def)
  define v2 where "v2 = (if cursor_y v1 \<ge> VGA_HEIGHT then vt_scroll v1 else v1)"
  define g2 where "g2 = (if cursor_y v1 \<ge> VGA_HEIGHT \<and> active v1 then g\<lparr>vga_buffer := Some (vbuffer (vt_scroll v1))\<rparr> else g)"
  have blit: "vga_blit (vbuffer (vt_scroll v1)) g = g\<lparr>vga_buffer := Some (vbuffer (vt_scroll v1))\<rparr>"
    using assms(1,7) v1(1) by (auto simp: vga_ok_def intro!: vga_blit_cells)
  have e: "vt_advance (v, g) = (v2, if active v2 then vga_set_cursor (cursor_x v2) (cursor_y v2) g2 else g2)"
    by (simp add: vt_advance_def v1_def [symmetric] Let_def blit v2_def g2_def vt_sync_cursor_def)
  have ok: "vt_ok v2" "active v2 = active v" using v1 assms(1) by (auto simp: v2_def vt_ok_def)
  have g: "vga_ok g2" "\<not> active v \<longrightarrow> g2 = g" using v1 assms(1,7) by (simp_all add: g2_def)
  have "same_cells v g \<longrightarrow> same_cells v2 g2" using v1 by (simp add: same_cells_def v2_def g2_def)
  then show ?thesis using e ok g assms(7) by (simp add: same_cursor_def same_cells_def)
qed

lemma cell_index:
  assumes "vt_ok v"
  shows "vt_store w v = Inr (v\<lparr>vbuffer := (vbuffer v)[nat (cursor_y v * VGA_WIDTH + cursor_x v) := w]\<rparr>)"
proof -
  have "cursor_y v * 80 \<le> 24 * 80" using assms by (simp add: vt_ok_def)
  then have "cursor_y v * 80 + cursor_x v < 2000" "0 \<le> cursor_y v * 80 + cursor_x v" using assms by (auto simp: vt_ok_def)
  then show ?thesis by (simp add: vt_store_def Let_def)
qed

lemma vt_putc_ok:
  assumes v: "vt_ok v" and g: "vga_ok g"
  shows "\<exists>v' g'. vt_putc c (v, g) = Inr (v', g') \<and> vt_ok v' \<and> vga_ok g' \<and> active v' = active v \<and> (\<not> active v \<longrightarrow> g' = g)
    \<and> (c \<noteq> 8 \<and> same_cells v g \<longrightarrow> same_cells v' g') \<and> same_cursor v' g'"
proof -
  have fin: ?thesis if "vt_putc c (v, g) = Inr (vt_advance (v1, g1))" "length (vbuffer v1) = VGA_CELLS" "0 \<le> cursor_x v1"
      "cursor_x v1 \<le> VGA_WIDTH" "0 \<le> cursor_y v1" "cursor_y v1 \<le> VGA_HEIGHT" "ansi_state v1 \<in> {0 .. 4}" "vga_ok g1"
      "active v1 = active v" "\<not> active v \<longrightarrow> g1 = g" "c \<noteq> 8 \<and> same_cells v g \<longrightarrow> same_cells v1 g1" for v1 g1
    using vt_advance_ok [OF that(2-8)] that(1,9-11) by auto
  have V: "length (vbuffer v) = VGA_CELLS" "0 \<le> cursor_x v" "cursor_x v < VGA_WIDTH" "0 \<le> cursor_y v" "cursor_y v < VGA_HEIGHT"
    "ansi_state v \<in> {0 .. 4}" using v by (simp_all add: vt_ok_def)
  obtain cells where cs: "vga_buffer g = Some cells" "length cells = VGA_CELLS" using g by (auto simp: vga_ok_def)
  consider "c = 10" | "c = 8" | "c = 13" | "c \<noteq> 10" "c \<noteq> 8" "c \<noteq> 13" by blast
  then show ?thesis
  proof cases
    case 1
    then show ?thesis using V g by (intro fin [of "v\<lparr>cursor_x := 0, cursor_y := cursor_y v + 1\<rparr>" g]) (simp_all add: vt_putc_def same_cells_def)
  next
    case 2
    define v1 where "v1 = (if cursor_x v > 0 then v\<lparr>cursor_x := cursor_x v - 1\<rparr>
      else if cursor_y v > 0 then v\<lparr>cursor_y := cursor_y v - 1, cursor_x := VGA_WIDTH - 1\<rparr> else v)"
    have ok: "vt_ok v1" "active v1 = active v" using V by (auto simp: v1_def vt_ok_def)
    show ?thesis using 2 g cell_index [OF ok(1)] ok
      by (intro fin [of "v1\<lparr>vbuffer := (vbuffer v1)[nat (cursor_y v1 * VGA_WIDTH + cursor_x v1) := cell (current_attr v) 32]\<rparr>" g])
        (simp_all add: vt_putc_def v1_def [symmetric], simp_all add: vt_ok_def)
  next
    case 3
    then show ?thesis using V g by (intro fin [of "v\<lparr>cursor_x := 0\<rparr>" g]) (simp_all add: vt_putc_def same_cells_def)
  next
    case 4
    let ?i = "nat (cursor_y v * VGA_WIDTH + cursor_x v)" and ?w = "cell (current_attr v) c"
    let ?g = "if active v then g\<lparr>vga_buffer := Some (cells[?i := ?w])\<rparr> else g"
    show ?thesis using 4 V g cs cell_index [OF v]
      by (intro fin [of "v\<lparr>vbuffer := (vbuffer v)[?i := ?w], cursor_x := cursor_x v + 1\<rparr>" ?g])
        (simp_all add: vt_putc_def vga_putc_def same_cells_def)
  qed
qed


lemma ansi_fields:
  "vbuffer (ansi_digit c v) = vbuffer v" "cursor_x (ansi_digit c v) = cursor_x v" "cursor_y (ansi_digit c v) = cursor_y v"
  "active (ansi_digit c v) = active v" "ansi_state v \<in> {0 .. 4} \<Longrightarrow> ansi_state (ansi_digit c v) \<in> {0 .. 4}"
  "vbuffer (ansi_color v) = vbuffer v" "cursor_x (ansi_color v) = cursor_x v" "cursor_y (ansi_color v) = cursor_y v"
  "active (ansi_color v) = active v"
  "vbuffer (ansi_move v) = vbuffer v" "active (ansi_move v) = active v"
  "0 \<le> cursor_x (ansi_move v)" "cursor_x (ansi_move v) < VGA_WIDTH" "0 \<le> cursor_y (ansi_move v)" "cursor_y (ansi_move v) < VGA_HEIGHT"
  by (simp_all add: ansi_digit_def ansi_color_def ansi_move_def Let_def)

lemma vt_parse_sequence:
  assumes "ansi_state v \<in> {2, 3, 4}"
  shows "vt_parse_ansi c (v, g) =
    (if 48 \<le> c \<and> c \<le> 57 then Inr (ansi_digit c v, g)
     else if c = 59 then Inr (v\<lparr>ansi_state := 4\<rparr>, g)
     else if c = 109 then Inr ((ansi_color v)\<lparr>ansi_state := 0\<rparr>, g)
     else if c = 74 then
       (if ansi_param v = 2
        then Inr ((vt_clear v)\<lparr>ansi_state := 0\<rparr>, if active v then vga_blit (vbuffer (vt_clear v)) g else g)
        else Inr (v\<lparr>ansi_state := 0\<rparr>, g))
     else if c = 72 then
       (case vt_sync_cursor (ansi_move v, g) of (v1, g1) \<Rightarrow> Inr (v1\<lparr>ansi_state := 0\<rparr>, g1))
     else Inr (v\<lparr>ansi_state := 0\<rparr>, g))"
proof -
  have "ansi_state v \<noteq> 0" "ansi_state v \<noteq> 1" "ansi_state v = 2 \<or> ansi_state v = 3 \<or> ansi_state v = 4" using assms by auto
  then show ?thesis unfolding vt_parse_ansi_def prod.case by (simp only: if_True if_False simp_thms)
qed

lemma vt_parse_ansi_ok:
  assumes v: "vt_ok v" and g: "vga_ok g"
  shows "\<exists>v' g'. vt_parse_ansi c (v, g) = Inr (v', g') \<and> vt_ok v' \<and> vga_ok g' \<and> active v' = active v \<and> (\<not> active v \<longrightarrow> g' = g)
    \<and> (c \<noteq> 8 \<and> same_cells v g \<longrightarrow> same_cells v' g') \<and> (c \<noteq> 74 \<and> same_cursor v g \<longrightarrow> same_cursor v' g')"
proof -
  have keep: ?thesis if "vt_parse_ansi c (v, g) = Inr (v1, g)" "vbuffer v1 = vbuffer v" "cursor_x v1 = cursor_x v" "cursor_y v1 = cursor_y v"
      "active v1 = active v" "ansi_state v1 \<in> {0 .. 4}" for v1
    using that v g by (simp add: vt_ok_def same_cursor_def same_cells_def)
  have put: ?thesis if "vt_parse_ansi c (v, g) = vt_putc c (v\<lparr>ansi_state := 0\<rparr>, g)"
  proof -
    have "vt_ok (v\<lparr>ansi_state := 0\<rparr>)" using v by (simp add: vt_ok_def)
    from vt_putc_ok [OF this g, of c] that show ?thesis by (auto simp: same_cursor_def same_cells_def)
  qed
  have st: "ansi_state v = 0 \<or> ansi_state v = 1 \<or> ansi_state v = 2 \<or> ansi_state v = 3 \<or> ansi_state v = 4"
    using v by (auto simp: vt_ok_def)
  consider (esc) "ansi_state v = 0" "c = 0x1B" | (normal) "ansi_state v = 0" "c \<noteq> 0x1B"
    | (bracket) "ansi_state v = 1" "c = 91" | (abort) "ansi_state v = 1" "c \<noteq> 91"
    | (seq) "ansi_state v \<in> {2, 3, 4}" using st by auto
  then show ?thesis
  proof cases
    case esc
    then show ?thesis by (intro keep [of "v\<lparr>ansi_state := 1, ansi_param := 0, ansi_param2 := 0\<rparr>"]) (simp_all add: vt_parse_ansi_def)
  next
    case normal
    then have "v\<lparr>ansi_state := 0\<rparr> = v" by (cases v) simp
    then have "vt_parse_ansi c (v, g) = vt_putc c (v\<lparr>ansi_state := 0\<rparr>, g)" using normal by (simp only: vt_parse_ansi_def prod.case if_True if_False simp_thms)
    then show ?thesis by (rule put)
  next
    case bracket
    then show ?thesis by (intro keep [of "v\<lparr>ansi_state := 2\<rparr>"]) (simp_all add: vt_parse_ansi_def)
  next
    case abort
    then show ?thesis by (intro put) (simp add: vt_parse_ansi_def)
  next
    case seq
    note P = vt_parse_sequence [OF seq, of c g]
    consider (digit) "48 \<le> c \<and> c \<le> 57" | (semi) "\<not> (48 \<le> c \<and> c \<le> 57)" "c = 59" | (col) "c = 109"
      | (clear) "c = 74" "ansi_param v = 2" | (move) "c = 72"
      | (other) "\<not> (48 \<le> c \<and> c \<le> 57)" "c \<noteq> 59" "c \<noteq> 109" "c \<noteq> 72" "c = 74 \<longrightarrow> ansi_param v \<noteq> 2"
      by blast
    then show ?thesis
    proof cases
      case digit
      have "ansi_state (ansi_digit c v) \<in> {0 .. 4}" by (rule ansi_fields(5)) (use v in \<open>simp add: vt_ok_def\<close>)
      then show ?thesis using P digit by (intro keep [of "ansi_digit c v"]) (simp_all add: ansi_fields)
    next
      case semi
      then show ?thesis using P by (intro keep [of "v\<lparr>ansi_state := 4\<rparr>"]) simp_all
    next
      case col
      then show ?thesis using P by (intro keep [of "(ansi_color v)\<lparr>ansi_state := 0\<rparr>"]) (simp_all add: ansi_fields)
    next
      case clear
      have l: "length (vbuffer (vt_clear v)) = VGA_CELLS" using v by (simp add: vt_ok_def)
      have "vga_blit (vbuffer (vt_clear v)) g = g\<lparr>vga_buffer := Some (vbuffer (vt_clear v))\<rparr>"
        using g l by (auto simp: vga_ok_def intro!: vga_blit_cells)
      then show ?thesis using P clear g l by (simp add: vt_ok_def same_cells_def)
    next
      case move
      then show ?thesis using P v g
        by (simp add: vt_sync_cursor_def ansi_fields vt_ok_def same_cursor_def same_cells_def)
    next
      case other
      then have "vt_parse_ansi c (v, g) = Inr (v\<lparr>ansi_state := 0\<rparr>, g)" unfolding P by (simp only: if_False simp_thms split: if_split) blast
      then show ?thesis by (intro keep [of "v\<lparr>ansi_state := 0\<rparr>"]) simp_all
    qed
  qed
qed

text \<open>The echo of an erased character is a backspace, a blank and a backspace.\<close>

lemma vt_advance_inside:
  "vt_ok v \<Longrightarrow> vt_advance (v, g) = vt_sync_cursor (v, g)"
  "vt_ok v \<Longrightarrow> cursor_y v < 24 \<Longrightarrow> vt_advance (v\<lparr>cursor_x := VGA_WIDTH\<rparr>, g) = vt_sync_cursor (v\<lparr>cursor_x := 0, cursor_y := cursor_y v + 1\<rparr>, g)"
  by (auto simp: vt_advance_def vt_ok_def Let_def)

lemma erase_cells:
  assumes v: "vt_ok v" and g: "vga_ok g" and st: "ansi_state v = 0" and same: "same_cells v g"
  shows "\<exists>v1 g1 v2 g2 v3 g3. vt_parse_ansi 8 (v, g) = Inr (v1, g1) \<and> vt_parse_ansi 32 (v1, g1) = Inr (v2, g2)
    \<and> vt_parse_ansi 8 (v2, g2) = Inr (v3, g3) \<and> same_cells v3 g3"
proof -
  define u where "u = (if cursor_x v > 0 then v\<lparr>cursor_x := cursor_x v - 1\<rparr>
    else if cursor_y v > 0 then v\<lparr>cursor_y := cursor_y v - 1, cursor_x := VGA_WIDTH - 1\<rparr> else v)"
  have u: "vt_ok u" "active u = active v" "ansi_state u = 0" "vbuffer u = vbuffer v" "current_attr u = current_attr v"
    "cursor_x u = VGA_WIDTH - 1 \<Longrightarrow> cursor_y u < 24" using v st by (auto simp: u_def vt_ok_def)
  define i where "i = nat (cursor_y u * VGA_WIDTH + cursor_x u)"
  define w where "w = cell (current_attr v) 32"
  define v1 where "v1 = u\<lparr>vbuffer := (vbuffer v)[i := w]\<rparr>"
  have v1: "vt_ok v1" "ansi_state v1 = 0" "current_attr v1 = current_attr v" "active v1 = active v" "vbuffer v1 = (vbuffer v)[i := w]"
    "cursor_x v1 = cursor_x u" "cursor_y v1 = cursor_y u"
    using u by (simp_all add: v1_def vt_ok_def)
  obtain g1 where g1: "vt_parse_ansi 8 (v, g) = Inr (v1, g1)" "vga_ok g1" "vga_buffer g1 = vga_buffer g"
    using st u(1,4) g cell_index [OF u(1)] vt_advance_inside(1) [OF v1(1)]
    by (simp add: vt_parse_ansi_def vt_putc_def u_def [symmetric] i_def [symmetric] w_def [symmetric] v1_def [symmetric] vt_sync_cursor_def)
  define v2 where "v2 = (if cursor_x u = VGA_WIDTH - 1 then v1\<lparr>cursor_x := 0, cursor_y := cursor_y u + 1\<rparr>
    else v1\<lparr>cursor_x := cursor_x u + 1\<rparr>)"
  have v2: "vt_ok v2" "ansi_state v2 = 0" "current_attr v2 = current_attr v" "active v2 = active v" "vbuffer v2 = (vbuffer v)[i := w]"
    using v1 u(6) by (auto simp: v2_def vt_ok_def)
  have adv: "vt_advance (v1\<lparr>cursor_x := cursor_x u + 1\<rparr>, h) = vt_sync_cursor (v2, h)" for h
    using v1 u(6) vt_advance_inside(2) [OF v1(1), of h] vt_advance_inside(1) [OF v2(1), of h] by (auto simp: v2_def)
  have st1: "vt_store w v1 = Inr v1" using cell_index [OF v1(1), of w] v1 by (simp add: i_def)
  have inr: "0 \<le> cursor_x u" "cursor_x u < VGA_WIDTH" "0 \<le> cursor_y u" "cursor_y u < VGA_HEIGHT" using u(1) by (simp_all add: vt_ok_def)
  obtain cells where cs: "vga_buffer g = Some cells" using g by (auto simp: vga_ok_def)
  define h where "h = (if active v then g1\<lparr>vga_buffer := Some (cells[i := w])\<rparr> else g1)"
  have put: "(if active v1 then vga_putc (cursor_x v1) (cursor_y v1) 32 (current_attr v1) g1 else Inr g1) = Inr h"
    using inr cs g1(3) v1 by (simp add: vga_putc_def h_def i_def w_def)
  define g2 where "g2 = snd (vt_sync_cursor (v2, h))"
  have "vt_parse_ansi 32 (v1, g1) = Inr (vt_advance (v1\<lparr>cursor_x := cursor_x u + 1\<rparr>, h))"
    using v1(2,3,6) st1 put by (simp add: vt_parse_ansi_def vt_putc_def w_def)
  then have g2: "vt_parse_ansi 32 (v1, g1) = Inr (v2, g2)" "active v \<longrightarrow> vga_buffer g2 = Some (cells[i := w])"
    unfolding adv by (simp_all add: g2_def h_def vt_sync_cursor_def)
  have bk: "(if cursor_x v2 > 0 then v2\<lparr>cursor_x := cursor_x v2 - 1\<rparr>
    else if cursor_y v2 > 0 then v2\<lparr>cursor_y := cursor_y v2 - 1, cursor_x := VGA_WIDTH - 1\<rparr> else v2) = v1"
  proof (cases "cursor_x u = VGA_WIDTH - 1")
    case True
    then show ?thesis using inr v1(6,7) by (cases v1) (simp add: v2_def)
  next
    case False
    then show ?thesis using inr v1(6,7) by (cases v1) (simp add: v2_def)
  qed
  obtain g3 where g3: "vt_parse_ansi 8 (v2, g2) = Inr (v1, g3)" "vga_buffer g3 = vga_buffer g2"
    using v2(2,3) st1 bk vt_advance_inside(1) [OF v1(1)]
    by (simp add: vt_parse_ansi_def vt_putc_def w_def [symmetric] vt_sync_cursor_def)
  have "same_cells v1 g3" using same v1 g2 g3 cs by (auto simp: same_cells_def)
  then show ?thesis using g1(1) g2(1) g3(1) by blast
qed


section \<open>All terminals\<close>

definition con_ok :: "console \<Rightarrow> bool" where
  "con_ok c \<longleftrightarrow> length (vts c) = MAX_VTS \<and> active_vt_idx c < MAX_VTS \<and> vga_ok (vgas c)
     \<and> (\<forall>k < MAX_VTS. vt_ok (vts c ! k) \<and> (active (vts c ! k) \<longleftrightarrow> k = active_vt_idx c))"

text \<open>The screen shows the cells, and the cursor, of the active terminal.\<close>

definition shown :: "console \<Rightarrow> bool" where
  "shown c \<longleftrightarrow> vga_buffer (vgas c) = Some (vbuffer (vts c ! active_vt_idx c))"

definition cursor_shown :: "console \<Rightarrow> bool" where
  "cursor_shown c \<longleftrightarrow> cursor_at (cursor_x (vts c ! active_vt_idx c)) (cursor_y (vts c ! active_vt_idx c)) (vgas c)"

definition echo :: "u8 \<Rightarrow> u8 list" where
  "echo b = (if b = 8 then [8, 32, 8] else if b = 0 then [] else [b])"

text \<open>Replacing one terminal and the screen.\<close>

definition with_vt :: "nat \<Rightarrow> shown_vt \<Rightarrow> console \<Rightarrow> console" where
  "with_vt n r c = c\<lparr>vts := (vts c)[n := fst r], vgas := snd r\<rparr>"

lemma with_vt_ok:
  assumes "con_ok c" and "n < MAX_VTS" and "vt_ok v" and "vga_ok g" and "active v = active (vts c ! n)"
  shows "con_ok (with_vt n (v, g) c)"
  using assms by (auto simp: con_ok_def with_vt_def nth_list_update)

lemma with_vt_shown:
  assumes "con_ok c" and "n < MAX_VTS" and "active v = active (vts c ! n)" and "\<not> active v \<longrightarrow> g = vgas c"
  shows "shown (with_vt n (v, g) c) \<longleftrightarrow> (if active v then same_cells v g else shown c)"
    "cursor_shown (with_vt n (v, g) c) \<longleftrightarrow> (if active v then same_cursor v g else cursor_shown c)"
  using assms by (auto simp: con_ok_def with_vt_def shown_def cursor_shown_def same_cells_def same_cursor_def nth_list_update)

lemma serial_keeps [simp]:
  "con_ok (c\<lparr>serial := x\<rparr>) = con_ok c" "shown (c\<lparr>serial := x\<rparr>) = shown c" "cursor_shown (c\<lparr>serial := x\<rparr>) = cursor_shown c"
  by (simp_all add: con_ok_def shown_def cursor_shown_def)

lemma vt_write_step:
  "vt_write_loop n (b # data) c = bindF (vt_parse_ansi b (vts c ! n, vgas c))
     (\<lambda>r. vt_write_loop n data (with_vt n r (c\<lparr>serial := serial c @ echo b\<rparr>)))"
  by (simp add: serial_puts_def echo_def with_vt_def Let_def split_def)

lemma vt_write_loop_ok:
  assumes "con_ok c" and "n < MAX_VTS"
  shows "\<exists>c'. vt_write_loop n data c = Inr c' \<and> con_ok c' \<and> active_vt_idx c' = active_vt_idx c
    \<and> (\<forall>k. k \<noteq> n \<longrightarrow> vts c' ! k = vts c ! k) \<and> serial c' = serial c @ concat (map echo data)
    \<and> (8 \<notin> set data \<and> shown c \<longrightarrow> shown c') \<and> (74 \<notin> set data \<and> cursor_shown c \<longrightarrow> cursor_shown c')"
  using assms
proof (induction data arbitrary: c)
  case Nil
  then show ?case by simp
next
  case (Cons b data)
  have ok: "vt_ok (vts c ! n)" "vga_ok (vgas c)" using Cons.prems by (simp_all add: con_ok_def)
  from vt_parse_ansi_ok [OF ok, of b] obtain v g where
    p: "vt_parse_ansi b (vts c ! n, vgas c) = Inr (v, g)" "vt_ok v" "vga_ok g" "active v = active (vts c ! n)"
      "\<not> active v \<longrightarrow> g = vgas c" "b \<noteq> 8 \<and> same_cells (vts c ! n) (vgas c) \<longrightarrow> same_cells v g"
      "b \<noteq> 74 \<and> same_cursor (vts c ! n) (vgas c) \<longrightarrow> same_cursor v g" by auto
  define c1 where "c1 = with_vt n (v, g) (c\<lparr>serial := serial c @ echo b\<rparr>)"
  have c1: "con_ok c1" "active_vt_idx c1 = active_vt_idx c" "\<forall>k. k \<noteq> n \<longrightarrow> vts c1 ! k = vts c ! k" "serial c1 = serial c @ echo b"
    using with_vt_ok [of "c\<lparr>serial := serial c @ echo b\<rparr>" n v g] Cons.prems p by (simp_all add: c1_def with_vt_def)
  have sh: "b \<noteq> 8 \<and> shown c \<longrightarrow> shown c1" "b \<noteq> 74 \<and> cursor_shown c \<longrightarrow> cursor_shown c1"
    using with_vt_shown [of "c\<lparr>serial := serial c @ echo b\<rparr>" n v g] Cons.prems p
    by (auto simp: c1_def same_cells_def same_cursor_def shown_def cursor_shown_def con_ok_def)
  from Cons.IH [OF c1(1) Cons.prems(2)] obtain c' where
    c': "vt_write_loop n data c1 = Inr c'" "con_ok c'" "active_vt_idx c' = active_vt_idx c1"
      "\<forall>k. k \<noteq> n \<longrightarrow> vts c' ! k = vts c1 ! k" "serial c' = serial c1 @ concat (map echo data)"
      "8 \<notin> set data \<and> shown c1 \<longrightarrow> shown c'" "74 \<notin> set data \<and> cursor_shown c1 \<longrightarrow> cursor_shown c'" by blast
  have "vt_write_loop n (b # data) c = Inr c'" using p(1) c'(1) by (simp only: vt_write_step bindF_simps c1_def)
  then show ?case using c1 c' sh by simp
qed


lemma vt_write_ok:
  assumes "con_ok c"
  shows "\<exists>c'. vt_write n data c = Inr c' \<and> con_ok c' \<and> active_vt_idx c' = active_vt_idx c
    \<and> (\<forall>k. int k \<noteq> n \<longrightarrow> vts c' ! k = vts c ! k)
    \<and> serial c' = serial c @ (if 0 \<le> n \<and> n < int MAX_VTS then concat (map echo data) else [])
    \<and> (8 \<notin> set data \<and> shown c \<longrightarrow> shown c') \<and> (74 \<notin> set data \<and> cursor_shown c \<longrightarrow> cursor_shown c')"
proof (cases "0 \<le> n \<and> n < int MAX_VTS")
  case True
  then have m: "nat n < MAX_VTS" "\<And>k. int k \<noteq> n \<longleftrightarrow> k \<noteq> nat n" and w: "vt_write n data c = vt_write_loop (nat n) data c"
    by (auto simp: vt_write_def)
  show ?thesis unfolding w m(2) using vt_write_loop_ok [OF assms m(1), of data] True by simp
next
  case False
  then show ?thesis using assms by (auto simp: vt_write_def)
qed

lemma vt_switch_ok:
  assumes "con_ok c"
  shows "con_ok (vt_switch n c)" "shown c \<Longrightarrow> shown (vt_switch n c)" "cursor_shown c \<Longrightarrow> cursor_shown (vt_switch n c)"
proof -
  have *: "con_ok (vt_switch n c) \<and> (shown c \<longrightarrow> shown (vt_switch n c)) \<and> (cursor_shown c \<longrightarrow> cursor_shown (vt_switch n c))"
  proof (cases "n < 0 \<or> n \<ge> int MAX_VTS \<or> nat n = active_vt_idx c")
    case True
    then have "vt_switch n c = c" by (auto simp: vt_switch_def)
    then show ?thesis using assms by simp
  next
    case False
    define m where "m = nat n"
    have m: "m < MAX_VTS" "m \<noteq> active_vt_idx c" using False by (auto simp: m_def)
    define vs where "vs = (vts c)[active_vt_idx c := (vts c ! active_vt_idx c)\<lparr>active := False\<rparr>, m := (vts c ! m)\<lparr>active := True\<rparr>]"
    have len: "length (vts c) = MAX_VTS" "active_vt_idx c < MAX_VTS" using assms by (simp_all add: con_ok_def)
    have v: "vs ! k = (if k = m then (vts c ! m)\<lparr>active := True\<rparr> else if k = active_vt_idx c then (vts c ! k)\<lparr>active := False\<rparr> else vts c ! k)"
      if "k < MAX_VTS" for k
      using that m len by (simp add: vs_def nth_list_update)
    have vm: "vs ! m = (vts c ! m)\<lparr>active := True\<rparr>" "vt_ok (vts c ! m)" using v [OF m(1)] m assms by (simp_all add: con_ok_def)
    have l: "length (vbuffer (vts c ! m)) = VGA_CELLS" using vm(2) by (simp add: vt_ok_def)
    have b: "vga_blit (vbuffer (vs ! m)) (vgas c) = (vgas c)\<lparr>vga_buffer := Some (vbuffer (vts c ! m))\<rparr>"
      using assms l vm by (auto simp: con_ok_def vga_ok_def intro!: vga_blit_cells)
    have sw: "vt_switch n c = c\<lparr>vts := vs, active_vt_idx := m,
        vgas := vga_set_cursor (cursor_x (vts c ! m)) (cursor_y (vts c ! m)) ((vgas c)\<lparr>vga_buffer := Some (vbuffer (vts c ! m))\<rparr>)\<rparr>"
      using False m b vm by (simp add: vt_switch_def Let_def vs_def m_def [symmetric])
    have "\<forall>k < MAX_VTS. vt_ok (vs ! k) \<and> (active (vs ! k) \<longleftrightarrow> k = m)"
      using assms v m by (auto simp: con_ok_def vt_ok_def)
    then show ?thesis unfolding sw using m l vm len
      by (simp add: con_ok_def shown_def cursor_shown_def vs_def)
  qed
  then show "con_ok (vt_switch n c)" "shown c \<Longrightarrow> shown (vt_switch n c)" "cursor_shown c \<Longrightarrow> cursor_shown (vt_switch n c)" by blast+
qed

lemma vt_init_ok:
  assumes "length (vts c) = MAX_VTS" and "\<forall>k < MAX_VTS. length (vbuffer (vts c ! k)) = VGA_CELLS"
    and "active_vt_idx c = 0" and "length cells = VGA_CELLS"
  shows "con_ok (vt_init cells c)" "shown (vt_init cells c)" "cursor_shown (vt_init cells c)"
proof -
  define w where "w = (\<lambda>i. (vt_clear ((vts c ! i)\<lparr>current_attr := DEFAULT_ATTR, active := (i = 0)\<rparr>))\<lparr>ansi_state := 0\<rparr>)"
  have w: "vt_ok (w i)" "active (w i) = (i = 0)" if "i < MAX_VTS" for i using that assms(2) by (simp_all add: w_def vt_ok_def)
  have w0: "cursor_x (w 0) = 0" "cursor_y (w 0) = 0" by (simp_all add: w_def)
  have l: "length (vbuffer (w 0)) = VGA_CELLS" using w(1) [of 0] by (simp add: vt_ok_def)
  have b: "vga_blit (vbuffer (w 0)) (vga_init cells (vgas c)) = (vgas c)\<lparr>vga_buffer := Some (vbuffer (w 0))\<rparr>"
    using vga_blit_cells [OF _ assms(4) l, of "vga_init cells (vgas c)"] by (simp add: vga_init_def)
  have n: "map w [0 ..< MAX_VTS] ! i = w i" if "i < MAX_VTS" for i using that by simp
  have e: "vt_init cells c = c\<lparr>vts := map w [0 ..< MAX_VTS], vgas := vga_set_cursor 0 0 ((vgas c)\<lparr>vga_buffer := Some (vbuffer (w 0))\<rparr>)\<rparr>"
    unfolding vt_init_def Let_def w_def [symmetric] using n [of 0] b by simp
  show "con_ok (vt_init cells c)" "shown (vt_init cells c)" "cursor_shown (vt_init cells c)"
    unfolding e con_ok_def shown_def cursor_shown_def using w n w0 l assms(3) by simp_all
qed


lemma vt_write_erase:
  assumes ok: "con_ok c" and sh: "shown c" and n: "0 \<le> n" "n < int MAX_VTS" and st: "ansi_state (vts c ! nat n) = 0"
  shows "\<exists>c'. vt_write n [8, 32, 8] c = Inr c' \<and> shown c'"
proof -
  let ?n = "nat n"
  have m: "?n < MAX_VTS" "\<not> (n < 0 \<or> n \<ge> int MAX_VTS)" using n by auto
  have V: "vt_ok (vts c ! ?n)" "vga_ok (vgas c)" "length (vts c) = MAX_VTS" using ok m by (simp_all add: con_ok_def)
  have "same_cells (vts c ! ?n) (vgas c)" using ok sh m by (auto simp: same_cells_def shown_def con_ok_def)
  from erase_cells [OF V(1,2) st this] obtain v1 g1 v2 g2 v3 g3 where
    e: "vt_parse_ansi 8 (vts c ! ?n, vgas c) = Inr (v1, g1)" "vt_parse_ansi 32 (v1, g1) = Inr (v2, g2)"
      "vt_parse_ansi 8 (v2, g2) = Inr (v3, g3)" "same_cells v3 g3" by blast
  have s1: "vt_ok v1" "vga_ok g1" "active v1 = active (vts c ! ?n)" "\<not> active (vts c ! ?n) \<longrightarrow> g1 = vgas c"
    using vt_parse_ansi_ok [OF V(1,2), of 8] e(1) by auto
  have s2: "vt_ok v2" "vga_ok g2" "active v2 = active v1" "\<not> active v1 \<longrightarrow> g2 = g1"
    using vt_parse_ansi_ok [OF s1(1,2), of 32] e(2) by auto
  have s3: "active v3 = active v2" "\<not> active v2 \<longrightarrow> g3 = g2" using vt_parse_ansi_ok [OF s2(1,2), of 8] e(3) by auto
  define c' where "c' = (with_vt ?n (v3, g3) c)\<lparr>serial := serial c @ echo 8 @ echo 32 @ echo 8\<rparr>"
  have "vt_write n [8, 32, 8] c = Inr c'"
    using m e(1-3) V(3) unfolding vt_write_def by (simp add: vt_write_step with_vt_def c'_def del: vt_write_loop.simps(2))
  moreover have "shown c'"
    using with_vt_shown(1) [OF ok m(1), of v3 g3] s1 s2 s3 e(4) sh by (simp add: c'_def)
  ultimately show ?thesis by blast
qed

section \<open>Properties\<close>

definition sample_vt :: vt where
  "sample_vt = \<lparr>vbuffer = replicate VGA_CELLS 0, cursor_x = 0, cursor_y = 0, current_attr = 0, ansi_state = 0, ansi_param = 0,
     ansi_param2 = 0, active = False\<rparr>"

definition sample_console :: console where
  "sample_console = vt_init (replicate VGA_CELLS 0)
     \<lparr>vts = replicate MAX_VTS sample_vt, active_vt_idx = 0, vgas = \<lparr>vga_buffer = None, crtc_index = 0, crtc = \<lambda>_. 0\<rparr>, serial = []\<rparr>"

lemma sample_console_ok: "con_ok sample_console" "shown sample_console" "cursor_shown sample_console"
  unfolding sample_console_def by (rule vt_init_ok; simp add: sample_vt_def)+

text \<open>
  C31. Output never leaves the screen. Whatever bytes are written to whatever terminal, escape sequences
  with arbitrary parameters included, every store hits the 80 by 25 cells, the cursor stays on the screen
  and the parser in its states; only the terminal written to changes, and the serial line gets every byte,
  with a backspace as backspace, blank, backspace and zero bytes left out. A number that is no terminal
  writes nothing.
\<close>

theorem vt_write_bounds:
  assumes "con_ok c"
  shows "\<exists>c'. vt_write n data c = Inr c' \<and> con_ok c' \<and> (\<forall>k. int k \<noteq> n \<longrightarrow> vts c' ! k = vts c ! k)
    \<and> serial c' = serial c @ (if 0 \<le> n \<and> n < int MAX_VTS then concat (map echo data) else [])"
  using vt_write_ok [OF assms, of n data] by blast

theorem vt_write_bounds_witness:
  "con_ok sample_console \<and> (\<exists>c'. vt_write 1 [27, 91, 57, 57, 59, 57, 57, 72, 65, 8, 0] sample_console = Inr c' \<and> con_ok c'
    \<and> (\<forall>k. int k \<noteq> 1 \<longrightarrow> vts c' ! k = vts sample_console ! k)
    \<and> serial c' = serial sample_console @ [27, 91, 57, 57, 59, 57, 57, 72, 65, 8, 32, 8])"
  using vt_write_bounds [OF sample_console_ok(1), of 1 "[27, 91, 57, 57, 59, 57, 57, 72, 65, 8, 0]"] sample_console_ok(1)
  by (simp add: echo_def)

text \<open>
  C32. The screen shows the active terminal. Written bytes other than backspace keep its cells on the screen
  equal to its buffer, and so do the three bytes that erase a character outside an escape sequence; bytes
  other than \<open>J\<close> keep the hardware cursor at the terminal's cursor; switching to any terminal number keeps
  both. A backspace alone is only blanked in the buffer, and clearing the screen leaves the hardware cursor.
\<close>

theorem screen_shows_active_terminal:
  assumes "con_ok c" and "shown c"
  shows "(8 \<notin> set data \<longrightarrow> (\<exists>c'. vt_write n data c = Inr c' \<and> shown c' \<and> (74 \<notin> set data \<and> cursor_shown c \<longrightarrow> cursor_shown c')))
    \<and> (0 \<le> n \<and> n < int MAX_VTS \<and> ansi_state (vts c ! nat n) = 0 \<longrightarrow> (\<exists>c'. vt_write n [8, 32, 8] c = Inr c' \<and> shown c'))
    \<and> con_ok (vt_switch n c) \<and> shown (vt_switch n c) \<and> (cursor_shown c \<longrightarrow> cursor_shown (vt_switch n c))"
  using vt_write_ok [OF assms(1), of n data] vt_write_erase [OF assms] vt_switch_ok [OF assms(1)] assms(2) by blast

theorem screen_shows_active_terminal_witness:
  "con_ok sample_console \<and> shown sample_console \<and> (\<exists>c'. vt_write 0 [72, 105, 10] sample_console = Inr c' \<and> shown c' \<and> cursor_shown c')
   \<and> (\<exists>c'. vt_write 0 [8, 32, 8] sample_console = Inr c' \<and> shown c') \<and> shown (vt_switch 2 sample_console)"
proof -
  note T = screen_shows_active_terminal [OF sample_console_ok(1,2)]
  have "ansi_state (vts sample_console ! nat 0) = 0"
    by (simp add: sample_console_def vt_init_def Let_def)
  then have "\<exists>c'. vt_write 0 [8, 32, 8] sample_console = Inr c' \<and> shown c'" using T [of "[]" 0] by simp
  moreover have "\<exists>c'. vt_write 0 [72, 105, 10] sample_console = Inr c' \<and> shown c' \<and> cursor_shown c'"
    using T [of "[72, 105, 10]" 0] sample_console_ok(3) by simp
  ultimately show ?thesis using T [of "[]" 2] sample_console_ok by blast
qed

end
