(* ===== verification/TTY_Correct.thy ===== *)
theory TTY_Correct
  imports TTY Scheduler Console_Correct
begin

text \<open>
  Correctness of terminal input: the bytes a terminal holds, the invariant of the machine of terminals,
  threads and keyboard, the line discipline, and the keyboard interrupt.
\<close>

section \<open>Line buffers\<close>














section \<open>The machine\<close>











section \<open>Typing a line\<close>








section \<open>Properties\<close>







end
