(* ===== verification/Process.thy ===== *)
theory Process
  imports Thread VMM VFS TTY
begin

unbundle bit_operations_syntax

text \<open>
  Processes, \<open>kernel/process/process.c\<close>. The state has the threads and processes, the memory with its
  frames and page tables, and the open files by their addresses.
\<close>

record 'k pstate =
  sk :: kstate
  vm :: VMM.kmem
  files :: "u64 \<Rightarrow> 'k vfile"

definition upd_proc :: "u64 \<Rightarrow> (process \<Rightarrow> process) \<Rightarrow> kstate \<Rightarrow> kstate" where
  "upd_proc p f s = s\<lparr>procs := (procs s)(p := f (procs s p))\<rparr>"

section \<open>Creating processes\<close>

text \<open>One of the three blocks that put a file on the first terminal into slot \<open>i\<close> of process \<open>p\<close>.\<close>

definition open_tty :: "'k \<Rightarrow> u64 \<Rightarrow> nat \<Rightarrow> 'k pstate \<Rightarrow> 'k pstate" where
  "open_tty tty_ops p i s =
     (let (f, k) = ks_kmalloc (sk s)
      in if f = 0 then s\<lparr>sk := k\<rparr>
         else s\<lparr>files := (files s)(f := \<lparr>f_vnode = tty_get_vnode tty_ops 0, f_file = \<lparr>offset = 0, flags = 0\<rparr>\<rparr>),
                sk := upd_proc p (\<lambda>r. r\<lparr>fd_table := (fd_table r)[i := f]\<rparr>) k\<rparr>)"

definition open_ttys :: "'k \<Rightarrow> u64 \<Rightarrow> 'k pstate \<Rightarrow> 'k pstate" where
  "open_ttys tty_ops p s = open_tty tty_ops p 2 (open_tty tty_ops p 1 (open_tty tty_ops p 0 s))"

definition process_init :: "'k \<Rightarrow> 'k pstate \<Rightarrow> 'k pstate" where
  "process_init tty_ops s =
     (let p = kernel_process (sk s)
      in open_ttys tty_ops p (s\<lparr>sk := upd_proc p (\<lambda>r. r\<lparr>pid := 0, pml4_phys := vmm_get_current_pml4 (vm s),
           fd_table := replicate MAX_FDS 0\<rparr>) (sk s)\<rparr>))"

text \<open>The result is the new process, or 0.\<close>

definition process_create :: "'k \<Rightarrow> 'k pstate \<Rightarrow> u64 \<times> 'k pstate" where
  "process_create tty_ops s =
     (let (p, k) = ks_kmalloc (sk s)
      in if p = 0 then (0, s\<lparr>sk := k\<rparr>)
         else
           (let k1 = (upd_proc p (\<lambda>r. r\<lparr>pid := next_pid k, p_state := PROCESS_RUNNING, fd_table := replicate MAX_FDS 0\<rparr>) k)
                  \<lparr>next_pid := next_pid k + 1\<rparr>;
                s1 = open_ttys tty_ops p (s\<lparr>sk := k1\<rparr>); k2 = sk s1;
                par = (if thread_current k2 \<noteq> 0 then t_process (threads k2 (thread_current k2)) else kernel_process k2);
                k3 = upd_proc p (\<lambda>r. r\<lparr>parent := par, children_head := 0\<rparr>) k2;
                k4 = upd_proc p (\<lambda>r. r\<lparr>next_sibling := children_head (procs k3 par)\<rparr>) k3;
                k5 = upd_proc par (\<lambda>r. r\<lparr>children_head := p\<rparr>) k4;
                k6 = upd_proc p (\<lambda>r. r\<lparr>exit_status := 0, waiter := 0\<rparr>) k5
            in case vmm_create_address_space (vm s1) of
                 (None, m) \<Rightarrow> (0, s1\<lparr>sk := ks_kfree p k6, vm := m\<rparr>)
               | (Some pml4, m) \<Rightarrow> (p, s1\<lparr>sk := upd_proc p (\<lambda>r. r\<lparr>pml4_phys := pml4\<rparr>) k6, vm := m\<rparr>)))"

section \<open>Destroying processes\<close>

text \<open>The walk of \<open>process_destroy\<close> along \<open>struct process **curr\<close>: the head of a list or a sibling's link.\<close>

datatype link = Head u64 | Sibling u64

definition deref :: "(u64 \<Rightarrow> process) \<Rightarrow> link \<Rightarrow> u64" where
  "deref P l = (case l of Head p \<Rightarrow> children_head (P p) | Sibling p \<Rightarrow> next_sibling (P p))"

definition assign :: "link \<Rightarrow> u64 \<Rightarrow> (u64 \<Rightarrow> process) \<Rightarrow> (u64 \<Rightarrow> process)" where
  "assign l v P = (case l of
       Head p \<Rightarrow> P(p := (P p)\<lparr>children_head := v\<rparr>)
     | Sibling p \<Rightarrow> P(p := (P p)\<lparr>next_sibling := v\<rparr>))"

partial_function (option) find_link :: "(u64 \<Rightarrow> process) \<Rightarrow> u64 \<Rightarrow> link \<Rightarrow> link option" where
  "find_link P proc l =
     (if deref P l = 0 \<or> deref P l = proc then Some l else find_link P proc (Sibling (deref P l)))"

definition unlink_child :: "u64 \<Rightarrow> (u64 \<Rightarrow> process) \<Rightarrow> (u64 \<Rightarrow> process) outcome" where
  "unlink_child proc P =
     (if parent (P proc) = 0 then Inr P
      else (case find_link P proc (Head (parent (P proc))) of
          None \<Rightarrow> Inl Diverges
        | Some l \<Rightarrow> Inr (if deref P l = proc then assign l (next_sibling (P proc)) P else P)))"

definition process_destroy :: "u64 \<Rightarrow> 'k pstate \<Rightarrow> 'k pstate outcome" where
  "process_destroy proc s =
     (if proc = 0 \<or> proc = kernel_process (sk s) then Inr s
      else bindF (unlink_child proc (procs (sk s))) (\<lambda>P.
           bindF (vmm_destroy_address_space (pml4_phys (P proc)) (vm s)) (\<lambda>(pml4, m).
           Inr (s\<lparr>sk := ks_kfree proc ((sk s)\<lparr>procs := P(proc := (P proc)\<lparr>pml4_phys := pml4\<rparr>)\<rparr>), vm := m\<rparr>))))"

section \<open>Exit\<close>

partial_function (option) reparent_loop :: "u64 \<Rightarrow> u64 \<Rightarrow> (u64 \<Rightarrow> process) \<Rightarrow> (u64 \<Rightarrow> process) option" where
  "reparent_loop new_parent child P =
     (if child = 0 then Some P
      else
        (let nxt_child = next_sibling (P child);
             P1 = P(child := (P child)\<lparr>parent := new_parent\<rparr>);
             P2 = P1(child := (P1 child)\<lparr>next_sibling := children_head (P1 new_parent)\<rparr>);
             P3 = P2(new_parent := (P2 new_parent)\<lparr>children_head := child\<rparr>)
         in reparent_loop new_parent nxt_child P3))"

definition process_reparent_children :: "u64 \<Rightarrow> u64 \<Rightarrow> kstate \<Rightarrow> kstate outcome" where
  "process_reparent_children proc new_parent s =
     (if proc = 0 \<or> new_parent = 0 then Inr s
      else (case reparent_loop new_parent (children_head (procs s proc)) (procs s) of
          None \<Rightarrow> Inl Diverges
        | Some P \<Rightarrow> Inr (s\<lparr>procs := P(proc := (P proc)\<lparr>children_head := 0\<rparr>)\<rparr>)))"

definition wake_parent :: "u64 \<Rightarrow> kstate \<Rightarrow> kstate" where
  "wake_parent proc s =
     (let par = parent (procs s proc)
      in if par \<noteq> 0 \<and> waiter (procs s par) \<noteq> 0
         then upd_proc par (\<lambda>r. r\<lparr>waiter := 0\<rparr>) (thread_wake_waiter (waiter (procs s par)) s) else s)"

definition process_exit :: "u64 \<Rightarrow> u32 \<Rightarrow> kstate \<Rightarrow> kstate outcome" where
  "process_exit proc status s =
     (if proc = 0 \<or> proc = kernel_process s then Inr s
      else bindF (process_reparent_children proc (kernel_process s)
             (upd_proc proc (\<lambda>r. r\<lparr>exit_status := status, p_state := PROCESS_ZOMBIE\<rparr>) s)) (\<lambda>s1.
           thread_terminate_process proc (wake_parent proc s1)))"

definition process_terminate :: "u64 \<Rightarrow> kstate \<Rightarrow> kstate outcome" where
  "process_terminate proc s = process_exit proc (- 1) s"

end
