(* ===== verification/ELF.thy ===== *)
theory ELF
  imports VMM Disk_Bytes
begin

unbundle bit_operations_syntax

text \<open>
  The ELF loader, \<open>kernel/process/elf.c\<close>. The image is a kernel buffer, a list of bytes of which the
  first \<open>size\<close> are the file; reading past the buffer is \<open>OutOfBounds\<close>. Pages are allocated, mapped and
  filled in the memory of the virtual memory manager.
\<close>

section \<open>Headers\<close>

record Elf64_Ehdr =
  magic :: u32
  eclass :: u8
  machine :: u16
  entry :: u64
  phoff :: u64
  phentsize :: u16
  phnum :: u16

record Elf64_Phdr =
  ptype :: u32
  pflags :: u32
  poffset :: u64
  vaddr :: u64
  filesz :: u64
  memsz :: u64

datatype elf_load_error =
  ELF_LOAD_SUCCESS | ELF_BAD_MAGIC | ELF_UNSUPPORTED_CLASS | ELF_WRONG_MACHINE | ELF_MALFORMED_HEADER
  | ELF_MALFORMED_PHDR | ELF_FILESZ_GT_MEMSZ | ELF_SEGMENT_OUT_OF_BOUNDS | ELF_VADDR_OVERFLOW | ELF_SEGMENT_NOT_USER
  | ELF_ENTRY_OUT_OF_BOUNDS | ELF_RWX_REJECTED | ELF_VMM_ERROR | ELF_STACK_ERROR

text \<open>Fields of the packed structures at their offsets.\<close>

definition get16 :: "u8 list \<Rightarrow> nat \<Rightarrow> u16" where
  "get16 b i = le16 (b ! i) (b ! (i + 1))"

definition get32 :: "u8 list \<Rightarrow> nat \<Rightarrow> u32" where
  "get32 b i = le32 (b ! i) (b ! (i + 1)) (b ! (i + 2)) (b ! (i + 3))"

definition get64 :: "u8 list \<Rightarrow> nat \<Rightarrow> u64" where
  "get64 b i = ucast (get32 b i) OR push_bit 32 (ucast (get32 b (i + 4)))"

abbreviation EHDR_SIZE :: nat where "EHDR_SIZE \<equiv> 64"
abbreviation PHDR_SIZE :: nat where "PHDR_SIZE \<equiv> 56"

definition read_ehdr :: "u8 list \<Rightarrow> Elf64_Ehdr" where
  "read_ehdr b = \<lparr>magic = get32 b 0, eclass = b ! 4, machine = get16 b 18, entry = get64 b 24, phoff = get64 b 32,
     phentsize = get16 b 54, phnum = get16 b 56\<rparr>"

definition read_phdr :: "u8 list \<Rightarrow> nat \<Rightarrow> Elf64_Phdr outcome" where
  "read_phdr b i =
     (if i + PHDR_SIZE \<le> length b
      then Inr \<lparr>ptype = get32 b i, pflags = get32 b (i + 4), poffset = get64 b (i + 8), vaddr = get64 b (i + 16),
        filesz = get64 b (i + 32), memsz = get64 b (i + 40)\<rparr>
      else Inl OutOfBounds)"

abbreviation ELF_MAGIC :: u32 where "ELF_MAGIC \<equiv> 0x464C457F"
abbreviation ELF_CLASS64 :: u8 where "ELF_CLASS64 \<equiv> 2"
abbreviation ELF_MACHINE_AMD64 :: u16 where "ELF_MACHINE_AMD64 \<equiv> 62"
abbreviation PT_LOAD :: u32 where "PT_LOAD \<equiv> 1"
abbreviation PF_X :: u32 where "PF_X \<equiv> 1"
abbreviation PF_W :: u32 where "PF_W \<equiv> 2"

definition check_elf_header :: "u8 list \<Rightarrow> u64 \<Rightarrow> elf_load_error" where
  "check_elf_header b fsize =
     (let hdr = read_ehdr b;
          ph_end = phoff hdr + ucast (phnum hdr) * ucast (phentsize hdr)
      in if unat fsize < EHDR_SIZE then ELF_MALFORMED_HEADER
         else if magic hdr \<noteq> ELF_MAGIC then ELF_BAD_MAGIC
         else if eclass hdr \<noteq> ELF_CLASS64 then ELF_UNSUPPORTED_CLASS
         else if machine hdr \<noteq> ELF_MACHINE_AMD64 then ELF_WRONG_MACHINE
         else if ph_end < phoff hdr \<or> ph_end > fsize then ELF_MALFORMED_PHDR
         else ELF_LOAD_SUCCESS)"

section \<open>Segments\<close>

text \<open>The checks on one segment, in the order of the code.\<close>

definition check_segment :: "Elf64_Phdr \<Rightarrow> u64 \<Rightarrow> elf_load_error" where
  "check_segment ph fsize =
     (let seg_file_end = poffset ph + filesz ph; seg_mem_end = vaddr ph + memsz ph
      in if filesz ph > memsz ph then ELF_FILESZ_GT_MEMSZ
         else if seg_file_end < poffset ph \<or> seg_file_end > fsize then ELF_SEGMENT_OUT_OF_BOUNDS
         else if seg_mem_end < vaddr ph then ELF_VADDR_OVERFLOW
         else if seg_mem_end > 0x00007FFFFFFFFFFF then ELF_SEGMENT_NOT_USER
         else if pflags ph AND PF_W \<noteq> 0 \<and> pflags ph AND PF_X \<noteq> 0 then ELF_RWX_REJECTED
         else ELF_LOAD_SUCCESS)"

definition entry_in :: "u64 \<Rightarrow> Elf64_Phdr \<Rightarrow> bool" where
  "entry_in e ph \<longleftrightarrow> pflags ph AND PF_X \<noteq> 0 \<and> vaddr ph \<le> e \<and> e < vaddr ph + memsz ph"

definition segment_flags :: "Elf64_Phdr \<Rightarrow> u32" where
  "segment_flags ph =
     (let f1 = (if pflags ph AND PF_W \<noteq> 0 then VMM_FLAG_USER OR VMM_FLAG_WRITABLE else VMM_FLAG_USER)
      in if pflags ph AND PF_X = 0 then f1 OR VMM_FLAG_NO_EXECUTE else f1)"

text \<open>\<open>memset(p, 0, 0x1000)\<close> and \<open>memcpy\<close> from the image, in the memory.\<close>

fun write_bytes :: "u64 \<Rightarrow> u8 list \<Rightarrow> mem \<Rightarrow> mem" where
  "write_bytes a [] m = m"
| "write_bytes a (b # bs) m = write_bytes (a + 1) bs (m(a := b))"

definition zero_page :: "u64 \<Rightarrow> kmem \<Rightarrow> kmem" where
  "zero_page paddr k = k\<lparr>ram := memset (ram k) (phys_to_virt paddr) 0 4096\<rparr>"

text \<open>A new zeroed page at \<open>page\<close>; on failure the frame is given back.\<close>

definition map_new_page :: "u64 \<Rightarrow> u64 \<Rightarrow> u32 \<Rightarrow> kmem \<Rightarrow> (bool \<times> kmem) outcome" where
  "map_new_page pml4 page flgs k =
     (let (paddr, f) = pmm_alloc_page (frames k); k1 = k\<lparr>frames := f\<rparr>
      in if paddr = 0 then Inr (False, k1)
         else (case vmm_map_page pml4 page paddr flgs k1 of
             (False, k2) \<Rightarrow> bindF (free_frame paddr k2) (\<lambda>k3. Inr (False, k3))
           | (True, k2) \<Rightarrow> Inr (True, zero_page paddr k2)))"

text \<open>What the loop over the pages of a segment copies into one of them.\<close>

definition copy_part :: "u8 list \<Rightarrow> Elf64_Phdr \<Rightarrow> u64 \<Rightarrow> u64 \<Rightarrow> kmem \<Rightarrow> kmem outcome" where
  "copy_part b ph page paddr k =
     (let page_offset = (if page < vaddr ph then vaddr ph - page else 0);
          copy_start_vaddr = page + page_offset
      in if copy_start_vaddr < vaddr ph + filesz ph then
           (let file_offset = poffset ph + (copy_start_vaddr - vaddr ph);
                file_remaining = (vaddr ph + filesz ph) - copy_start_vaddr;
                copy_size = (if 0x1000 - page_offset > file_remaining then file_remaining else 0x1000 - page_offset)
            in if unat file_offset + unat copy_size \<le> length b
               then Inr (k\<lparr>ram := write_bytes (phys_to_virt paddr + page_offset) (slice (unat file_offset) (unat copy_size) b) (ram k)\<rparr>)
               else Inl OutOfBounds)
         else Inr k)"

fun load_pages :: "u8 list \<Rightarrow> u64 \<Rightarrow> Elf64_Phdr \<Rightarrow> u64 list \<Rightarrow> kmem \<Rightarrow> (bool \<times> kmem) outcome" where
  "load_pages b pml4 ph [] k = Inr (True, k)"
| "load_pages b pml4 ph (page # pages) k =
     bindF (if vmm_get_phys pml4 page k = None then map_new_page pml4 page (segment_flags ph) k else Inr (True, k)) (\<lambda>(ok, k1).
     if \<not> ok then Inr (False, k1)
     else bindF (copy_part b ph page (case vmm_get_phys pml4 page k1 of None \<Rightarrow> 0 | Some pa \<Rightarrow> pa) k1)
       (load_pages b pml4 ph pages))"

definition segment_pages :: "Elf64_Phdr \<Rightarrow> u64 list" where
  "segment_pages ph = page_addrs (vaddr ph AND NOT 0xFFF) ((vaddr ph + memsz ph + 0xFFF) AND NOT 0xFFF)"

text \<open>The loop over the program headers; the flag is \<open>entry_found\<close>.\<close>

fun load_segments :: "u8 list \<Rightarrow> u64 \<Rightarrow> u64 \<Rightarrow> Elf64_Ehdr \<Rightarrow> nat list \<Rightarrow> bool \<Rightarrow> kmem \<Rightarrow> (elf_load_error \<times> bool \<times> kmem) outcome" where
  "load_segments b fsize pml4 hdr [] found k = Inr (ELF_LOAD_SUCCESS, found, k)"
| "load_segments b fsize pml4 hdr (i # is) found k =
     bindF (read_phdr b (unat (phoff hdr) + i * unat (phentsize hdr))) (\<lambda>ph.
     if ptype ph \<noteq> PT_LOAD then load_segments b fsize pml4 hdr is found k
     else if check_segment ph fsize \<noteq> ELF_LOAD_SUCCESS then Inr (check_segment ph fsize, found, k)
     else bindF (load_pages b pml4 ph (segment_pages ph) k) (\<lambda>(ok, k1).
       if \<not> ok then Inr (ELF_VMM_ERROR, found \<or> entry_in (entry hdr) ph, k1)
       else load_segments b fsize pml4 hdr is (found \<or> entry_in (entry hdr) ph) k1))"

section \<open>The stack\<close>

abbreviation USER_STACK_TOP :: u64 where "USER_STACK_TOP \<equiv> 0x00007FFFFFFFF000"
abbreviation USER_STACK_PAGES :: u64 where "USER_STACK_PAGES \<equiv> 16"

fun map_stack :: "u64 \<Rightarrow> u64 list \<Rightarrow> kmem \<Rightarrow> (bool \<times> kmem) outcome" where
  "map_stack pml4 [] k = Inr (True, k)"
| "map_stack pml4 (page # pages) k =
     bindF (map_new_page pml4 page (VMM_FLAG_WRITABLE OR VMM_FLAG_USER OR VMM_FLAG_NO_EXECUTE) k) (\<lambda>(ok, k1).
     if ok then map_stack pml4 pages k1 else Inr (False, k1))"

fun write_user_stack_bytes :: "u64 \<Rightarrow> u64 \<Rightarrow> u8 list \<Rightarrow> kmem \<Rightarrow> kmem" where
  "write_user_stack_bytes pml4 va [] k = k"
| "write_user_stack_bytes pml4 va (b # bs) k =
     write_user_stack_bytes pml4 (va + 1) bs
       (case vmm_get_phys pml4 (va AND NOT 0xFFF) k of
          None \<Rightarrow> k
        | Some paddr \<Rightarrow> k\<lparr>ram := (ram k)(phys_to_virt paddr + (va AND 0xFFF) := b)\<rparr>)"

text \<open>
  Strings and pointers go onto the stack from the last to the first; the lists are in that order.
  \<open>push_strings\<close> returns the addresses, first string first.
\<close>

fun push_strings :: "u64 \<Rightarrow> u8 list list \<Rightarrow> u64 \<Rightarrow> u64 list \<Rightarrow> kmem \<Rightarrow> u64 \<times> u64 list \<times> kmem" where
  "push_strings pml4 [] rsp ptrs k = (rsp, ptrs, k)"
| "push_strings pml4 (s # ss) rsp ptrs k =
     (let rsp1 = rsp - (of_nat (length s) + 1)
      in push_strings pml4 ss rsp1 (rsp1 # ptrs) (write_user_stack_bytes pml4 rsp1 (s @ [0]) k))"

definition bytes_of_u64 :: "u64 \<Rightarrow> u8 list" where
  "bytes_of_u64 w = map (\<lambda>i. ucast (drop_bit (8 * i) w)) [0 ..< 8]"

fun push_ptrs :: "u64 \<Rightarrow> u64 list \<Rightarrow> u64 \<Rightarrow> kmem \<Rightarrow> u64 \<times> kmem" where
  "push_ptrs pml4 [] rsp k = (rsp, k)"
| "push_ptrs pml4 (p # ps) rsp k =
     push_ptrs pml4 ps (rsp - 8) (write_user_stack_bytes pml4 (rsp - 8) (bytes_of_u64 p) k)"

definition build_stack :: "u64 \<Rightarrow> u8 list list \<Rightarrow> u8 list list \<Rightarrow> kmem \<Rightarrow> u64 \<times> kmem" where
  "build_stack pml4 argv envp k =
     (let envs = take 32 envp; args = take 32 argv;
          (rsp1, envp_ptrs, k1) = push_strings pml4 (rev envs) USER_STACK_TOP [] k;
          (rsp2, argv_ptrs, k2) = push_strings pml4 (rev args) rsp1 [] k1;
          (rsp3, k3) = push_ptrs pml4 (0 # rev envp_ptrs) (rsp2 AND NOT 15) k2;
          (rsp4, k4) = push_ptrs pml4 (0 # rev argv_ptrs) rsp3 k3
      in push_ptrs pml4 [of_nat (length args)] rsp4 k4)"

section \<open>Loading\<close>

text \<open>The result: the error code, \<open>*out_entry\<close> and \<open>*out_rsp\<close> on success, and the memory.\<close>

definition elf_load_image ::
  "u64 \<Rightarrow> u8 list \<Rightarrow> u64 \<Rightarrow> u8 list list \<Rightarrow> u8 list list \<Rightarrow> kmem \<Rightarrow> (elf_load_error \<times> (u64 \<times> u64) \<times> kmem) outcome" where
  "elf_load_image pml4 b fsize argv envp k =
     (let hdr = read_ehdr b; err = check_elf_header b fsize
      in if err \<noteq> ELF_LOAD_SUCCESS then Inr (err, (0, 0), k)
         else bindF (load_segments b fsize pml4 hdr [0 ..< unat (phnum hdr)] False k) (\<lambda>(err, found, k1).
           if err \<noteq> ELF_LOAD_SUCCESS then Inr (err, (0, 0), k1)
           else if \<not> found then Inr (ELF_ENTRY_OUT_OF_BOUNDS, (0, 0), k1)
           else bindF (map_stack pml4 (page_addrs (USER_STACK_TOP - USER_STACK_PAGES * 0x1000) USER_STACK_TOP) k1) (\<lambda>(ok, k2).
             if \<not> ok then Inr (ELF_STACK_ERROR, (0, 0), k2)
             else (case build_stack pml4 argv envp k2 of (rsp, k3) \<Rightarrow> Inr (ELF_LOAD_SUCCESS, (entry hdr, rsp), k3)))))"

end
