(* ===== verification/Syscall.thy ===== *)
theory Syscall
  imports Process ELF
begin

unbundle bit_operations_syntax

text \<open>
  The system calls of \<open>kernel/syscall/syscall.c\<close>, over processes and threads, the memory, the virtual
  file system and the ELF loader. User memory is reached through the page tables of the current process;
  an access to an unmapped user address is a page fault in the kernel, \<open>OutOfBounds\<close>.
\<close>

section \<open>Initialisation\<close>

abbreviation MSR_EFER :: u32 where "MSR_EFER \<equiv> 0xC0000080"
abbreviation MSR_STAR :: u32 where "MSR_STAR \<equiv> 0xC0000081"
abbreviation MSR_LSTAR :: u32 where "MSR_LSTAR \<equiv> 0xC0000082"
abbreviation MSR_SFMASK :: u32 where "MSR_SFMASK \<equiv> 0xC0000084"

text \<open>The model-specific registers after \<open>syscall_init\<close>, from those before it and the address of the entry stub.\<close>

definition syscall_init :: "u64 \<Rightarrow> (u32 \<Rightarrow> u64) \<Rightarrow> (u32 \<Rightarrow> u64)" where
  "syscall_init syscall_entry msr =
     (let msr1 = msr(MSR_STAR := push_bit 32 0x08 OR push_bit 48 0x10, MSR_LSTAR := syscall_entry, MSR_SFMASK := push_bit 9 1)
      in msr1(MSR_EFER := msr1 MSR_EFER OR 1))"

section \<open>State\<close>

record syscall_frame =
  r11 :: u64
  rcx :: u64
  rsp :: u64

record ('k, 's) sys =
  ps :: "'k pstate"
  fss :: 's
  mnt :: "'k vfs"
  frame :: syscall_frame

text \<open>
  What the calls need from outside: the environment of the file system layer, the table of the terminals,
  the address of the \<open>struct file\<close> that \<open>vfs_open\<close> has just allocated, the addresses of kernel code, and
  what a fresh buffer of the size of an image holds.
\<close>

record ('k, 's) sys_env =
  venv :: "('k, 's) vfs_env"
  tty_key :: 'k
  file_ptr :: "'s \<Rightarrow> u64"
  code :: code_addrs
  junk :: "u8 list"

datatype sysret = Ret u64 | Asleep | Gone

text \<open>\<open>Asleep\<close>: the caller sleeps inside the call, which looks again when it is woken. \<open>Gone\<close>: the caller has exited.\<close>

abbreviation ECHILD :: int where "ECHILD \<equiv> 10"
abbreviation ENOSYS :: int where "ENOSYS \<equiv> 38"

definition errno :: "int \<Rightarrow> sysret" where
  "errno e = Ret (of_int (- e))"

definition kst :: "('k, 's) sys \<Rightarrow> kstate" where "kst s = sk (ps s)"

definition with_kst :: "(kstate \<Rightarrow> kstate) \<Rightarrow> ('k, 's) sys \<Rightarrow> ('k, 's) sys" where
  "with_kst f s = s\<lparr>ps := (ps s)\<lparr>sk := f (sk (ps s))\<rparr>\<rparr>"

definition kmalloc_in :: "('k, 's) sys \<Rightarrow> u64 \<times> ('k, 's) sys" where
  "kmalloc_in s = (case ks_kmalloc (kst s) of (p, k) \<Rightarrow> (p, with_kst (\<lambda>_. k) s))"

definition kfree_in :: "u64 \<Rightarrow> ('k, 's) sys \<Rightarrow> ('k, 's) sys" where
  "kfree_in p s = with_kst (ks_kfree p) s"

definition current_process :: "('k, 's) sys \<Rightarrow> u64" where
  "current_process s = t_process (threads (kst s) (thread_current (kst s)))"

definition proc :: "('k, 's) sys \<Rightarrow> process" where
  "proc s = procs (kst s) (current_process s)"

definition as_of :: "('k, 's) sys \<Rightarrow> u64" where
  "as_of s = pml4_phys (proc s)"

definition set_proc :: "(process \<Rightarrow> process) \<Rightarrow> ('k, 's) sys \<Rightarrow> ('k, 's) sys" where
  "set_proc f s = with_kst (upd_proc (current_process s) f) s"

section \<open>User memory\<close>

definition readable :: "u64 \<Rightarrow> u64 \<Rightarrow> ('k, 's) sys \<Rightarrow> bool" where
  "readable addr len s = user_range_readable (as_of s) addr len (vm (ps s))"

definition writable :: "u64 \<Rightarrow> u64 \<Rightarrow> ('k, 's) sys \<Rightarrow> bool" where
  "writable addr len s = user_range_writable (as_of s) addr len (vm (ps s))"

definition uget :: "('k, 's) sys \<Rightarrow> u64 \<Rightarrow> u8 outcome" where
  "uget s va = (case vmm_get_phys (as_of s) va (vm (ps s)) of
       None \<Rightarrow> Inl OutOfBounds
     | Some pa \<Rightarrow> Inr (ram (vm (ps s)) (phys_to_virt pa)))"

definition uput :: "u64 \<Rightarrow> u8 \<Rightarrow> ('k, 's) sys \<Rightarrow> ('k, 's) sys outcome" where
  "uput va b s = (case vmm_get_phys (as_of s) va (vm (ps s)) of
       None \<Rightarrow> Inl OutOfBounds
     | Some pa \<Rightarrow> Inr (s\<lparr>ps := (ps s)\<lparr>vm := (vm (ps s))\<lparr>ram := (ram (vm (ps s)))(phys_to_virt pa := b)\<rparr>\<rparr>\<rparr>))"

fun copy_in :: "('k, 's) sys \<Rightarrow> u64 \<Rightarrow> nat \<Rightarrow> u8 list outcome" where
  "copy_in s va 0 = Inr []"
| "copy_in s va (Suc n) = bindF (uget s va) (\<lambda>b. bindF (copy_in s (va + 1) n) (\<lambda>bs. Inr (b # bs)))"

fun copy_out :: "u64 \<Rightarrow> u8 list \<Rightarrow> ('k, 's) sys \<Rightarrow> ('k, 's) sys outcome" where
  "copy_out va [] s = Inr s"
| "copy_out va (b # bs) s = bindF (uput va b s) (copy_out (va + 1) bs)"

text \<open>
  The bounded copy of a path. \<open>n\<close> is how many bytes may still come; the code counts up to 255. The result
  is \<open>-EFAULT\<close> or the bytes before the terminating zero, or 255 bytes if there is none among them.
\<close>

fun path_loop :: "('k, 's) sys \<Rightarrow> u64 \<Rightarrow> nat \<Rightarrow> (int + u8 list) outcome" where
  "path_loop s path 0 = Inr (Inr [])"
| "path_loop s path (Suc n) =
     (if \<not> readable path 1 s then Inr (Inl (- EFAULT))
      else bindF (uget s path) (\<lambda>b.
        if b = 0 then Inr (Inr [])
        else bindF (path_loop s (path + 1) n) (\<lambda>r.
          Inr (case r of Inl e \<Rightarrow> Inl e | Inr bs \<Rightarrow> Inr (b # bs)))))"

definition copy_path :: "('k, 's) sys \<Rightarrow> u64 \<Rightarrow> (int + u8 list) outcome" where
  "copy_path s path = (if \<not> readable path 1 s then Inr (Inl (- EFAULT)) else path_loop s path 255)"

text \<open>\<open>sys_open\<close>, \<open>sys_mkdir\<close>, \<open>sys_unlink\<close> and \<open>sys_rmdir\<close> refuse a path that does not fit.\<close>

definition checked_path :: "('k, 's) sys \<Rightarrow> u64 \<Rightarrow> (int + u8 list) outcome" where
  "checked_path s path =
     bindF (copy_path s path) (\<lambda>r. Inr (case r of
         Inl e \<Rightarrow> Inl e
       | Inr bs \<Rightarrow> if length bs = 255 then Inl (- EINVAL) else Inr bs))"

section \<open>Files\<close>

definition bad_fd :: "u64 \<Rightarrow> ('k, 's) sys \<Rightarrow> bool" where
  "bad_fd fd s \<longleftrightarrow> unat fd \<ge> MAX_FDS \<or> fd_table (proc s) ! unat fd = 0"

definition file_of :: "u64 \<Rightarrow> ('k, 's) sys \<Rightarrow> 'k vfile option" where
  "file_of fd s = Some (files (ps s) (fd_table (proc s) ! unat fd))"

definition set_file :: "u64 \<Rightarrow> kfile \<Rightarrow> ('k, 's) sys \<Rightarrow> ('k, 's) sys" where
  "set_file fd f s =
     (let p = fd_table (proc s) ! unat fd
      in s\<lparr>ps := (ps s)\<lparr>files := (files (ps s))(p := (files (ps s) p)\<lparr>f_file := f\<rparr>)\<rparr>\<rparr>)"

definition sys_getpid :: "('k, 's) sys \<Rightarrow> sysret \<times> ('k, 's) sys" where
  "sys_getpid s = (Ret (scast (pid (proc s))), s)"

definition sys_write :: "('k, 's) sys_env \<Rightarrow> u64 \<Rightarrow> u64 \<Rightarrow> u64 \<Rightarrow> ('k, 's) sys \<Rightarrow> (sysret \<times> ('k, 's) sys) outcome" where
  "sys_write E fd buf len0 s =
     (if bad_fd fd s then Inr (errno EBADF, s)
      else if len0 = 0 then Inr (Ret 0, s)
      else
        (let len = (if len0 > 4096 then 4096 else len0)
         in if \<not> readable buf len s then Inr (errno EFAULT, s)
            else
              (let (kbuf, s1) = kmalloc_in s
               in if kbuf = 0 then Inr (errno ENOMEM, s1)
                  else bindF (copy_in s1 buf (unat len)) (\<lambda>data.
                       bindF (vfs_write (venv E) (file_of fd s1) data (fss s1)) (\<lambda>(r, fs).
                       (let s2 = kfree_in kbuf (s1\<lparr>fss := fs\<rparr>)
                        in case r of
                             Inl e \<Rightarrow> Inr (Ret (of_int e), s2)
                           | Inr (err, f, n) \<Rightarrow>
                               Inr (Ret (if err < 0 then of_int err else of_nat n), set_file fd f s2)))))))"

abbreviation SUPPORTED_OPEN_FLAGS :: u64 where
  "SUPPORTED_OPEN_FLAGS \<equiv> O_WRONLY OR O_RDWR OR O_CREAT OR O_EXCL OR O_TRUNC OR O_APPEND"

definition sys_open :: "('k, 's) sys_env \<Rightarrow> u64 \<Rightarrow> u64 \<Rightarrow> ('k, 's) sys \<Rightarrow> (sysret \<times> ('k, 's) sys) outcome" where
  "sys_open E path flgs s =
     (if flgs AND NOT SUPPORTED_OPEN_FLAGS \<noteq> 0 then Inr (errno EINVAL, s)
      else bindF (checked_path s path) (\<lambda>r. case r of
          Inl e \<Rightarrow> Inr (Ret (of_int e), s)
        | Inr kpath \<Rightarrow>
           (case find (\<lambda>j. fd_table (proc s) ! j = 0) [3 ..< MAX_FDS] of
              None \<Rightarrow> Inr (errno ENOMEM, s)
            | Some fd \<Rightarrow>
                bindF (vfs_open (venv E) (mnt s) (Some kpath) flgs (fss s)) (\<lambda>(r, fs).
                case r of
                  Inl e \<Rightarrow> Inr (Ret (of_int e), s\<lparr>fss := fs\<rparr>)
                | Inr vf \<Rightarrow>
                   (let p = file_ptr E fs; s1 = s\<lparr>fss := fs, ps := (ps s)\<lparr>files := (files (ps s))(p := vf)\<rparr>\<rparr>
                    in Inr (Ret (of_nat fd), set_proc (\<lambda>q. q\<lparr>fd_table := (fd_table q)[fd := p]\<rparr>) s1))))))"

definition sys_read :: "('k, 's) sys_env \<Rightarrow> u64 \<Rightarrow> u64 \<Rightarrow> u64 \<Rightarrow> ('k, 's) sys \<Rightarrow> (sysret \<times> ('k, 's) sys) outcome" where
  "sys_read E fd buf count0 s =
     (if bad_fd fd s then Inr (errno EBADF, s)
      else if count0 = 0 then Inr (Ret 0, s)
      else
        (let count = (if count0 > 4096 then 4096 else count0)
         in if \<not> writable buf count s then Inr (errno EFAULT, s)
            else
              (let (kbuf, s1) = kmalloc_in s
               in if kbuf = 0 then Inr (errno ENOMEM, s1)
                  else bindF (vfs_read (venv E) (file_of fd s1) count (fss s1)) (\<lambda>(r, fs).
                    case r of
                      Inl e \<Rightarrow> Inr (Ret (of_int e), kfree_in kbuf (s1\<lparr>fss := fs\<rparr>))
                    | Inr (err, f, data) \<Rightarrow>
                       (let s2 = set_file fd f (s1\<lparr>fss := fs\<rparr>)
                        in bindF (if err \<ge> 0 then copy_out buf data s2 else Inr s2) (\<lambda>s3.
                           Inr (Ret (if err < 0 then of_int err else of_nat (length data)), kfree_in kbuf s3)))))))"

definition sys_close :: "('k, 's) sys_env \<Rightarrow> u64 \<Rightarrow> ('k, 's) sys \<Rightarrow> (sysret \<times> ('k, 's) sys) outcome" where
  "sys_close E fd s =
     (if bad_fd fd s then Inr (errno EBADF, s)
      else bindF (vfs_close (venv E) (file_of fd s) (fss s)) (\<lambda>(r, fs).
        Inr (Ret (case r of Inl e \<Rightarrow> of_int e | Inr _ \<Rightarrow> 0),
          set_proc (\<lambda>q. q\<lparr>fd_table := (fd_table q)[unat fd := 0]\<rparr>) (s\<lparr>fss := fs\<rparr>))))"

text \<open>The bytes of a \<open>struct dirent\<close>, which the file system writes into a buffer of \<open>count\<close> bytes.\<close>

definition dirent_bytes :: "dirent \<Rightarrow> u8 list" where
  "dirent_bytes d = bytes_of_u64 (d_ino d) @ bytes_of_u64 (d_type d) @ bytes_of_u64 (d_reclen d)
     @ take 256 (d_name d @ replicate 256 0)"

definition sys_getdents :: "('k, 's) sys_env \<Rightarrow> u64 \<Rightarrow> u64 \<Rightarrow> u64 \<Rightarrow> ('k, 's) sys \<Rightarrow> (sysret \<times> ('k, 's) sys) outcome" where
  "sys_getdents E fd dirp count0 s =
     (if bad_fd fd s then Inr (errno EBADF, s)
      else
        (let count = (if count0 > 4096 then 4096 else count0)
         in if \<not> writable dirp count s then Inr (errno EFAULT, s)
            else
              (let (kbuf, s1) = kmalloc_in s
               in if kbuf = 0 then Inr (errno ENOMEM, s1)
                  else bindF (vfs_getdents (venv E) (file_of fd s1) count (fss s1)) (\<lambda>(r, fs).
                    case r of
                      Inl e \<Rightarrow> Inr (Ret (of_int e), kfree_in kbuf (s1\<lparr>fss := fs\<rparr>))
                    | Inr (err, f, d) \<Rightarrow>
                       (let s2 = set_file fd f (s1\<lparr>fss := fs\<rparr>);
                            data = (case d of None \<Rightarrow> [] | Some e \<Rightarrow> dirent_bytes e)
                        in if unat count < length data then Inl OutOfBounds
                           else bindF (if err > 0 then copy_out dirp (take (nat err) data) s2 else Inr s2) (\<lambda>s3.
                             Inr (Ret (of_int err), kfree_in kbuf s3)))))))"

definition sys_mkdir :: "('k, 's) sys_env \<Rightarrow> u64 \<Rightarrow> u64 \<Rightarrow> ('k, 's) sys \<Rightarrow> (sysret \<times> ('k, 's) sys) outcome" where
  "sys_mkdir E path mode s =
     bindF (checked_path s path) (\<lambda>r. case r of
         Inl e \<Rightarrow> Inr (Ret (of_int e), s)
       | Inr kpath \<Rightarrow> bindF (vfs_mkdir (venv E) (mnt s) (Some kpath) mode (fss s)) (\<lambda>(r, fs).
           Inr (Ret (case r of Inl e \<Rightarrow> of_int e | Inr _ \<Rightarrow> 0), s\<lparr>fss := fs\<rparr>)))"

definition sys_unlink :: "('k, 's) sys_env \<Rightarrow> u64 \<Rightarrow> ('k, 's) sys \<Rightarrow> (sysret \<times> ('k, 's) sys) outcome" where
  "sys_unlink E path s =
     bindF (checked_path s path) (\<lambda>r. case r of
         Inl e \<Rightarrow> Inr (Ret (of_int e), s)
       | Inr kpath \<Rightarrow> bindF (vfs_unlink (venv E) (mnt s) (Some kpath) (fss s)) (\<lambda>(r, fs).
           Inr (Ret (case r of Inl e \<Rightarrow> of_int e | Inr _ \<Rightarrow> 0), s\<lparr>fss := fs\<rparr>)))"

definition sys_rmdir :: "('k, 's) sys_env \<Rightarrow> u64 \<Rightarrow> ('k, 's) sys \<Rightarrow> (sysret \<times> ('k, 's) sys) outcome" where
  "sys_rmdir E path s =
     bindF (checked_path s path) (\<lambda>r. case r of
         Inl e \<Rightarrow> Inr (Ret (of_int e), s)
       | Inr kpath \<Rightarrow> bindF (vfs_rmdir (venv E) (mnt s) (Some kpath) (fss s)) (\<lambda>(r, fs).
           Inr (Ret (case r of Inl e \<Rightarrow> of_int e | Inr _ \<Rightarrow> 0), s\<lparr>fss := fs\<rparr>)))"

section \<open>Processes\<close>

definition sys_exit :: "u64 \<Rightarrow> ('k, 's) sys \<Rightarrow> (sysret \<times> ('k, 's) sys) outcome" where
  "sys_exit c s =
     bindF (process_exit (current_process s) (ucast c) (kst s)) (\<lambda>k.
     bindF (schedule_after_exit k) (\<lambda>k1. Inr (Gone, with_kst (\<lambda>_. k1) s)))"

text \<open>
  The loop over the children: whether there is one that the caller waits for, and the first such child
  that is a zombie, or 0.
\<close>

partial_function (option) scan_children :: "(u64 \<Rightarrow> process) \<Rightarrow> int \<Rightarrow> u64 \<Rightarrow> bool \<Rightarrow> (bool \<times> u64) option" where
  "scan_children P p child has_children =
     (if child = 0 then Some (has_children, 0)
      else if p = - 1 \<or> sint (pid (P child)) = p then
        (if p_state (P child) = PROCESS_ZOMBIE then Some (True, child)
         else scan_children P p (next_sibling (P child)) True)
      else scan_children P p (next_sibling (P child)) has_children)"

definition sys_waitpid :: "u64 \<Rightarrow> u64 \<Rightarrow> ('k, 's) sys \<Rightarrow> (sysret \<times> ('k, 's) sys) outcome" where
  "sys_waitpid pid_arg status s =
     (let p = sint pid_arg
      in if p \<noteq> - 1 \<and> p \<le> 0 then Inr (errno EINVAL, s)
         else if status \<noteq> 0 \<and> \<not> writable status 4 s then Inr (errno EFAULT, s)
         else (case scan_children (procs (kst s)) p (children_head (proc s)) False of
             None \<Rightarrow> Inl Diverges
           | Some (has_children, z) \<Rightarrow>
               if \<not> has_children then Inr (errno ECHILD, s)
               else if z \<noteq> 0 then
                 bindF (if status \<noteq> 0 then copy_out status (bytes_of_u32 (exit_status (procs (kst s) z))) s else Inr s) (\<lambda>s1.
                 bindF (process_destroy z (ps s1)) (\<lambda>q.
                 Inr (Ret (scast (pid (procs (kst s) z))), s1\<lparr>ps := q\<rparr>)))
               else bindF (thread_block_on_process (current_process s) (kst s)) (\<lambda>k.
                 Inr (Asleep, with_kst (\<lambda>_. k) s))))"

section \<open>Arguments\<close>

text \<open>Reading a pointer of a user array.\<close>

definition uget64 :: "('k, 's) sys \<Rightarrow> u64 \<Rightarrow> u64 outcome" where
  "uget64 s va = bindF (copy_in s va 8) (\<lambda>bs. Inr (get64 bs 0))"

fun count_strings :: "('k, 's) sys \<Rightarrow> u64 \<Rightarrow> nat \<Rightarrow> (int + u64 list) outcome" where
  "count_strings s a 0 = Inr (Inr [])"
| "count_strings s a (Suc n) =
     (if \<not> readable a 8 s then Inr (Inl (- 1))
      else bindF (uget64 s a) (\<lambda>p.
        if p = 0 then Inr (Inr [])
        else bindF (count_strings s (a + 8) n) (\<lambda>r. Inr (case r of Inl e \<Rightarrow> Inl e | Inr qs \<Rightarrow> Inr (p # qs)))))"

text \<open>The length loop: the bytes before the zero, \<open>None\<close> if an address is not readable.\<close>

fun user_string :: "('k, 's) sys \<Rightarrow> u64 \<Rightarrow> nat \<Rightarrow> u8 list option outcome" where
  "user_string s a 0 = Inr (Some [])"
| "user_string s a (Suc n) =
     (if \<not> readable a 1 s then Inr None
      else bindF (uget s a) (\<lambda>b.
        if b = 0 then Inr (Some [])
        else bindF (user_string s (a + 1) n) (\<lambda>r. Inr (case r of None \<Rightarrow> None | Some bs \<Rightarrow> Some (b # bs)))))"

text \<open>
  The copied array: its address and its strings with theirs. An error is -1, -2 or -3; what was allocated
  before it is freed.
\<close>

type_synonym karray = "u64 \<times> (u64 \<times> u8 list) list"

definition free_strings :: "(u64 \<times> u8 list) list \<Rightarrow> ('k, 's) sys \<Rightarrow> ('k, 's) sys" where
  "free_strings xs s = fold (\<lambda>(p, _). kfree_in p) xs s"

fun copy_strings :: "u64 \<Rightarrow> u64 list \<Rightarrow> (u64 \<times> u8 list) list \<Rightarrow> ('k, 's) sys \<Rightarrow> ((int + karray) \<times> ('k, 's) sys) outcome" where
  "copy_strings arr [] xs s = Inr (Inr (arr, xs), s)"
| "copy_strings arr (u # us) xs s =
     (let undo = kfree_in arr (free_strings xs s)
      in bindF (user_string s u 4096) (\<lambda>r. case r of
           None \<Rightarrow> Inr (Inl (- 1), undo)
         | Some bs \<Rightarrow>
             if length bs = 4096 then Inr (Inl (- 3), undo)
             else
               (let (p, s1) = kmalloc_in s
                in if p = 0 then Inr (Inl (- 2), kfree_in arr (free_strings xs s1))
                   else copy_strings arr us (xs @ [(p, bs)]) s1)))"

definition copy_user_string_array :: "u64 \<Rightarrow> ('k, 's) sys \<Rightarrow> ((int + karray option) \<times> ('k, 's) sys) outcome" where
  "copy_user_string_array user_array s =
     (if user_array = 0 then Inr (Inr None, s)
      else bindF (count_strings s user_array 32) (\<lambda>r. case r of
          Inl e \<Rightarrow> Inr (Inl e, s)
        | Inr us \<Rightarrow>
           (let (arr, s1) = kmalloc_in s
            in if arr = 0 then Inr (Inl (- 2), s1)
               else bindF (copy_strings arr us [] s1) (\<lambda>(r, s2).
                 Inr (case r of Inl e \<Rightarrow> Inl e | Inr a \<Rightarrow> Inr (Some a), s2)))))"

definition free_kernel_string_array :: "karray option \<Rightarrow> ('k, 's) sys \<Rightarrow> ('k, 's) sys" where
  "free_kernel_string_array a s =
     (case a of None \<Rightarrow> s | Some (arr, xs) \<Rightarrow> kfree_in arr (free_strings xs s))"

definition array_error :: "int \<Rightarrow> sysret" where
  "array_error e = (if e = - 1 then errno EFAULT else if e = - 2 then errno ENOMEM else errno EINVAL)"

section \<open>Loading a program\<close>

text \<open>
  The first half of \<open>sys_spawn\<close> and \<open>sys_execve\<close>, which they share word for word: the path, the arguments,
  and the file in a buffer of 64 KiB. The result has the two arrays, the argument and environment strings,
  the buffer's address and contents and the number of bytes read.
\<close>

abbreviation MAX_ELF_SIZE :: u64 where "MAX_ELF_SIZE \<equiv> 65536"

record loaded =
  l_argv :: "karray option"
  l_envp :: "karray option"
  l_args :: "u8 list list"
  l_envs :: "u8 list list"
  l_buf :: u64
  l_image :: "u8 list"
  l_size :: u64

definition free_args :: "karray option \<Rightarrow> karray option \<Rightarrow> ('k, 's) sys \<Rightarrow> ('k, 's) sys" where
  "free_args argv envp s = free_kernel_string_array envp (free_kernel_string_array argv s)"

definition strings :: "karray option \<Rightarrow> u8 list list \<Rightarrow> u8 list list" where
  "strings a dflt = (case a of None \<Rightarrow> dflt | Some (_, xs) \<Rightarrow> map snd xs)"

definition open_image ::
  "('k, 's) sys_env \<Rightarrow> u8 list \<Rightarrow> karray option \<Rightarrow> karray option \<Rightarrow> ('k, 's) sys \<Rightarrow> ((sysret + loaded) \<times> ('k, 's) sys) outcome" where
  "open_image E kpath argv envp s =
     bindF (vfs_open (venv E) (mnt s) (Some kpath) 0 (fss s)) (\<lambda>(r, fs).
     case r of
       Inl e \<Rightarrow> Inr (Inl (Ret (of_int e)), free_args argv envp (s\<lparr>fss := fs\<rparr>))
     | Inr vf \<Rightarrow>
        (let (buf, s1) = kmalloc_in (s\<lparr>fss := fs\<rparr>)
         in if buf = 0 then
              bindF (vfs_close (venv E) (Some vf) (fss s1)) (\<lambda>(_, fs1). Inr (Inl (errno ENOMEM), free_args argv envp (s1\<lparr>fss := fs1\<rparr>)))
            else
              bindF (vfs_read (venv E) (Some vf) MAX_ELF_SIZE (fss s1)) (\<lambda>(r, fs1).
              bindF (vfs_close (venv E) (Some (case r of Inl _ \<Rightarrow> vf | Inr (_, f, _) \<Rightarrow> vf\<lparr>f_file := f\<rparr>)) fs1) (\<lambda>(_, fs2).
              (let data = (case r of Inl _ \<Rightarrow> [] | Inr (_, _, bs) \<Rightarrow> bs)
               in Inr (Inr \<lparr>l_argv = argv, l_envp = envp, l_args = strings argv [kpath], l_envs = strings envp [], l_buf = buf,
                    l_image = data @ drop (length data) (junk E), l_size = of_nat (length data)\<rparr>, s1\<lparr>fss := fs2\<rparr>))))))"

definition load_program ::
  "('k, 's) sys_env \<Rightarrow> u64 \<Rightarrow> u64 \<Rightarrow> u64 \<Rightarrow> ('k, 's) sys \<Rightarrow> ((sysret + loaded) \<times> ('k, 's) sys) outcome" where
  "load_program E path argv envp s =
     bindF (copy_path s path) (\<lambda>r. case r of
         Inl e \<Rightarrow> Inr (Inl (Ret (of_int e)), s)
       | Inr kpath \<Rightarrow>
          bindF (copy_user_string_array argv s) (\<lambda>(r, s1). case r of
            Inl e \<Rightarrow> Inr (Inl (array_error e), s1)
          | Inr kargv \<Rightarrow>
             bindF (copy_user_string_array envp s1) (\<lambda>(r, s2). case r of
               Inl e \<Rightarrow> Inr (Inl (array_error e), free_kernel_string_array kargv s2)
             | Inr kenvp \<Rightarrow> open_image E kpath kargv kenvp s2)))"

abbreviation BRK_START :: u64 where "BRK_START \<equiv> 0x10000000"

definition sys_spawn :: "('k, 's) sys_env \<Rightarrow> u64 \<Rightarrow> u64 \<Rightarrow> u64 \<Rightarrow> ('k, 's) sys \<Rightarrow> (sysret \<times> ('k, 's) sys) outcome" where
  "sys_spawn E path argv envp s =
     bindF (load_program E path argv envp s) (\<lambda>(r, s1). case r of
         Inl e \<Rightarrow> Inr (e, s1)
       | Inr l \<Rightarrow>
          (let (child, q) = process_create (tty_key E) (ps s1); s2 = s1\<lparr>ps := q\<rparr>
           in if child = 0 then Inr (errno ENOMEM, free_args (l_argv l) (l_envp l) (kfree_in (l_buf l) s2))
              else
                bindF (elf_load_image (pml4_phys (procs (kst s2) child)) (l_image l) (l_size l) (l_args l) (l_envs l) (vm (ps s2)))
                  (\<lambda>(err, (ent, rsp_out), m).
                (let s3 = free_args (l_argv l) (l_envp l) (kfree_in (l_buf l) (s2\<lparr>ps := (ps s2)\<lparr>vm := m\<rparr>\<rparr>))
                 in if err \<noteq> ELF_LOAD_SUCCESS
                    then bindF (process_destroy child (ps s3)) (\<lambda>q. Inr (errno EINVAL, s3\<lparr>ps := q\<rparr>))
                    else bindF (thread_create_user (code E) child ent rsp_out (kst s3)) (\<lambda>(_, k).
                      (let s4 = with_kst (\<lambda>_. k) s3; fds = fd_table (proc s4)
                       in Inr (Ret (scast (pid (procs k child))),
                            with_kst (upd_proc child (\<lambda>p. p\<lparr>fd_table := fds, brk_start := BRK_START, brk_current := BRK_START\<rparr>)) s4)))))))"

definition sys_execve :: "('k, 's) sys_env \<Rightarrow> u64 \<Rightarrow> u64 \<Rightarrow> u64 \<Rightarrow> ('k, 's) sys \<Rightarrow> (sysret \<times> ('k, 's) sys) outcome" where
  "sys_execve E path argv envp s =
     bindF (load_program E path argv envp s) (\<lambda>(r, s1). case r of
         Inl e \<Rightarrow> Inr (e, s1)
       | Inr l \<Rightarrow>
          (case vmm_create_address_space (vm (ps s1)) of
             (None, m) \<Rightarrow> Inr (errno ENOMEM, free_args (l_argv l) (l_envp l) (kfree_in (l_buf l) (s1\<lparr>ps := (ps s1)\<lparr>vm := m\<rparr>\<rparr>)))
           | (Some new_as, m) \<Rightarrow>
               bindF (elf_load_image new_as (l_image l) (l_size l) (l_args l) (l_envs l) m) (\<lambda>(err, (ent, rsp_out), m1).
               (let s2 = free_args (l_argv l) (l_envp l) (kfree_in (l_buf l) s1)
                in if err \<noteq> ELF_LOAD_SUCCESS
                   then bindF (vmm_destroy_address_space new_as m1) (\<lambda>(_, m2). Inr (errno EINVAL, s2\<lparr>ps := (ps s2)\<lparr>vm := m2\<rparr>\<rparr>))
                   else bindF (vmm_destroy_address_space (as_of s2) m1) (\<lambda>(_, m2).
                     (let s3 = set_proc (\<lambda>p. p\<lparr>pml4_phys := new_as, brk_start := BRK_START, brk_current := BRK_START\<rparr>) s2
                      in Inr (Ret 0, s3\<lparr>ps := (ps s3)\<lparr>vm := m2\<lparr>cr3 := new_as\<rparr>\<rparr>,
                           frame := (frame s3)\<lparr>rcx := ent, rsp := rsp_out, r11 := 0x202\<rparr>\<rparr>)))))))"

section \<open>The break\<close>

definition PAGE_ALIGN_UP :: "u64 \<Rightarrow> u64" where
  "PAGE_ALIGN_UP x = (x + 0xFFF) AND NOT 0xFFF"

fun brk_grow :: "u64 \<Rightarrow> u64 list \<Rightarrow> kmem \<Rightarrow> (bool \<times> kmem) outcome" where
  "brk_grow pml4 [] k = Inr (True, k)"
| "brk_grow pml4 (va # vas) k =
     bindF (map_new_page pml4 va (VMM_FLAG_USER OR VMM_FLAG_WRITABLE OR VMM_FLAG_NO_EXECUTE) k) (\<lambda>(ok, k1).
     if ok then brk_grow pml4 vas k1 else Inr (False, k1))"

fun brk_shrink :: "u64 \<Rightarrow> u64 list \<Rightarrow> kmem \<Rightarrow> kmem outcome" where
  "brk_shrink pml4 [] k = Inr k"
| "brk_shrink pml4 (va # vas) k =
     bindF (case vmm_get_phys pml4 va k of
         None \<Rightarrow> Inr k
       | Some phys \<Rightarrow> free_frame phys (snd (vmm_unmap_page pml4 va k)))
       (brk_shrink pml4 vas)"

definition sys_brk :: "u64 \<Rightarrow> ('k, 's) sys \<Rightarrow> (sysret \<times> ('k, 's) sys) outcome" where
  "sys_brk new_brk s =
     (let old = brk_current (proc s); pml4 = as_of s;
          finish = (\<lambda>m. (Ret new_brk, set_proc (\<lambda>p. p\<lparr>brk_current := new_brk\<rparr>) (s\<lparr>ps := (ps s)\<lparr>vm := m\<rparr>\<rparr>)))
      in if new_brk = 0 \<or> new_brk < brk_start (proc s) then Inr (Ret old, s)
         else if new_brk > old then
           bindF (brk_grow pml4 (page_addrs (PAGE_ALIGN_UP old) (PAGE_ALIGN_UP new_brk)) (vm (ps s))) (\<lambda>(ok, m).
           Inr (if ok then finish m else (Ret old, s\<lparr>ps := (ps s)\<lparr>vm := m\<rparr>\<rparr>)))
         else if new_brk < old then
           bindF (brk_shrink pml4 (page_addrs (PAGE_ALIGN_UP new_brk) (PAGE_ALIGN_UP old)) (vm (ps s))) (\<lambda>m. Inr (finish m))
         else Inr (finish (vm (ps s))))"

section \<open>Dispatch\<close>

definition syscall_dispatch :: "('k, 's) sys_env \<Rightarrow> u64 \<Rightarrow> u64 \<Rightarrow> u64 \<Rightarrow> u64 \<Rightarrow> ('k, 's) sys \<Rightarrow> (sysret \<times> ('k, 's) sys) outcome" where
  "syscall_dispatch E nr a0 a1 a2 s =
     (if nr = 0 then sys_exit a0 s
      else if nr = 1 then sys_write E a0 a1 a2 s
      else if nr = 2 then Inr (sys_getpid s)
      else if nr = 3 then sys_open E a0 a1 s
      else if nr = 4 then sys_read E a0 a1 a2 s
      else if nr = 5 then sys_close E a0 s
      else if nr = 6 then sys_waitpid a0 a1 s
      else if nr = 7 then sys_spawn E a0 a1 a2 s
      else if nr = 8 then sys_execve E a0 a1 a2 s
      else if nr = 9 then sys_brk a0 s
      else if nr = 10 then sys_getdents E a0 a1 a2 s
      else if nr = 11 then sys_mkdir E a0 a1 s
      else if nr = 12 then sys_unlink E a0 s
      else if nr = 13 then sys_rmdir E a0 s
      else Inr (errno ENOSYS, s))"

end
