(* ===== verification/Spec2Isabelle.thy ===== *)
theory Spec2Isabelle
  imports KString PMM VMM_Correct Heap_Correct ATA KFS_Dir VFS_KFS TTY_Correct Syscall
begin

text \<open>
  A verification development for Kryos, a small x86-64 kernel in C.

  \<^bold>\<open>Parts and theories.\<close>

  \<^item> \<open>Kryos_Prelude\<close>, \<open>Disk_Bytes\<close>: machine integers, ways an operation can fail to return
    (\<open>fault\<close>), bitmaps in byte arrays, byte buffers and little-endian encodings.
  \<^item> \<open>KString\<close> (\<open>kernel/lib/string.c\<close>): memory and string routines on byte memory.
    \<open>KMemory\<close> adds the direct map of \<open>kernel/memory/virt.h\<close> and 64-bit accesses.
  \<^item> \<open>Frame_Allocator\<close>, \<open>PMM\<close> (\<open>kernel/memory/pmm.c\<close>): the interface of a frame allocator as a
    locale, and the bitmap allocator that implements it.
  \<^item> \<open>VMM\<close>, \<open>Page_Tree\<close>, \<open>VMM_Correct\<close> (\<open>kernel/memory/vmm.c\<close>): four-level page tables in byte
    memory, their view as a tree, and what mapping, unmapping, range checks and new address spaces
    do to translations.
  \<^item> \<open>Page_Mapper\<close>, \<open>VMM_Mapper\<close>, \<open>Heap\<close>, \<open>Heap_List\<close>, \<open>Heap_Correct\<close> (\<open>kernel/memory/heap.c\<close>): the
    interface the heap grows on, its implementation by the page tables, and the heap as a list of
    blocks that tile the mapped pages.
  \<^item> \<open>Vnode\<close>, \<open>Block_Device\<close>, \<open>ATA\<close> (\<open>include/vfs.h\<close>, \<open>kernel/fs/blk.c\<close>, \<open>kernel/drivers/ata.c\<close>):
    shared file system types, the block layer with the contract of a driver as a locale, and the PIO
    driver, which fulfils the contract on every drive that follows the register protocol.
  \<^item> \<open>KFS\<close>, \<open>KFS_Logic\<close>, \<open>KFS_Blocks\<close>, \<open>KFS_Files\<close>, \<open>KFS_Grow\<close>,
    \<open>KFS_Write\<close>, \<open>KFS_Invariant\<close>, \<open>KFS_Correct\<close>, \<open>KFS_Dir\<close> (\<open>kernel/fs/kfs.c\<close>): the file
    system, every operation of it, and its behaviour on a device that keeps its contract.
  \<^item> \<open>VFS\<close>, \<open>VFS_Paths\<close>, \<open>VFS_KFS\<close> (\<open>kernel/fs/vfs.c\<close>): path resolution and dispatch over operation tables.
  \<^item> \<open>Thread\<close>, \<open>Thread_Ring\<close>, \<open>Scheduler\<close> (\<open>kernel/thread/thread.c\<close>): thread and process structures in
    stores indexed by their addresses, the ring of threads and the wait queues as lists, the
    round-robin scheduler. A switch of register contexts is a recorded call.
  \<^item> \<open>Console\<close>, \<open>Console_Correct\<close> (\<open>kernel/drivers/vga.c\<close>, \<open>kernel/fs/vt.c\<close>): the screen and the virtual
    terminals with their escape sequences.
  \<^item> \<open>TTY\<close>, \<open>TTY_Correct\<close> (\<open>kernel/fs/tty.c\<close>, \<open>kernel/drivers/ps2.c\<close>): the line discipline and the
    keyboard, over the terminals and the threads.
  \<^item> \<open>Process\<close> (\<open>kernel/process/process.c\<close>), \<open>ELF\<close> (\<open>kernel/process/elf.c\<close>), \<open>Syscall\<close>
    (\<open>kernel/syscall/syscall.c\<close>): the process tree, the program loader over the page tables, and the system
    calls over processes, memory and the virtual file system.

  \<^bold>\<open>How state and control are modelled.\<close> Static variables of a C file are a record that the
  operations take and return. Errors are values: negative codes as in the source, and \<open>fault\<close> for a
  panic, an access outside an object, or a loop that does not end. Loops over data that may be
  cyclic are partial functions in the option monad, where \<open>None\<close> stands for never returning; the
  theorems about them state that they return. Machine integers keep their width wherever the code
  can wrap.

  \<^bold>\<open>Interfaces.\<close> \<open>frame_allocator\<close>, \<open>page_mapper\<close>, \<open>block_device\<close> and \<open>ata_drive\<close> are locales. The
  first three are interpreted on (or proved of) the models of the physical memory manager, the
  page tables and the ATA driver; the last one states what the hardware documents and is
  interpreted on a drive with an arbitrary busy time.

  \<^bold>\<open>What the theorems show.\<close> Frames are handed out once and come back; a mapping appears exactly
  where it was asked for and nowhere else, and address spaces stay apart; the heap's blocks never
  overlap and its walks end; sectors and byte ranges of a device read back what was written;
  a file reads back what was written to it and no other file changes, lookups and creations in
  directories do what the directory's bytes say, and a path that leads to a file opens that file;
  the scheduler keeps its ring and queues, picks the next ready thread and starves none; output never
  leaves the screen, and typed lines arrive as edited, in order.

  \<^bold>\<open>Bounds.\<close> No fuel is used. Sizes are those of the code: ten direct and 128 indirect blocks per
  file, 512-byte sectors, 28-bit sector numbers, 48-bit addresses in four levels of 512 entries.

  \<^bold>\<open>Not modelled.\<close> Boot code, descriptor tables, interrupt entry and context switching are assembly or tables
  of constants for the processor. Interrupt masking around critical sections has no counterpart in
  a sequential model. The tar file system, the parser of the boot information and formatted output
  are left out. The serial port is the list of bytes sent to it. User programs and their library,
  tests and scripts are clients of the kernel and are left out.
\<close>

end
